(* ===== verification/Prelude.thy ===== *)
theory Prelude
  imports Main "HOL-Library.Word"
begin

text \<open>
  Shared vocabulary of the development: Go's fixed-width integers as words, byte slices as
  lists, errors as values, the two result monads in which the fallible and the stateful code
  is written, \<open>encoding/binary\<close>'s big-endian accessors, \<open>io.ReadFull\<close>, and the generic
  lemmas on lists and words the components share.

  Conventions.  A Go slice is a list of bytes; \<open>nil\<close> and the empty slice are both \<open>[]\<close>.
  A Go \<open>int\<close> that counts bytes is a \<open>nat\<close>; conversions such as \<open>uint16(len(x))\<close> go
  through \<open>of_nat\<close>, which wraps exactly as Go's conversion does.  An error wrapped with
  \<open>fmt.Errorf("...: %w", err)\<close> is represented by the wrapped error, the value
  \<open>errors.Is\<close> finds.  A sentinel error is named by the Go variable that holds it.
\<close>

unbundle bit_operations_syntax

named_theorems go_simps \<open>evaluation rules for the models of Go's library operations\<close>
named_theorems wire_simps \<open>round-trip rules for readers applied to appended fields\<close>

section \<open>Machine integers and byte strings\<close>

type_synonym byte = "8 word"
type_synonym u16 = "16 word"
type_synonym u32 = "32 word"
type_synonym u64 = "64 word"
type_synonym bytes = "byte list"

text \<open>\<open>b[i:j]\<close> for \<open>i \<le> j \<le> len(b)\<close>.\<close>

definition slice :: "nat \<Rightarrow> nat \<Rightarrow> 'a list \<Rightarrow> 'a list" where
  "slice i j xs = take (j - i) (drop i xs)"

text \<open>\<open>string\<close> literals used as bytes (labels, names).\<close>

definition bytes_of :: "string \<Rightarrow> bytes" where
  "bytes_of s = map of_char s"

section \<open>Errors and results\<close>

datatype err =
    Sentinel string          \<comment> \<open>a package-level \<open>errors.New\<close> value, by its variable's name\<close>
  | AlertError byte byte     \<comment> \<open>\<open>record.AlertError\<close>: level, description\<close>
  | RecordError bool string  \<comment> \<open>\<open>record.RecordError\<close>: fatal, constant part of the message\<close>
  | EOF                      \<comment> \<open>\<open>io.EOF\<close>\<close>
  | UnexpectedEOF            \<comment> \<open>\<open>io.ErrUnexpectedEOF\<close>\<close>
  | TransportErr string      \<comment> \<open>an error of the underlying connection\<close>
  | External string          \<comment> \<open>an error returned by code outside the repository\<close>
  | Panic string             \<comment> \<open>a run-time panic\<close>

type_synonym 'a res = "err + 'a"

fun bindR :: "'a res \<Rightarrow> ('a \<Rightarrow> 'b res) \<Rightarrow> 'b res" where
  "bindR (Inl e) f = Inl e"
| "bindR (Inr x) f = f x"

definition guardR :: "bool \<Rightarrow> err \<Rightarrow> 'b res \<Rightarrow> 'b res" where
  "guardR bad e k = (if bad then Inl e else k)"

lemma bindR_cong [fundef_cong]:
  "m = m' \<Longrightarrow> (\<And>x. m' = Inr x \<Longrightarrow> f x = f' x) \<Longrightarrow> bindR m f = bindR m' f'"
  by (cases m') auto

lemma guardR_cong [fundef_cong]:
  "bad = bad' \<Longrightarrow> e = e' \<Longrightarrow> (\<not> bad' \<Longrightarrow> k = k') \<Longrightarrow> guardR bad e k = guardR bad' e' k'"
  by (simp add: guardR_def)

lemma bindR_eq_Inr: "bindR m f = Inr y \<longleftrightarrow> (\<exists>x. m = Inr x \<and> f x = Inr y)"
  by (cases m) auto

lemma bindR_eq_Inl: "bindR m f = Inl e \<longleftrightarrow> m = Inl e \<or> (\<exists>x. m = Inr x \<and> f x = Inl e)"
  by (cases m) auto

lemma guardR_eq_Inr [simp]: "guardR bad e k = Inr y \<longleftrightarrow> \<not> bad \<and> k = Inr y"
  by (simp add: guardR_def)

lemma guardR_False [simp]: "guardR False e k = k"
  and guardR_True [simp]: "guardR True e k = Inl e"
  by (simp_all add: guardR_def)

text \<open>Stateful fallible code: the state survives an error, as a mutated receiver does.\<close>

type_synonym ('s, 'a) sm = "'s \<Rightarrow> 'a res \<times> 's"

definition returnS :: "'a \<Rightarrow> ('s, 'a) sm" where
  "returnS x = (\<lambda>s. (Inr x, s))"

definition failS :: "err \<Rightarrow> ('s, 'a) sm" where
  "failS e = (\<lambda>s. (Inl e, s))"

definition bindS :: "('s, 'a) sm \<Rightarrow> ('a \<Rightarrow> ('s, 'b) sm) \<Rightarrow> ('s, 'b) sm" where
  "bindS m f = (\<lambda>s. case m s of (Inl e, s') \<Rightarrow> (Inl e, s') | (Inr x, s') \<Rightarrow> f x s')"

definition getS :: "('s \<Rightarrow> 'a) \<Rightarrow> ('s, 'a) sm" where
  "getS f = (\<lambda>s. (Inr (f s), s))"

definition modifyS :: "('s \<Rightarrow> 's) \<Rightarrow> ('s, unit) sm" where
  "modifyS f = (\<lambda>s. (Inr (), f s))"

text \<open>\<open>if err != nil { return handler(err) }\<close>: the handler runs in the state the failing
  call left behind.\<close>

definition catchS :: "('s, 'a) sm \<Rightarrow> (err \<Rightarrow> ('s, 'a) sm) \<Rightarrow> ('s, 'a) sm" where
  "catchS m h = (\<lambda>s. case m s of (Inl e, s') \<Rightarrow> h e s' | (Inr x, s') \<Rightarrow> (Inr x, s'))"

definition liftS :: "'a res \<Rightarrow> ('s, 'a) sm" where
  "liftS r = (\<lambda>s. (r, s))"

lemma returnS_apply [simp]: "returnS x s = (Inr x, s)"
  and failS_apply [simp]: "failS e s = (Inl e, s)"
  and getS_apply [simp]: "getS f s = (Inr (f s), s)"
  and modifyS_apply [simp]: "modifyS g s = (Inr (), g s)"
  and liftS_apply [simp]: "liftS r s = (r, s)"
  by (simp_all add: returnS_def failS_def getS_def modifyS_def liftS_def)

lemma bindS_eq_Inr:
  "bindS m f s = (Inr y, t) \<longleftrightarrow> (\<exists>x s'. m s = (Inr x, s') \<and> f x s' = (Inr y, t))"
  by (auto simp: bindS_def split: prod.splits sum.splits)

lemma bindS_eq_Inl:
  "bindS m f s = (Inl e, t) \<longleftrightarrow>
     m s = (Inl e, t) \<or> (\<exists>x s'. m s = (Inr x, s') \<and> f x s' = (Inl e, t))"
  by (auto simp: bindS_def split: prod.splits sum.splits)

lemma bindS_Inr [simp]: "m s = (Inr x, s') \<Longrightarrow> bindS m f s = f x s'"
  and bindS_Inl [simp]: "m s = (Inl e, s') \<Longrightarrow> bindS m f s = (Inl e, s')"
  by (simp_all add: bindS_def)

lemma catchS_eq_Inr:
  "catchS m h s = (Inr y, t) \<longleftrightarrow>
     m s = (Inr y, t) \<or> (\<exists>e s'. m s = (Inl e, s') \<and> h e s' = (Inr y, t))"
  by (auto simp: catchS_def split: prod.splits sum.splits)

lemma catchS_eq_Inl:
  "catchS m h s = (Inl e, t) \<longleftrightarrow> (\<exists>e' s'. m s = (Inl e', s') \<and> h e' s' = (Inl e, t))"
  by (auto simp: catchS_def split: prod.splits sum.splits)

lemma catchS_Inr [simp]: "m s = (Inr x, s') \<Longrightarrow> catchS m h s = (Inr x, s')"
  and catchS_Inl [simp]: "m s = (Inl e, s') \<Longrightarrow> catchS m h s = h e s'"
  by (simp_all add: catchS_def)

lemmas sm_elims = bindS_eq_Inr bindS_eq_Inl catchS_eq_Inr catchS_eq_Inl

section \<open>Big-endian fields\<close>

definition put16 :: "u16 \<Rightarrow> bytes" where
  "put16 v = [ucast (drop_bit 8 v), ucast v]"

definition get16 :: "byte \<Rightarrow> byte \<Rightarrow> u16" where
  "get16 a b = push_bit 8 (ucast a) OR ucast b"

definition put24 :: "u32 \<Rightarrow> bytes" where
  "put24 v = [ucast (drop_bit 16 v), ucast (drop_bit 8 v), ucast v]"

definition get24 :: "byte \<Rightarrow> byte \<Rightarrow> byte \<Rightarrow> u32" where
  "get24 a b c = push_bit 16 (ucast a) OR push_bit 8 (ucast b) OR ucast c"

definition put64 :: "u64 \<Rightarrow> bytes" where
  "put64 v = map (\<lambda>i. ucast (drop_bit (8 * i) v)) [7, 6, 5, 4, 3, 2, 1, 0]"

text \<open>The number a big-endian byte string denotes (\<open>big.Int.SetBytes\<close>).\<close>

fun be_val :: "bytes \<Rightarrow> nat" where
  "be_val [] = 0"
| "be_val (b # bs) = unat b * 256 ^ length bs + be_val bs"

lemma unat_byte_lt [simp]: "unat (b :: byte) < 256"
  using unsigned_less [of b] by simp

lemma unat_u16_lt [simp]: "unat (v :: u16) < 65536"
  using unsigned_less [of v] by simp

lemma unat_u64_lt [simp]: "unat (v :: u64) < 18446744073709551616"
  using unsigned_less [of v] by simp

lemma unat_ucast_up:
  fixes a :: "'a::len word"
  assumes "LENGTH('a) \<le> LENGTH('b)"
  shows "unat (ucast a :: 'b::len word) = unat a"
proof -
  have "unat a < 2 ^ LENGTH('b)"
    using unsigned_less [of a] assms by (meson less_le_trans one_le_numeral power_increasing)
  then show ?thesis by (simp add: unsigned_ucast_eq take_bit_nat_eq_self)
qed

lemma or_push_add:
  assumes "(b::nat) < 2 ^ n"
  shows "push_bit n a OR b = a * 2 ^ n + b"
proof -
  have "push_bit n a AND take_bit n b = 0"
    by (rule bit_eqI) (auto simp: bit_simps)
  then have "push_bit n a AND b = 0"
    using assms by (simp add: take_bit_nat_eq_self)
  then have "push_bit n a OR b = push_bit n a + b"
    by (simp add: disjunctive_add_eq_or)
  then show ?thesis by (simp add: push_bit_eq_mult)
qed

lemma unat_push_ucast:
  fixes a :: "'a::len word"
  assumes "LENGTH('a) + n \<le> LENGTH('b)"
  shows "unat (push_bit n (ucast a) :: 'b::len word) = push_bit n (unat a)"
proof -
  have "push_bit n (unat a) < 2 ^ (LENGTH('a) + n)"
    using unsigned_less [of a] by (simp add: push_bit_eq_mult power_add)
  then have "push_bit n (unat a) < 2 ^ LENGTH('b)"
    using assms by (meson less_le_trans one_le_numeral power_increasing)
  with assms show ?thesis
    by (simp only: unsigned_push_bit_eq unat_ucast_up add_leD1 take_bit_nat_eq_self)
qed

lemma unat_get16: "unat (get16 a b) = unat a * 256 + unat b"
  using or_push_add [of "unat b" 8 "unat a"] unat_byte_lt [of b]
  by (simp add: get16_def unsigned_or_eq unat_push_ucast unat_ucast_up del: push_bit_numeral)

lemma unat_get24: "unat (get24 a b c) = unat a * 65536 + unat b * 256 + unat c"
proof -
  have bc: "unat b * 256 + unat c < 65536"
    using unat_byte_lt [of b] unat_byte_lt [of c] by linarith
  show ?thesis
    using or_push_add [of "unat c" 8 "unat b"] unat_byte_lt [of c] bc
      or_push_add [of "unat b * 256 + unat c" 16 "unat a"]
    by (simp add: get24_def or.assoc unsigned_or_eq unat_push_ucast unat_ucast_up
        del: push_bit_numeral)
qed

lemma unat_get24_lt: "unat (get24 a b c) < 16777216"
  using unat_byte_lt [of a] unat_byte_lt [of b] unat_byte_lt [of c]
  unfolding unat_get24 by linarith

lemma unat_byte_of_u16:
  "unat (ucast (v :: u16) :: byte) = unat v mod 256"
  by (simp add: unsigned_ucast_eq take_bit_eq_mod)

lemma unat_hi_u16: "unat (ucast (drop_bit 8 (v :: u16)) :: byte) = unat v div 256"
proof -
  have "unat v div 256 < 256" using unat_u16_lt [of v] by (simp add: div_less_iff_less_mult)
  then show ?thesis
    by (simp only: unsigned_ucast_eq unat_drop_bit_eq)
      (simp add: drop_bit_eq_div take_bit_nat_eq_self)
qed

lemma get16_put16 [wire_simps, simp]:
  "get16 (ucast (drop_bit 8 v)) (ucast v) = v"
  by (simp only: word_unat_eq_iff unat_get16 unat_hi_u16) (simp add: unat_byte_of_u16)

lemma put16_get16: "put16 (get16 a b) = [a, b]"
proof -
  have "unat (ucast (drop_bit 8 (get16 a b)) :: byte) = unat a"
    using unat_byte_lt [of b] by (simp add: unat_hi_u16 unat_get16)
  moreover have "unat (ucast (get16 a b) :: byte) = unat b"
    using unat_byte_lt [of b] by (simp add: unat_byte_of_u16 unat_get16)
  ultimately show ?thesis by (simp only: put16_def word_unat_eq_iff list.inject simp_thms)
qed

lemma put24_nth:
  fixes v :: u32
  shows "unat (ucast (drop_bit k v) :: byte) = unat v div 2 ^ k mod 256"
  by (simp only: unsigned_ucast_eq unat_drop_bit_eq) (simp add: drop_bit_eq_div take_bit_eq_mod)

lemma get24_put24:
  assumes "unat v < 16777216"
  shows "get24 (ucast (drop_bit 16 v)) (ucast (drop_bit 8 v)) (ucast v) = v"
proof -
  have "unat (ucast v :: byte) = unat v mod 256"
    by (simp add: unsigned_ucast_eq take_bit_eq_mod)
  moreover have "unat v mod 65536 = 256 * (unat v div 256 mod 256) + unat v mod 256"
    using mod_mult2_eq [of "unat v" 256 256] by simp
  moreover have "unat v div 65536 < 256"
    using assms by (simp add: div_less_iff_less_mult)
  moreover have "unat v div 65536 * 65536 + unat v mod 65536 = unat v"
    by (rule div_mult_mod_eq)
  ultimately show ?thesis
    by (simp only: word_unat_eq_iff unat_get24 put24_nth) simp
qed

lemma put16_not_Nil [simp]: "put16 v \<noteq> []"
  by (simp add: put16_def)

lemma length_put16 [simp]: "length (put16 v) = 2"
  and length_put24 [simp]: "length (put24 w) = 3"
  and length_put64 [simp]: "length (put64 x) = 8"
  by (simp_all add: put16_def put24_def put64_def)

lemma be_val_append: "be_val (xs @ ys) = be_val xs * 256 ^ length ys + be_val ys"
  by (induction xs) (auto simp: algebra_simps power_add)

lemma be_val_lt: "be_val bs < 256 ^ length bs"
proof (induction bs)
  case (Cons b bs)
  have "unat b * 256 ^ length bs + be_val bs < (unat b + 1) * 256 ^ length bs"
    using Cons by simp
  also have "\<dots> \<le> 256 * 256 ^ length bs"
    using unat_byte_lt [of b] by (intro mult_le_mono1) linarith
  finally show ?case by simp
qed simp

lemma be_val_inj: "length xs = length ys \<Longrightarrow> be_val xs = be_val ys \<Longrightarrow> xs = ys"
proof (induction xs ys rule: list_induct2)
  case (Cons x xs y ys)
  have "unat x = be_val (x # xs) div 256 ^ length xs"
    using be_val_lt [of xs] by simp
  moreover have "unat y = be_val (y # ys) div 256 ^ length ys"
    using be_val_lt [of ys] by simp
  ultimately have xy: "unat x = unat y"
    using Cons.prems Cons.hyps by (simp only:)
  then have "be_val xs = be_val ys" using Cons by simp
  with xy Cons show ?case by (simp only: word_unat_eq_iff list.inject simp_thms)
qed simp

lemma be_val_replicate_zero [simp]: "be_val (replicate n 0) = 0"
  by (induction n) auto

lemma unat_of_nat_byte [simp]: "n < 256 \<Longrightarrow> unat (of_nat n :: byte) = n"
  by (simp add: unat_of_nat)

lemma unat_of_nat_u16 [simp]: "n < 65536 \<Longrightarrow> unat (of_nat n :: u16) = n"
  by (simp add: unat_of_nat)

lemma unat_of_nat_u32_24 [simp]: "n < 16777216 \<Longrightarrow> unat (of_nat n :: u32) = n"
  by (simp add: unat_of_nat)

section \<open>Random and transport input: \<open>io.Reader\<close> and \<open>io.ReadFull\<close>\<close>

text \<open>A reader delivers \<open>r_data\<close> and then fails with \<open>r_err\<close>.\<close>

record reader =
  r_data :: bytes
  r_err :: err

text \<open>\<open>io.ReadFull(r, buf)\<close> with \<open>len(buf) = n\<close>: a short read is \<open>ErrUnexpectedEOF\<close> when the
  reader ended after at least one byte, and the reader's own error otherwise.\<close>

definition ReadFull :: "nat \<Rightarrow> reader \<Rightarrow> bytes res \<times> reader" where
  "ReadFull n r =
     (if n \<le> length (r_data r)
      then (Inr (take n (r_data r)), r\<lparr>r_data := drop n (r_data r)\<rparr>)
      else (Inl (if r_data r \<noteq> [] \<and> r_err r = EOF then UnexpectedEOF else r_err r),
            r\<lparr>r_data := []\<rparr>))"

lemma ReadFull_Inr:
  "ReadFull n r = (Inr b, r') \<Longrightarrow>
     length b = n \<and> r_data r = b @ r_data r' \<and> r_err r' = r_err r"
  by (auto simp: ReadFull_def split: if_splits)

lemma ReadFull_append [simp]:
  "length b = n \<Longrightarrow> r_data r = b @ rest \<Longrightarrow> ReadFull n r = (Inr b, r\<lparr>r_data := rest\<rparr>)"
  by (simp add: ReadFull_def)

lemma ReadFull_shrinks:
  "ReadFull n r = (x, r') \<Longrightarrow> length (r_data r') \<le> length (r_data r)"
  by (auto simp: ReadFull_def split: if_splits)

section \<open>Counters and prefixes\<close>

lemma u64_Suc: assumes "x \<noteq> (- 1 :: u64)" shows "unat (x + 1) = Suc (unat x)"
proof -
  have "unat x \<noteq> 18446744073709551615"
  proof
    assume e: "unat x = 18446744073709551615"
    have "x = word_of_nat (unat x)" by simp
    also have "\<dots> = - 1" unfolding e by simp
    finally show False using assms by simp
  qed
  moreover have "unat x < 18446744073709551616" using unsigned_less [of x, where 'a = nat] by simp
  ultimately have "Suc (unat x) < 18446744073709551616" by linarith
  then show ?thesis by (simp add: unat_word_ariths)
qed

lemma take_append_prefix:
  "\<exists>k'. take k a = take k' (a @ b)" "\<exists>k'. a @ take k b = take k' (a @ b)"
proof -
  show "\<exists>k'. take k a = take k' (a @ b)" by (rule exI [of _ "min k (length a)"]) (simp add: min_def)
  show "\<exists>k'. a @ take k b = take k' (a @ b)" by (rule exI [of _ "length a + k"]) simp
qed

end
