(* ===== verification/Wire.thy ===== *)
theory Wire
  imports Prelude
begin

text \<open>
  \<open>internal/handshake/wire.go\<close>: the readers that split a field off the front of a byte
  slice and the writers that append one.  Every reader is a total function into
  \<open>err + value \<times> rest\<close>.  For each reader there is a round-trip rule (reading what the
  writer appended, collection \<open>wire_simps\<close>) and an inversion rule (a successful read
  determines the bytes consumed), which the message parsers build on.
\<close>

section \<open>Readers\<close>

definition readUint8 :: "bytes \<Rightarrow> (byte \<times> bytes) res" where
  "readUint8 b =
     (if length b < 1 then Inl (Sentinel ''errTruncated1'')
      else Inr (b ! 0, drop 1 b))"

definition readUint16 :: "bytes \<Rightarrow> (u16 \<times> bytes) res" where
  "readUint16 b =
     (if length b < 2 then Inl (Sentinel ''errTruncated2'')
      else Inr (get16 (b ! 0) (b ! 1), drop 2 b))"

definition readBytes :: "bytes \<Rightarrow> nat \<Rightarrow> (bytes \<times> bytes) res" where
  "readBytes b n =
     (if length b < n then Inl (Sentinel ''errNeedBytes'')
      else Inr (take n b, drop n b))"

definition readLenPrefixed8 :: "bytes \<Rightarrow> (bytes \<times> bytes) res" where
  "readLenPrefixed8 b =
     (if length b < 1 then Inl (Sentinel ''errPfxUint8'')
      else let len = unat (b ! 0); b' = drop 1 b in
        if length b' < len then Inl (Sentinel ''errBodyShort'')
        else Inr (take len b', drop len b'))"

definition readLenPrefixed16 :: "bytes \<Rightarrow> (bytes \<times> bytes) res" where
  "readLenPrefixed16 b =
     (if length b < 2 then Inl (Sentinel ''errPfxUint16'')
      else let len = unat (get16 (b ! 0) (b ! 1)); b' = drop 2 b in
        if length b' < len then Inl (Sentinel ''errBodyShort'')
        else Inr (take len b', drop len b'))"

definition readLenPrefixed24 :: "bytes \<Rightarrow> (bytes \<times> bytes) res" where
  "readLenPrefixed24 b =
     (if length b < 3 then Inl (Sentinel ''errPfxUint24'')
      else let len = unat (get24 (b ! 0) (b ! 1) (b ! 2)); b' = drop 3 b in
        if length b' < len then Inl (Sentinel ''errBodyShort'')
        else Inr (take len b', drop len b'))"

section \<open>Writers\<close>

definition appendUint8 :: "bytes \<Rightarrow> byte \<Rightarrow> bytes" where
  "appendUint8 dst v = dst @ [v]"

definition appendUint16 :: "bytes \<Rightarrow> u16 \<Rightarrow> bytes" where
  "appendUint16 dst v = dst @ [ucast (drop_bit 8 v), ucast v]"

definition appendUint24 :: "bytes \<Rightarrow> u32 \<Rightarrow> bytes" where
  "appendUint24 dst v = dst @ [ucast (drop_bit 16 v), ucast (drop_bit 8 v), ucast v]"

definition appendLenPrefixed8 :: "bytes \<Rightarrow> bytes \<Rightarrow> bytes" where
  "appendLenPrefixed8 dst data = appendUint8 dst (of_nat (length data)) @ data"

definition appendLenPrefixed16 :: "bytes \<Rightarrow> bytes \<Rightarrow> bytes" where
  "appendLenPrefixed16 dst data = appendUint16 dst (of_nat (length data)) @ data"

lemma appendUint16_put16 [simp]: "appendUint16 dst v = dst @ put16 v"
  by (simp add: appendUint16_def put16_def)

lemma appendUint24_put24 [simp]: "appendUint24 dst v = dst @ put24 v"
  by (simp add: appendUint24_def put24_def)

lemma appendUint8_snoc [simp]: "appendUint8 dst v = dst @ [v]"
  by (simp add: appendUint8_def)

lemma appendLenPrefixed8_eq [simp]:
  "appendLenPrefixed8 dst d = dst @ of_nat (length d) # d"
  by (simp add: appendLenPrefixed8_def)

lemma appendLenPrefixed16_eq [simp]:
  "appendLenPrefixed16 dst d = dst @ put16 (of_nat (length d)) @ d"
  by (simp add: appendLenPrefixed16_def)

section \<open>Round trips\<close>

lemma readUint8_Cons [wire_simps]: "readUint8 (x # r) = Inr (x, r)"
  by (simp add: readUint8_def)

lemma readUint16_put [wire_simps]: "readUint16 (put16 v @ r) = Inr (v, r)"
  by (simp add: readUint16_def put16_def)

lemma readBytes_append [wire_simps]: "length b = n \<Longrightarrow> readBytes (b @ r) n = Inr (b, r)"
  by (simp add: readBytes_def)

lemma readLenPrefixed8_put [wire_simps]:
  "length d < 256 \<Longrightarrow> readLenPrefixed8 (of_nat (length d) # d @ r) = Inr (d, r)"
  by (simp add: readLenPrefixed8_def)

lemma readLenPrefixed16_put [wire_simps]:
  "length d < 65536 \<Longrightarrow> readLenPrefixed16 (put16 (of_nat (length d)) @ d @ r) = Inr (d, r)"
  by (simp add: readLenPrefixed16_def put16_def)

lemma readLenPrefixed24_put [wire_simps]:
  "length d < 16777216 \<Longrightarrow> readLenPrefixed24 (put24 (of_nat (length d)) @ d @ r) = Inr (d, r)"
  by (simp add: readLenPrefixed24_def put24_def get24_put24)

lemmas readLenPrefixed8_put_nil [wire_simps] = readLenPrefixed8_put [where r = "[]", simplified]
lemmas readLenPrefixed16_put_nil [wire_simps] = readLenPrefixed16_put [where r = "[]", simplified]
lemmas readLenPrefixed24_put_nil [wire_simps] = readLenPrefixed24_put [where r = "[]", simplified]

section \<open>Inversion: what a successful read consumed\<close>

lemma readUint8_Inr: "readUint8 b = Inr (v, r) \<Longrightarrow> b = v # r"
  by (cases b) (auto simp: readUint8_def split: if_splits)

lemma split2: "2 \<le> length b \<Longrightarrow> b = b ! 0 # b ! 1 # drop 2 b"
  by (cases b; cases "tl b") auto

lemma split3: "3 \<le> length b \<Longrightarrow> b = b ! 0 # b ! 1 # b ! 2 # drop 3 b"
  by (cases b; cases "tl b"; cases "tl (tl b)") auto

lemma readUint16_Inr: "readUint16 b = Inr (v, r) \<Longrightarrow> b = put16 v @ r"
  using split2 [of b] by (auto simp: readUint16_def put16_get16 split: if_splits)

lemma readBytes_Inr: "readBytes b n = Inr (d, r) \<Longrightarrow> b = d @ r \<and> length d = n"
  by (auto simp: readBytes_def split: if_splits)

lemma readLenPrefixed8_Inr:
  "readLenPrefixed8 b = Inr (d, r) \<Longrightarrow> b = of_nat (length d) # d @ r \<and> length d < 256"
  by (cases b) (auto simp: readLenPrefixed8_def Let_def split: if_splits)

lemma readLenPrefixed16_Inr:
  assumes "readLenPrefixed16 b = Inr (d, r)"
  shows "b = put16 (of_nat (length d)) @ d @ r \<and> length d < 65536"
proof -
  let ?v = "get16 (b ! 0) (b ! 1)"
  from assms have len: "2 \<le> length b" and d: "d = take (unat ?v) (drop 2 b)"
    and r: "r = drop (unat ?v) (drop 2 b)" and le: "unat ?v \<le> length (drop 2 b)"
    by (auto simp: readLenPrefixed16_def Let_def split: if_splits)
  from d le have ld: "length d = unat ?v" by simp
  have "b = put16 ?v @ drop 2 b"
    using split2 [OF len] by (simp add: put16_get16)
  also have "drop 2 b = d @ r"
    using d r by (metis append_take_drop_id)
  finally show ?thesis using ld by simp
qed

lemma put24_get24: "put24 (get24 a b c) = [a, b, c]"
proof -
  have lt: "unat a < 256" "unat b < 256" "unat c < 256" by simp_all
  have "unat b * 256 + unat c < 65536" using lt by linarith
  then have "(unat b * 256 + unat c + unat a * 65536) div 65536 = unat a"
    by (subst div_mult_self1) simp_all
  then have "(unat a * 65536 + unat b * 256 + unat c) div 2 ^ 16 = unat a"
    by (simp add: ac_simps)
  then have "unat (ucast (drop_bit 16 (get24 a b c)) :: byte) = unat a"
    using lt by (simp only: put24_nth unat_get24) simp
  moreover have "unat (ucast (drop_bit 8 (get24 a b c)) :: byte) = unat b"
  proof -
    have "(unat c + (unat a * 256 + unat b) * 256) div 256 = unat a * 256 + unat b"
      using lt(3) by (subst div_mult_self1) simp_all
    then have "(unat a * 65536 + unat b * 256 + unat c) div 2 ^ 8 = unat a * 256 + unat b"
      by (simp add: algebra_simps)
    with lt(2) show ?thesis by (simp only: put24_nth unat_get24) simp
  qed
  moreover have "unat (ucast (get24 a b c) :: byte) = unat c"
  proof -
    have "unat (ucast (get24 a b c) :: byte)
      = (unat a * 65536 + unat b * 256 + unat c) mod 256"
      by (simp only: unsigned_ucast_eq unat_get24) (simp add: take_bit_eq_mod)
    also have "\<dots> = ((unat a * 256 + unat b) * 256 + unat c) mod 256"
      by (simp add: algebra_simps)
    also have "\<dots> = unat c"
      using lt(3) by (simp only: mod_mult_self3) simp
    finally show ?thesis .
  qed
  ultimately show ?thesis by (simp only: put24_def word_unat_eq_iff list.inject simp_thms)
qed

lemma readLenPrefixed24_Inr:
  assumes "readLenPrefixed24 b = Inr (d, r)"
  shows "b = put24 (of_nat (length d)) @ d @ r \<and> length d < 16777216"
proof -
  let ?v = "get24 (b ! 0) (b ! 1) (b ! 2)"
  from assms have len: "3 \<le> length b" and d: "d = take (unat ?v) (drop 3 b)"
    and r: "r = drop (unat ?v) (drop 3 b)" and le: "unat ?v \<le> length (drop 3 b)"
    by (auto simp: readLenPrefixed24_def Let_def split: if_splits)
  from d le have ld: "length d = unat ?v" by simp
  have "b = put24 ?v @ drop 3 b"
    using split3 [OF len] by (simp add: put24_get24)
  also have "drop 3 b = d @ r"
    using d r by (metis append_take_drop_id)
  finally show ?thesis using ld unat_get24_lt by simp
qed

lemma readLenPrefixed16_shrinks:
  "readLenPrefixed16 b = Inr (d, r) \<Longrightarrow> length r < length b"
  using readLenPrefixed16_Inr [of b d r] by auto

lemma readLenPrefixed24_shrinks:
  "readLenPrefixed24 b = Inr (d, r) \<Longrightarrow> length r < length b"
  using readLenPrefixed24_Inr [of b d r] by auto

section \<open>Lists of two-byte items\<close>

lemma foldl_append_concat: "foldl (\<lambda>out x. out @ h x) a xs = a @ concat (map h xs)"
  by (induction xs arbitrary: a) auto

lemma foldl_appendUint16: "foldl appendUint16 a xs = a @ concat (map put16 xs)"
  by (induction xs arbitrary: a) auto

lemma concat_pairs_length [simp]: "length (concat (map (\<lambda>x. [f x, g x]) xs)) = 2 * length xs"
  by (induction xs) auto

lemma concat_put16_length [simp]: "length (concat (map put16 xs)) = 2 * length xs"
  by (induction xs) auto

lemma concat_pairs_nth:
  assumes "i < length xs"
  shows "concat (map (\<lambda>x. [f x, g x]) xs) ! (2 * i) = f (xs ! i)"
    and "concat (map (\<lambda>x. [f x, g x]) xs) ! (2 * i + 1) = g (xs ! i)"
proof -
  have "concat (map (\<lambda>x. [f x, g x]) xs) ! (2 * i) = f (xs ! i) \<and>
        concat (map (\<lambda>x. [f x, g x]) xs) ! (2 * i + 1) = g (xs ! i)"
    using assms
  proof (induction xs arbitrary: i)
    case (Cons x xs)
    then show ?case by (cases i) auto
  qed simp
  then show "concat (map (\<lambda>x. [f x, g x]) xs) ! (2 * i) = f (xs ! i)"
    and "concat (map (\<lambda>x. [f x, g x]) xs) ! (2 * i + 1) = g (xs ! i)" by auto
qed

lemma map_nth_pairs:
  assumes "\<And>x. x \<in> set xs \<Longrightarrow> k (f x) (g x) = x"
  shows "map (\<lambda>i. k (concat (map (\<lambda>x. [f x, g x]) xs) ! (2 * i))
                   (concat (map (\<lambda>x. [f x, g x]) xs) ! (2 * i + 1))) [0..<length xs] = xs"
  using assms by (intro nth_equalityI) (auto simp: concat_pairs_nth simp del: mult_Suc_right One_nat_def)

lemma map_get16_put16:
  "map (\<lambda>i. get16 (concat (map put16 xs) ! (2 * i)) (concat (map put16 xs) ! (2 * i + 1)))
     [0..<length xs] = xs"
proof -
  have eq: "put16 = (\<lambda>x. [ucast (drop_bit 8 x), ucast x])"
    by (simp add: put16_def fun_eq_iff)
  show ?thesis
    unfolding eq by (rule map_nth_pairs) simp
qed

end
