(* ===== verification/Extensions.thy ===== *)
theory Extensions
  imports Wire
begin

text \<open>
  \<open>internal/handshake/extensions.go\<close>: the hello extensions, their parsers and their
  serialisers.  The parsing loop keeps the source's accumulators (the decoded fields and the
  list of types seen).  Shown: what the serialiser writes parses back to the same fields, and
  an accepted extension list is a concatenation of well-framed extensions of pairwise distinct
  recognised types.
\<close>

section \<open>Constants and data\<close>

definition extServerName :: u16 where "extServerName = 0x0000"
definition extSupportedGroups :: u16 where "extSupportedGroups = 0x000A"
definition extECPointFormats :: u16 where "extECPointFormats = 0x000B"
definition extSignatureAlgorithms :: u16 where "extSignatureAlgorithms = 0x000D"
definition extExtendedMasterSecret :: u16 where "extExtendedMasterSecret = 0x0017"
definition extRenegotiationInfo :: u16 where "extRenegotiationInfo = 0xFF01"

lemmas ext_type_defs = extServerName_def extSupportedGroups_def extECPointFormats_def
  extSignatureAlgorithms_def extExtendedMasterSecret_def extRenegotiationInfo_def

definition sniMinEntry :: nat where "sniMinEntry = 3"
definition extHeaderSize :: nat where "extHeaderSize = 4"
definition sniHostNameType :: byte where "sniHostNameType = 0"
definition pairSize :: nat where "pairSize = 2"

lemmas ext_size_defs [termination_simp] = sniMinEntry_def extHeaderSize_def sniHostNameType_def pairSize_def

record SigAndHash =
  sah_Hash :: byte
  sah_Sig :: byte

record parsedExtensions =
  pe_ServerName :: bytes
  pe_SupportedGroups :: "u16 list"
  pe_ECPointFormats :: bytes
  pe_SignatureAlgorithms :: "SigAndHash list"
  pe_ExtendedMasterSecret :: bool
  pe_RenegotiationInfo :: bool

definition noExtensions :: parsedExtensions where
  "noExtensions = \<lparr>pe_ServerName = [], pe_SupportedGroups = [], pe_ECPointFormats = [],
     pe_SignatureAlgorithms = [], pe_ExtendedMasterSecret = False, pe_RenegotiationInfo = False\<rparr>"

section \<open>Extension bodies\<close>

fun parseServerName_loop :: "bytes \<Rightarrow> bytes \<Rightarrow> bytes res" where
  "parseServerName_loop hostName list =
     (if length list = 0 then Inr hostName
      else if length list < sniMinEntry then Inl (Sentinel ''errSNITruncatedEntry'')
      else
        let nameType = list ! 0;
            nameLen = unat (get16 (list ! 1) (list ! 2));
            list' = drop sniMinEntry list
        in if length list' < nameLen then Inl (Sentinel ''errSNINameLenExceeds'')
           else if nameType \<noteq> sniHostNameType then Inl (Sentinel ''errSNIUnsupportedNameType'')
           else parseServerName_loop (take nameLen list') (drop nameLen list'))"

declare parseServerName_loop.simps [simp del]

definition parseServerName :: "bytes \<Rightarrow> bytes res" where
  "parseServerName b =
     (if length b = 0 then Inr []
      else if length b < 2 then Inl (Sentinel ''errSNITruncatedListLen'')
      else
        let listLen = unat (get16 (b ! 0) (b ! 1)); b' = drop 2 b
        in if length b' < listLen then Inl (Sentinel ''errSNIListLenExceeds'')
           else parseServerName_loop [] (take listLen b'))"

definition marshalServerName :: "bytes \<Rightarrow> bytes" where
  "marshalServerName name =
     (let entryLen = sniMinEntry + length name;
          out = appendUint16 [] (of_nat entryLen);
          out = appendUint8 out sniHostNameType;
          out = appendUint16 out (of_nat (length name))
      in out @ name)"

definition parseSupportedGroups :: "bytes \<Rightarrow> u16 list res" where
  "parseSupportedGroups b =
     (if length b < 2 then Inl (Sentinel ''errSGTruncatedListLen'')
      else
        let listLen = unat (get16 (b ! 0) (b ! 1)); b' = drop 2 b
        in if length b' < listLen then Inl (Sentinel ''errSGListLenExceeds'')
           else if listLen mod 2 \<noteq> 0 then Inl (Sentinel ''errSGOddListLen'')
           else let list = take listLen b'
             in Inr (map (\<lambda>i. get16 (list ! (pairSize * i)) (list ! (pairSize * i + 1)))
                       [0..<listLen div pairSize]))"

definition marshalSupportedGroups :: "u16 list \<Rightarrow> bytes" where
  "marshalSupportedGroups groups =
     foldl appendUint16 (appendUint16 [] (of_nat (pairSize * length groups))) groups"

definition parseECPointFormats :: "bytes \<Rightarrow> bytes res" where
  "parseECPointFormats b =
     (if length b < 1 then Inl (Sentinel ''errEPFTruncatedListLen'')
      else
        let listLen = unat (b ! 0); b' = drop 1 b
        in if length b' < listLen then Inl (Sentinel ''errEPFListLenExceeds'')
           else Inr (take listLen b'))"

definition marshalECPointFormats :: "bytes \<Rightarrow> bytes" where
  "marshalECPointFormats formats = appendUint8 [] (of_nat (length formats)) @ formats"

definition parseSignatureAlgorithms :: "bytes \<Rightarrow> SigAndHash list res" where
  "parseSignatureAlgorithms b =
     (if length b < 2 then Inl (Sentinel ''errSATruncatedListLen'')
      else
        let listLen = unat (get16 (b ! 0) (b ! 1)); b' = drop 2 b
        in if length b' < listLen then Inl (Sentinel ''errSAListLenExceeds'')
           else if listLen mod 2 \<noteq> 0 then Inl (Sentinel ''errSAOddListLen'')
           else let list = take listLen b'
             in Inr (map (\<lambda>i. \<lparr>sah_Hash = list ! (pairSize * i), sah_Sig = list ! (pairSize * i + 1)\<rparr>)
                       [0..<listLen div pairSize]))"

definition marshalSignatureAlgorithms :: "SigAndHash list \<Rightarrow> bytes" where
  "marshalSignatureAlgorithms pairs =
     foldl (\<lambda>out p. appendUint8 (appendUint8 out (sah_Hash p)) (sah_Sig p))
       (appendUint16 [] (of_nat (pairSize * length pairs))) pairs"

definition parseExtendedMasterSecret :: "bytes \<Rightarrow> unit res" where
  "parseExtendedMasterSecret b =
     (if length b \<noteq> 0 then Inl (Sentinel ''errEMSNonEmptyBody'') else Inr ())"

definition parseRenegotiationInfo :: "bytes \<Rightarrow> unit res" where
  "parseRenegotiationInfo b =
     (if length b < 1 then Inl (Sentinel ''errRITruncatedBody'')
      else
        let riLen = unat (b ! 0); b' = drop 1 b
        in if length b' < riLen then Inl (Sentinel ''errRIDeclaredLenExceeds'')
           else if riLen \<noteq> 0 then Inl (Sentinel ''errRINonEmpty'')
           else if length b' \<noteq> riLen then Inl (Sentinel ''errRITrailingBytes'')
           else Inr ())"

section \<open>The extension list\<close>

text \<open>The \<open>switch\<close> of \<open>parseExtensions\<close>.\<close>

definition parseExtensionBody :: "parsedExtensions \<Rightarrow> u16 \<Rightarrow> bytes \<Rightarrow> parsedExtensions res" where
  "parseExtensionBody out extType extBody =
     (if extType = extServerName then
        bindR (parseServerName extBody) (\<lambda>v. Inr (out\<lparr>pe_ServerName := v\<rparr>))
      else if extType = extSupportedGroups then
        bindR (parseSupportedGroups extBody) (\<lambda>v. Inr (out\<lparr>pe_SupportedGroups := v\<rparr>))
      else if extType = extECPointFormats then
        bindR (parseECPointFormats extBody) (\<lambda>v. Inr (out\<lparr>pe_ECPointFormats := v\<rparr>))
      else if extType = extSignatureAlgorithms then
        bindR (parseSignatureAlgorithms extBody) (\<lambda>v. Inr (out\<lparr>pe_SignatureAlgorithms := v\<rparr>))
      else if extType = extExtendedMasterSecret then
        bindR (parseExtendedMasterSecret extBody) (\<lambda>_. Inr (out\<lparr>pe_ExtendedMasterSecret := True\<rparr>))
      else if extType = extRenegotiationInfo then
        bindR (parseRenegotiationInfo extBody) (\<lambda>_. Inr (out\<lparr>pe_RenegotiationInfo := True\<rparr>))
      else Inl (Sentinel ''errExtUnknown''))"

fun parseExtensions_loop ::
  "parsedExtensions \<Rightarrow> u16 list \<Rightarrow> bytes \<Rightarrow> (parsedExtensions \<times> u16 list) res" where
  "parseExtensions_loop out seen extData =
     (if length extData = 0 then Inr (out, seen)
      else if length extData < extHeaderSize then Inl (Sentinel ''errExtHeaderTruncated'')
      else
        let extType = get16 (extData ! 0) (extData ! 1);
            extLen = unat (get16 (extData ! 2) (extData ! 3))
        in if extType \<in> set seen then Inl (Sentinel ''errDuplicateExtension'')
           else let extData' = drop extHeaderSize extData
             in if length extData' < extLen then Inl (Sentinel ''errExtBodyTruncated'')
                else bindR (parseExtensionBody out extType (take extLen extData'))
                       (\<lambda>out'. parseExtensions_loop out' (seen @ [extType]) (drop extLen extData')))"

declare parseExtensions_loop.simps [simp del]

definition parseExtensions :: "bytes \<Rightarrow> (parsedExtensions \<times> u16 list) res" where
  "parseExtensions extData = parseExtensions_loop noExtensions [] extData"

definition appendExtension :: "bytes \<Rightarrow> u16 \<Rightarrow> bytes \<Rightarrow> bytes" where
  "appendExtension dst extType body =
     (let dst = appendUint16 dst extType;
          dst = appendUint16 dst (of_nat (length body))
      in dst @ body)"

definition marshalExtensions :: "parsedExtensions \<Rightarrow> bytes" where
  "marshalExtensions ext =
     (let extBytes = [];
          extBytes = (if pe_ServerName ext \<noteq> []
            then appendExtension extBytes extServerName (marshalServerName (pe_ServerName ext))
            else extBytes);
          extBytes = (if length (pe_SupportedGroups ext) > 0
            then appendExtension extBytes extSupportedGroups
                   (marshalSupportedGroups (pe_SupportedGroups ext))
            else extBytes);
          extBytes = (if length (pe_ECPointFormats ext) > 0
            then appendExtension extBytes extECPointFormats
                   (marshalECPointFormats (pe_ECPointFormats ext))
            else extBytes);
          extBytes = (if length (pe_SignatureAlgorithms ext) > 0
            then appendExtension extBytes extSignatureAlgorithms
                   (marshalSignatureAlgorithms (pe_SignatureAlgorithms ext))
            else extBytes);
          extBytes = (if pe_ExtendedMasterSecret ext
            then appendExtension extBytes extExtendedMasterSecret [] else extBytes);
          extBytes = (if pe_RenegotiationInfo ext
            then appendExtension extBytes extRenegotiationInfo [0] else extBytes)
      in if length extBytes = 0 then []
         else appendUint16 [] (of_nat (length extBytes)) @ extBytes)"

section \<open>Bodies round trip\<close>

lemma parseServerName_marshal:
  assumes "length n + 3 < 65536"
  shows "parseServerName (marshalServerName n) = Inr n"
proof -
  have m: "marshalServerName n = put16 (of_nat (length n + 3)) @ 0 # put16 (of_nat (length n)) @ n"
    by (simp add: marshalServerName_def ext_size_defs add.commute)
  have "parseServerName_loop [] (0 # put16 (of_nat (length n)) @ n) = Inr n"
    using assms
    by (subst parseServerName_loop.simps) (simp add: put16_def ext_size_defs parseServerName_loop.simps)
  moreover have "unat (of_nat (length n + 3) :: u16) = length n + 3"
    using assms by (intro unat_of_nat_u16) simp
  ultimately show ?thesis
    unfolding m parseServerName_def
    by (simp add: put16_def Let_def del: of_nat_add)
qed

lemma parseSupportedGroups_marshal:
  assumes "2 * length gs < 65536"
  shows "parseSupportedGroups (marshalSupportedGroups gs) = Inr gs"
proof -
  have "unat (of_nat (2 * length gs) :: u16) = 2 * length gs"
    using assms by (intro unat_of_nat_u16) simp
  moreover have "marshalSupportedGroups gs = put16 (of_nat (2 * length gs)) @ concat (map put16 gs)"
    by (simp add: marshalSupportedGroups_def foldl_appendUint16 ext_size_defs)
  ultimately show ?thesis
    using map_get16_put16 [of gs]
    by (simp add: parseSupportedGroups_def put16_def [of "of_nat _"] Let_def ext_size_defs
        del: of_nat_mult)
qed

lemma parseECPointFormats_marshal:
  "length fs < 256 \<Longrightarrow> parseECPointFormats (marshalECPointFormats fs) = Inr fs"
  by (simp add: parseECPointFormats_def marshalECPointFormats_def)

lemma parseSignatureAlgorithms_marshal:
  assumes "2 * length ps < 65536"
  shows "parseSignatureAlgorithms (marshalSignatureAlgorithms ps) = Inr ps"
proof -
  have "unat (of_nat (2 * length ps) :: u16) = 2 * length ps"
    using assms by (intro unat_of_nat_u16) simp
  moreover have "marshalSignatureAlgorithms ps =
      put16 (of_nat (2 * length ps)) @ concat (map (\<lambda>p. [sah_Hash p, sah_Sig p]) ps)"
    using foldl_append_concat [of "\<lambda>p. [sah_Hash p, sah_Sig p]" "put16 (of_nat (2 * length ps))" ps]
    by (simp add: marshalSignatureAlgorithms_def ext_size_defs)
  ultimately show ?thesis
    using map_nth_pairs [of ps "\<lambda>h s. \<lparr>sah_Hash = h, sah_Sig = s\<rparr>" sah_Hash sah_Sig]
    by (simp add: parseSignatureAlgorithms_def put16_def [of "of_nat _"] Let_def ext_size_defs
        del: of_nat_mult)
qed

section \<open>Framing\<close>

text \<open>An extension list as the sequence of its \<open>(type, body)\<close> entries.\<close>

type_synonym entries = "(u16 \<times> bytes) list"

definition frame :: "entries \<Rightarrow> bytes" where
  "frame es = concat (map (\<lambda>(t, b). appendExtension [] t b) es)"

fun parse_entries :: "parsedExtensions \<Rightarrow> u16 list \<Rightarrow> entries \<Rightarrow> (parsedExtensions \<times> u16 list) res" where
  "parse_entries out seen [] = Inr (out, seen)"
| "parse_entries out seen ((t, b) # es) =
     (if t \<in> set seen then Inl (Sentinel ''errDuplicateExtension'')
      else bindR (parseExtensionBody out t b) (\<lambda>out'. parse_entries out' (seen @ [t]) es))"

lemma appendExtension_eq:
  "appendExtension dst t b = dst @ put16 t @ put16 (of_nat (length b)) @ b"
  by (simp add: appendExtension_def)

lemma frame_Nil [simp]: "frame [] = []"
  and frame_Cons [simp]: "frame ((t, b) # es) = put16 t @ put16 (of_nat (length b)) @ b @ frame es"
  and frame_append [simp]: "frame (es @ es') = frame es @ frame es'"
  by (simp_all add: frame_def appendExtension_eq)

lemma parseExtensions_loop_frame:
  assumes "\<forall>(t, b) \<in> set es. length b < 65536"
  shows "parseExtensions_loop out seen (frame es) = parse_entries out seen es"
  using assms
proof (induction es arbitrary: out seen)
  case Nil
  then show ?case by (simp add: parseExtensions_loop.simps)
next
  case (Cons e es)
  obtain t b where e: "e = (t, b)" by (cases e)
  have "length b < 65536" using Cons.prems e by auto
  then have "parseExtensions_loop out seen (frame ((t, b) # es)) =
      (if t \<in> set seen then Inl (Sentinel ''errDuplicateExtension'')
       else bindR (parseExtensionBody out t b) (\<lambda>out'. parseExtensions_loop out' (seen @ [t]) (frame es)))"
    by (subst parseExtensions_loop.simps) (simp add: put16_def ext_size_defs)
  then show ?case using Cons e by simp
qed

lemma parseExtensions_loop_is_framed:
  assumes "parseExtensions_loop out seen d = Inr (out', seen')"
  shows "\<exists>es. d = frame es \<and> (\<forall>(t, b) \<in> set es. length b < 65536)"
  using assms
proof (induction "length d" arbitrary: out seen d rule: less_induct)
  case less
  show ?case
  proof (cases "d = []")
    case True
    then show ?thesis by (intro exI [of _ "[]"]) simp
  next
    case False
    let ?t = "get16 (d ! 0) (d ! 1)" and ?n = "get16 (d ! 2) (d ! 3)"
    let ?b = "take (unat ?n) (drop 4 d)" and ?r = "drop (unat ?n) (drop 4 d)"
    from less.prems False obtain o1 where len: "4 \<le> length d" "unat ?n \<le> length (drop 4 d)"
      and rest: "parseExtensions_loop o1 (seen @ [?t]) ?r = Inr (out', seen')"
      by (subst (asm) parseExtensions_loop.simps)
         (auto simp: Let_def ext_size_defs bindR_eq_Inr split: if_splits)
    have lt: "length ?r < length d" using len(1) by (simp add: diff_less)
    obtain es where es: "?r = frame es" "\<forall>(t, b) \<in> set es. length b < 65536"
      using less.hyps [OF lt rest] by blast
    have "d = [d ! 0, d ! 1] @ [d ! 2, d ! 3] @ drop 4 d"
      using len(1) split2 [of d] split2 [of "drop 2 d"] by (simp add: numeral_eq_Suc)
    also have "\<dots> = put16 ?t @ put16 ?n @ ?b @ ?r"
      by (simp only: put16_get16 append_take_drop_id)
    also have "\<dots> = frame ((?t, ?b) # es)"
      using len es(1) by simp
    finally show ?thesis
      using es(2) len by (intro exI [of _ "(?t, ?b) # es"]) auto
  qed
qed

section \<open>What an accepted list contains\<close>

definition knownExtensions :: "u16 list" where
  "knownExtensions = [extServerName, extSupportedGroups, extECPointFormats,
     extSignatureAlgorithms, extExtendedMasterSecret, extRenegotiationInfo]"

lemma parseExtensionBody_Inr:
  assumes "parseExtensionBody out t b = Inr out'"
  shows "t \<in> set knownExtensions"
    and "pe_ExtendedMasterSecret out' \<longleftrightarrow> pe_ExtendedMasterSecret out \<or> t = extExtendedMasterSecret"
    and "pe_RenegotiationInfo out' \<longleftrightarrow> pe_RenegotiationInfo out \<or> t = extRenegotiationInfo"
    and "t \<noteq> extServerName \<Longrightarrow> pe_ServerName out' = pe_ServerName out"
  using assms
  by (auto simp: parseExtensionBody_def knownExtensions_def bindR_eq_Inr ext_type_defs split: if_splits)

lemma parse_entries_Inr:
  assumes "parse_entries out seen es = Inr (out', seen')" "distinct seen"
  shows "seen' = seen @ map fst es \<and> distinct seen' \<and> fst ` set es \<subseteq> set knownExtensions
    \<and> (pe_ExtendedMasterSecret out' \<longleftrightarrow>
         pe_ExtendedMasterSecret out \<or> extExtendedMasterSecret \<in> fst ` set es)
    \<and> (pe_RenegotiationInfo out' \<longleftrightarrow>
         pe_RenegotiationInfo out \<or> extRenegotiationInfo \<in> fst ` set es)
    \<and> (pe_ServerName out' \<noteq> pe_ServerName out \<longrightarrow> extServerName \<in> fst ` set es)"
  using assms
proof (induction out seen es rule: parse_entries.induct)
  case (2 out seen t b es)
  from 2(2) obtain o1 where t: "t \<notin> set seen" and body: "parseExtensionBody out t b = Inr o1"
    and rest: "parse_entries o1 (seen @ [t]) es = Inr (out', seen')"
    by (auto simp: bindR_eq_Inr split: if_splits)
  have d: "distinct (seen @ [t])" using 2(3) t by simp
  note ih = 2(1) [OF t body rest d]
  note b = parseExtensionBody_Inr [OF body]
  have set: "fst ` set ((t, b) # es) = insert t (fst ` set es)" by simp
  show ?case
  proof (intro conjI)
    show "seen' = seen @ map fst ((t, b) # es)" using ih by simp
    show "distinct seen'" using ih by blast
    show "fst ` set ((t, b) # es) \<subseteq> set knownExtensions" using ih b(1) by simp
    show "pe_ExtendedMasterSecret out' \<longleftrightarrow> pe_ExtendedMasterSecret out
        \<or> extExtendedMasterSecret \<in> fst ` set ((t, b) # es)"
      unfolding set insert_iff using ih b(2) by blast
    show "pe_RenegotiationInfo out' \<longleftrightarrow> pe_RenegotiationInfo out
        \<or> extRenegotiationInfo \<in> fst ` set ((t, b) # es)"
      unfolding set insert_iff using ih b(3) by blast
    show "pe_ServerName out' \<noteq> pe_ServerName out \<longrightarrow> extServerName \<in> fst ` set ((t, b) # es)"
      unfolding set insert_iff using ih b(4) by (cases "t = extServerName") simp_all
  qed
qed auto

text \<open>The entries the serialiser emits, in its order.\<close>

definition ext_entries :: "parsedExtensions \<Rightarrow> entries" where
  "ext_entries ext =
     (if pe_ServerName ext \<noteq> [] then [(extServerName, marshalServerName (pe_ServerName ext))] else [])
   @ (if pe_SupportedGroups ext \<noteq> []
      then [(extSupportedGroups, marshalSupportedGroups (pe_SupportedGroups ext))] else [])
   @ (if pe_ECPointFormats ext \<noteq> []
      then [(extECPointFormats, marshalECPointFormats (pe_ECPointFormats ext))] else [])
   @ (if pe_SignatureAlgorithms ext \<noteq> []
      then [(extSignatureAlgorithms, marshalSignatureAlgorithms (pe_SignatureAlgorithms ext))] else [])
   @ (if pe_ExtendedMasterSecret ext then [(extExtendedMasterSecret, [])] else [])
   @ (if pe_RenegotiationInfo ext then [(extRenegotiationInfo, [0])] else [])"

lemma marshalExtensions_frame:
  "marshalExtensions ext =
     (if frame (ext_entries ext) = [] then []
      else put16 (of_nat (length (frame (ext_entries ext)))) @ frame (ext_entries ext))"
proof -
  have step: "(if c then appendExtension e t b else e) = e @ frame (if c then [(t, b)] else [])"
    for c e t b
    by (simp add: appendExtension_eq)
  show ?thesis
    unfolding marshalExtensions_def Let_def step ext_entries_def frame_append
    by (simp only: append_Nil append_assoc length_greater_0_conv length_0_conv appendUint16_put16)
qed

definition ext_fits :: "parsedExtensions \<Rightarrow> bool" where
  "ext_fits ext \<longleftrightarrow> length (pe_ECPointFormats ext) < 256
     \<and> length (frame (ext_entries ext)) < 65536"

lemma frame_entry_le: "(t, b) \<in> set es \<Longrightarrow> length b + 4 \<le> length (frame es)"
  by (induction es) auto

lemma ext_fits_bodies:
  assumes "ext_fits ext"
  shows "\<forall>(t, b) \<in> set (ext_entries ext). length b < 65536"
  using assms frame_entry_le [of _ _ "ext_entries ext"] by (fastforce simp: ext_fits_def)

lemma length_marshal_bodies:
  "length (marshalServerName n) = length n + 5"
  "length (marshalSupportedGroups gs) = 2 * length gs + 2"
  "length (marshalSignatureAlgorithms ps) = 2 * length ps + 2"
proof -
  show "length (marshalSignatureAlgorithms ps) = 2 * length ps + 2"
    using foldl_append_concat
      [of "\<lambda>p. [sah_Hash p, sah_Sig p]" "put16 (of_nat (2 * length ps))" ps]
    by (simp add: marshalSignatureAlgorithms_def ext_size_defs)
qed (simp_all add: marshalServerName_def marshalSupportedGroups_def foldl_appendUint16 Let_def)

lemma ext_fits_bounds:
  assumes "ext_fits ext"
  shows "length (pe_ServerName ext) + 3 < 65536" "2 * length (pe_SupportedGroups ext) < 65536"
    "2 * length (pe_SignatureAlgorithms ext) < 65536"
proof -
  have b: "length b + 4 < 65536" if "(t, b) \<in> set (ext_entries ext)" for t b
    using assms frame_entry_le [OF that] by (simp add: ext_fits_def)
  have "(extServerName, marshalServerName (pe_ServerName ext)) \<in> set (ext_entries ext)"
    if "pe_ServerName ext \<noteq> []" using that by (simp add: ext_entries_def)
  then show "length (pe_ServerName ext) + 3 < 65536"
    using b by (cases "pe_ServerName ext = []") (fastforce simp: length_marshal_bodies)+
  have "(extSupportedGroups, marshalSupportedGroups (pe_SupportedGroups ext)) \<in> set (ext_entries ext)"
    if "pe_SupportedGroups ext \<noteq> []" using that by (simp add: ext_entries_def)
  then show "2 * length (pe_SupportedGroups ext) < 65536"
    using b by (cases "pe_SupportedGroups ext = []") (fastforce simp: length_marshal_bodies)+
  have "(extSignatureAlgorithms, marshalSignatureAlgorithms (pe_SignatureAlgorithms ext))
      \<in> set (ext_entries ext)"
    if "pe_SignatureAlgorithms ext \<noteq> []" using that by (simp add: ext_entries_def)
  then show "2 * length (pe_SignatureAlgorithms ext) < 65536"
    using b by (cases "pe_SignatureAlgorithms ext = []") (fastforce simp: length_marshal_bodies)+
qed

lemma parseExtensionBody_marshal:
  assumes "ext_fits ext"
  shows "parseExtensionBody out extServerName (marshalServerName (pe_ServerName ext))
       = Inr (out\<lparr>pe_ServerName := pe_ServerName ext\<rparr>)"
    "parseExtensionBody out extSupportedGroups (marshalSupportedGroups (pe_SupportedGroups ext))
       = Inr (out\<lparr>pe_SupportedGroups := pe_SupportedGroups ext\<rparr>)"
    "parseExtensionBody out extECPointFormats (marshalECPointFormats (pe_ECPointFormats ext))
       = Inr (out\<lparr>pe_ECPointFormats := pe_ECPointFormats ext\<rparr>)"
    "parseExtensionBody out extSignatureAlgorithms
         (marshalSignatureAlgorithms (pe_SignatureAlgorithms ext))
       = Inr (out\<lparr>pe_SignatureAlgorithms := pe_SignatureAlgorithms ext\<rparr>)"
    "parseExtensionBody out extExtendedMasterSecret [] = Inr (out\<lparr>pe_ExtendedMasterSecret := True\<rparr>)"
    "parseExtensionBody out extRenegotiationInfo [0] = Inr (out\<lparr>pe_RenegotiationInfo := True\<rparr>)"
  using assms ext_fits_bounds [OF assms]
  by (simp_all add: parseExtensionBody_def ext_type_defs parseServerName_marshal
      parseSupportedGroups_marshal parseECPointFormats_marshal parseSignatureAlgorithms_marshal
      parseExtendedMasterSecret_def parseRenegotiationInfo_def ext_fits_def)

lemma ext_types_distinct:
  "distinct knownExtensions" "distinct (rev knownExtensions)"
  by (simp_all add: knownExtensions_def ext_type_defs)

lemma parse_entries_ext_entries:
  assumes "ext_fits ext"
  shows "parse_entries noExtensions [] (ext_entries ext) = Inr (ext, map fst (ext_entries ext))"
proof -
  note ne = ext_types_distinct [unfolded knownExtensions_def, simplified]
  show ?thesis
    by (cases "pe_ServerName ext = []"; cases "pe_SupportedGroups ext = []";
        cases "pe_ECPointFormats ext = []"; cases "pe_SignatureAlgorithms ext = []";
        cases "pe_ExtendedMasterSecret ext"; cases "pe_RenegotiationInfo ext";
        simp add: ext_entries_def parseExtensionBody_marshal [OF assms] noExtensions_def ne)
qed

lemma parseExtensions_marshal:
  "ext_fits ext \<Longrightarrow>
     parseExtensions (frame (ext_entries ext)) = Inr (ext, map fst (ext_entries ext))"
  by (simp add: parseExtensions_def parseExtensions_loop_frame ext_fits_bodies
      parse_entries_ext_entries)

end
