(* ===== verification/Messages.thy ===== *)
theory Messages
  imports Extensions
begin

text \<open>
  \<open>internal/handshake/messages.go\<close> and \<open>types.go\<close>: the handshake messages, their body
  parsers and serialisers, and the four-byte envelope.  A \<open>Message\<close> interface value is a
  constructor of the datatype \<open>Message\<close>.  The field \<open>Certificates\<close> of
  \<open>Certificate\<close> is never set nor read by the implementation and is left out.
\<close>

section \<open>Message types\<close>

type_synonym Type = byte

definition TypeHelloRequest :: Type where "TypeHelloRequest = 0"
definition TypeClientHello :: Type where "TypeClientHello = 1"
definition TypeServerHello :: Type where "TypeServerHello = 2"
definition TypeCertificate :: Type where "TypeCertificate = 11"
definition TypeServerKeyExchange :: Type where "TypeServerKeyExchange = 12"
definition TypeCertificateRequest :: Type where "TypeCertificateRequest = 13"
definition TypeServerHelloDone :: Type where "TypeServerHelloDone = 14"
definition TypeCertificateVerify :: Type where "TypeCertificateVerify = 15"
definition TypeClientKeyExchange :: Type where "TypeClientKeyExchange = 16"
definition TypeFinished :: Type where "TypeFinished = 20"

lemmas type_defs = TypeHelloRequest_def TypeClientHello_def TypeServerHello_def
  TypeCertificate_def TypeServerKeyExchange_def TypeCertificateRequest_def
  TypeServerHelloDone_def TypeCertificateVerify_def TypeClientKeyExchange_def TypeFinished_def

definition hsEnvelopeSize :: nat where "hsEnvelopeSize = 4"
definition tlsRandomLen :: nat where "tlsRandomLen = 32"
definition maxSessionIDLen :: nat where "maxSessionIDLen = 32"
definition certEntryOverhead :: nat where "certEntryOverhead = 3"

lemmas msg_size_defs = hsEnvelopeSize_def tlsRandomLen_def maxSessionIDLen_def certEntryOverhead_def

section \<open>ClientHello\<close>

record ClientHello =
  ch_Version :: u16
  ch_Random :: bytes
  ch_SessionID :: bytes
  ch_CipherSuites :: "u16 list"
  ch_CompressionMethods :: bytes
  ch_ServerName :: bytes
  ch_SupportedGroups :: "u16 list"
  ch_ECPointFormats :: bytes
  ch_SignatureAlgorithms :: "SigAndHash list"
  ch_ExtendedMasterSecret :: bool
  ch_RenegotiationInfo :: bool

definition ch_extensions :: "ClientHello \<Rightarrow> parsedExtensions" where
  "ch_extensions m =
     \<lparr>pe_ServerName = ch_ServerName m,
      pe_SupportedGroups = ch_SupportedGroups m,
      pe_ECPointFormats = ch_ECPointFormats m,
      pe_SignatureAlgorithms = ch_SignatureAlgorithms m,
      pe_ExtendedMasterSecret = ch_ExtendedMasterSecret m,
      pe_RenegotiationInfo = ch_RenegotiationInfo m\<rparr>"

definition ClientHello_Marshal :: "ClientHello \<Rightarrow> bytes" where
  "ClientHello_Marshal m =
     (let out = appendUint16 [] (ch_Version m);
          out = out @ ch_Random m;
          out = appendLenPrefixed8 out (ch_SessionID m);
          out = appendUint16 out (of_nat (pairSize * length (ch_CipherSuites m)));
          out = foldl appendUint16 out (ch_CipherSuites m);
          out = appendLenPrefixed8 out (ch_CompressionMethods m)
      in out @ marshalExtensions (ch_extensions m))"

definition parseClientHello :: "bytes \<Rightarrow> ClientHello res" where
  "parseClientHello b =
     bindR (readUint16 b) (\<lambda>(v, b).
     bindR (readBytes b tlsRandomLen) (\<lambda>(rawRandom, b).
     bindR (readLenPrefixed8 b) (\<lambda>(sid, b).
     guardR (length sid > maxSessionIDLen) (Sentinel ''errCHSessionIDTooLong'') (
     bindR (readLenPrefixed16 b) (\<lambda>(csBytes, b).
     guardR (length csBytes mod 2 \<noteq> 0) (Sentinel ''errCHCSOddByteCount'') (
     guardR (length csBytes < pairSize) (Sentinel ''errCHCSAtLeastOne'') (
     bindR (readLenPrefixed8 b) (\<lambda>(cm, b).
     guardR (length cm = 0) (Sentinel ''errCHCMAtLeastOne'') (
     bindR (if length b > 0 then
              bindR (readLenPrefixed16 b) (\<lambda>(extList, rest).
              guardR (length rest \<noteq> 0) (Sentinel ''errCHTrailingData'') (
              bindR (parseExtensions extList) (\<lambda>(ext, _). Inr ext)))
            else Inr noExtensions) (\<lambda>ext.
     Inr \<lparr>ch_Version = v, ch_Random = rawRandom, ch_SessionID = sid,
          ch_CipherSuites =
            map (\<lambda>i. get16 (csBytes ! (pairSize * i)) (csBytes ! (pairSize * i + 1)))
              [0..<length csBytes div pairSize],
          ch_CompressionMethods = cm,
          ch_ServerName = pe_ServerName ext,
          ch_SupportedGroups = pe_SupportedGroups ext,
          ch_ECPointFormats = pe_ECPointFormats ext,
          ch_SignatureAlgorithms = pe_SignatureAlgorithms ext,
          ch_ExtendedMasterSecret = pe_ExtendedMasterSecret ext,
          ch_RenegotiationInfo = pe_RenegotiationInfo ext\<rparr>))))))))))"

section \<open>ServerHello\<close>

record ServerHello =
  sh_Version :: u16
  sh_Random :: bytes
  sh_SessionID :: bytes
  sh_CipherSuite :: u16
  sh_CompressionMethod :: byte
  sh_ExtendedMasterSecret :: bool
  sh_RenegotiationInfo :: bool
  sh_ExtensionTypes :: "u16 list"

definition sh_extensions :: "ServerHello \<Rightarrow> parsedExtensions" where
  "sh_extensions m = noExtensions
     \<lparr>pe_ExtendedMasterSecret := sh_ExtendedMasterSecret m,
      pe_RenegotiationInfo := sh_RenegotiationInfo m\<rparr>"

definition ServerHello_Marshal :: "ServerHello \<Rightarrow> bytes" where
  "ServerHello_Marshal m =
     (let out = appendUint16 [] (sh_Version m);
          out = out @ sh_Random m;
          out = appendLenPrefixed8 out (sh_SessionID m);
          out = appendUint16 out (sh_CipherSuite m);
          out = appendUint8 out (sh_CompressionMethod m)
      in out @ marshalExtensions (sh_extensions m))"

definition parseServerHello :: "bytes \<Rightarrow> ServerHello res" where
  "parseServerHello b =
     bindR (readUint16 b) (\<lambda>(v, b).
     bindR (readBytes b tlsRandomLen) (\<lambda>(rawRandom, b).
     bindR (readLenPrefixed8 b) (\<lambda>(sid, b).
     guardR (length sid > maxSessionIDLen) (Sentinel ''errSHSessionIDTooLong'') (
     bindR (readUint16 b) (\<lambda>(cs, b).
     bindR (readUint8 b) (\<lambda>(cm, b).
     bindR (if length b > 0 then
              bindR (readLenPrefixed16 b) (\<lambda>(extList, rest).
              guardR (length rest \<noteq> 0) (Sentinel ''errSHTrailingData'') (
              bindR (parseExtensions extList) (\<lambda>(ext, seen).
              guardR (pe_ServerName ext \<noteq> []) (Sentinel ''errServerHelloNonEmptySNI'')
                (Inr (ext, seen)))))
            else Inr (noExtensions, [])) (\<lambda>(ext, seen).
     Inr \<lparr>sh_Version = v, sh_Random = rawRandom, sh_SessionID = sid,
          sh_CipherSuite = cs, sh_CompressionMethod = cm,
          sh_ExtendedMasterSecret = pe_ExtendedMasterSecret ext,
          sh_RenegotiationInfo = pe_RenegotiationInfo ext,
          sh_ExtensionTypes = seen\<rparr>)))))))"

section \<open>Certificate\<close>

record Certificate =
  cert_RawCerts :: "bytes list"

definition Certificate_Marshal :: "Certificate \<Rightarrow> bytes" where
  "Certificate_Marshal m =
     (let innerLen = foldl (\<lambda>n c. n + (certEntryOverhead + length c)) 0 (cert_RawCerts m);
          out = appendUint24 [] (of_nat innerLen)
      in foldl (\<lambda>out c. appendUint24 out (of_nat (length c)) @ c) out (cert_RawCerts m))"

function parseCertificate_loop :: "bytes list \<Rightarrow> bytes \<Rightarrow> bytes list res" where
  "parseCertificate_loop RawCerts listBytes =
     (if length listBytes > 0 then
        bindR (readLenPrefixed24 listBytes) (\<lambda>(certBytes, rest).
        guardR (length certBytes = 0) (Sentinel ''errCertEntryZeroLen'')
          (parseCertificate_loop (RawCerts @ [certBytes]) rest))
      else Inr RawCerts)"
  by auto
termination
  by (relation "measure (\<lambda>(_, l). length l)") (auto dest: readLenPrefixed24_shrinks)

declare parseCertificate_loop.simps [simp del]

definition parseCertificate :: "bytes \<Rightarrow> Certificate res" where
  "parseCertificate b =
     bindR (readLenPrefixed24 b) (\<lambda>(listBytes, rest).
     guardR (length rest \<noteq> 0) (Sentinel ''errCertTrailingData'') (
     bindR (parseCertificate_loop [] listBytes) (\<lambda>certs.
     Inr \<lparr>cert_RawCerts = certs\<rparr>)))"

section \<open>CertificateRequest\<close>

record CertificateRequest =
  cr_CertificateTypes :: bytes
  cr_SupportedSignatureAlgs :: "SigAndHash list"
  cr_CertificateAuthorities :: "bytes list"

function parseCAs_loop :: "bytes list \<Rightarrow> bytes \<Rightarrow> bytes list res" where
  "parseCAs_loop cas casBytes =
     (if length casBytes > 0 then
        bindR (readLenPrefixed16 casBytes) (\<lambda>(dn, rest). parseCAs_loop (cas @ [dn]) rest)
      else Inr cas)"
  by auto
termination
  by (relation "measure (\<lambda>(_, l). length l)") (auto dest: readLenPrefixed16_shrinks)

declare parseCAs_loop.simps [simp del]

definition parseCertificateRequest :: "bytes \<Rightarrow> CertificateRequest res" where
  "parseCertificateRequest b =
     bindR (readLenPrefixed8 b) (\<lambda>(typesBytes, b).
     bindR (readLenPrefixed16 b) (\<lambda>(sigAlgsBytes, b).
     guardR (length sigAlgsBytes mod 2 \<noteq> 0) (Sentinel ''errCRSAOddByteCount'') (
     bindR (readLenPrefixed16 b) (\<lambda>(casBytes, tail).
     guardR (length tail \<noteq> 0) (Sentinel ''errTrailingHandshakeBytes'') (
     bindR (parseCAs_loop [] casBytes) (\<lambda>cas.
     Inr \<lparr>cr_CertificateTypes = typesBytes,
          cr_SupportedSignatureAlgs =
            map (\<lambda>i. \<lparr>sah_Hash = sigAlgsBytes ! (pairSize * i),
                      sah_Sig = sigAlgsBytes ! (pairSize * i + 1)\<rparr>)
              [0..<length sigAlgsBytes div pairSize],
          cr_CertificateAuthorities = cas\<rparr>))))))"

section \<open>The remaining messages\<close>

record ServerKeyExchange =
  ske_Body :: bytes

record ClientKeyExchange =
  cke_Body :: bytes

record CertificateVerify =
  cv_Algorithm :: SigAndHash
  cv_Signature :: bytes

record Finished =
  fin_VerifyData :: bytes

record RawMessage =
  raw_MsgType :: Type
  raw_Body :: bytes

definition parseServerKeyExchange :: "bytes \<Rightarrow> ServerKeyExchange" where
  "parseServerKeyExchange b = \<lparr>ske_Body = b\<rparr>"

definition parseClientKeyExchange :: "bytes \<Rightarrow> ClientKeyExchange" where
  "parseClientKeyExchange b = \<lparr>cke_Body = b\<rparr>"

definition parseHelloRequest :: "bytes \<Rightarrow> unit res" where
  "parseHelloRequest b =
     (if length b \<noteq> 0 then Inl (Sentinel ''errHelloRequestNonEmptyBody'') else Inr ())"

definition parseServerHelloDone :: "bytes \<Rightarrow> unit res" where
  "parseServerHelloDone b =
     (if length b \<noteq> 0 then Inl (Sentinel ''errSHDNonEmptyBody'') else Inr ())"

definition CertificateVerify_Marshal :: "CertificateVerify \<Rightarrow> bytes" where
  "CertificateVerify_Marshal m =
     (let out = appendUint8 [] (sah_Hash (cv_Algorithm m));
          out = appendUint8 out (sah_Sig (cv_Algorithm m))
      in appendLenPrefixed16 out (cv_Signature m))"

definition parseCertificateVerify :: "bytes \<Rightarrow> CertificateVerify res" where
  "parseCertificateVerify b =
     bindR (readUint8 b) (\<lambda>(hashByte, b).
     bindR (readUint8 b) (\<lambda>(sigByte, b).
     bindR (readLenPrefixed16 b) (\<lambda>(sig, _).
     Inr \<lparr>cv_Algorithm = \<lparr>sah_Hash = hashByte, sah_Sig = sigByte\<rparr>, cv_Signature = sig\<rparr>)))"

definition parseFinished :: "bytes \<Rightarrow> Finished res" where
  "parseFinished b =
     (if length b \<noteq> 12 \<and> length b \<noteq> 32 then Inl (Sentinel ''errFinishedVerifyLen'')
      else Inr \<lparr>fin_VerifyData = b\<rparr>)"

section \<open>The envelope\<close>

datatype Message =
    MHelloRequest
  | MClientHello ClientHello
  | MServerHello ServerHello
  | MCertificate Certificate
  | MServerKeyExchange ServerKeyExchange
  | MCertificateRequest CertificateRequest
  | MServerHelloDone
  | MClientKeyExchange ClientKeyExchange
  | MCertificateVerify CertificateVerify
  | MFinished Finished
  | MRawMessage RawMessage

fun msgType :: "Message \<Rightarrow> Type" where
  "msgType MHelloRequest = TypeHelloRequest"
| "msgType (MClientHello _) = TypeClientHello"
| "msgType (MServerHello _) = TypeServerHello"
| "msgType (MCertificate _) = TypeCertificate"
| "msgType (MServerKeyExchange _) = TypeServerKeyExchange"
| "msgType (MCertificateRequest _) = TypeCertificateRequest"
| "msgType MServerHelloDone = TypeServerHelloDone"
| "msgType (MClientKeyExchange _) = TypeClientKeyExchange"
| "msgType (MCertificateVerify _) = TypeCertificateVerify"
| "msgType (MFinished _) = TypeFinished"
| "msgType (MRawMessage m) = raw_MsgType m"

fun Marshal :: "Message \<Rightarrow> bytes" where
  "Marshal MHelloRequest = []"
| "Marshal (MClientHello m) = ClientHello_Marshal m"
| "Marshal (MServerHello m) = ServerHello_Marshal m"
| "Marshal (MCertificate m) = Certificate_Marshal m"
| "Marshal (MServerKeyExchange m) = ske_Body m"
| "Marshal (MCertificateRequest _) = []"
| "Marshal MServerHelloDone = []"
| "Marshal (MClientKeyExchange m) = cke_Body m"
| "Marshal (MCertificateVerify m) = CertificateVerify_Marshal m"
| "Marshal (MFinished m) = fin_VerifyData m"
| "Marshal (MRawMessage m) = raw_Body m"

definition MarshalMessage :: "Message \<Rightarrow> bytes" where
  "MarshalMessage m =
     (let body = Marshal m;
          out = [msgType m];
          out = appendUint24 out (of_nat (length body))
      in out @ body)"

text \<open>The \<open>switch\<close> of \<open>ParseMessage\<close>.\<close>

definition parseBody :: "Type \<Rightarrow> bytes \<Rightarrow> Message res" where
  "parseBody t body =
     (if t = TypeHelloRequest then bindR (parseHelloRequest body) (\<lambda>_. Inr MHelloRequest)
      else if t = TypeClientHello then bindR (parseClientHello body) (\<lambda>m. Inr (MClientHello m))
      else if t = TypeServerHello then bindR (parseServerHello body) (\<lambda>m. Inr (MServerHello m))
      else if t = TypeCertificate then bindR (parseCertificate body) (\<lambda>m. Inr (MCertificate m))
      else if t = TypeServerKeyExchange then Inr (MServerKeyExchange (parseServerKeyExchange body))
      else if t = TypeCertificateRequest then
        bindR (parseCertificateRequest body) (\<lambda>m. Inr (MCertificateRequest m))
      else if t = TypeServerHelloDone then bindR (parseServerHelloDone body) (\<lambda>_. Inr MServerHelloDone)
      else if t = TypeClientKeyExchange then Inr (MClientKeyExchange (parseClientKeyExchange body))
      else if t = TypeCertificateVerify then
        bindR (parseCertificateVerify body) (\<lambda>m. Inr (MCertificateVerify m))
      else if t = TypeFinished then bindR (parseFinished body) (\<lambda>m. Inr (MFinished m))
      else Inl (Sentinel ''errUnknownMsgType''))"

definition ParseMessage :: "bytes \<Rightarrow> (Message \<times> bytes) res" where
  "ParseMessage data =
     (if length data < hsEnvelopeSize then Inl (Sentinel ''errMsgHeaderTruncated'')
      else
        let msgType = data ! 0;
            bodyLen = get24 (data ! 1) (data ! 2) (data ! 3);
            data = drop hsEnvelopeSize data
        in if (of_nat (length data) :: u32) < bodyLen then Inl (Sentinel ''errMsgBodyTruncated'')
           else bindR (parseBody msgType (take (unat bodyLen) data)) (\<lambda>msg.
                Inr (msg, drop (unat bodyLen) data)))"

section \<open>Hello round trips\<close>

definition ch_wf :: "ClientHello \<Rightarrow> bool" where
  "ch_wf m \<longleftrightarrow> length (ch_Random m) = tlsRandomLen \<and> length (ch_SessionID m) \<le> maxSessionIDLen
     \<and> ch_CipherSuites m \<noteq> [] \<and> 2 * length (ch_CipherSuites m) < 65536
     \<and> ch_CompressionMethods m \<noteq> [] \<and> length (ch_CompressionMethods m) < 256
     \<and> ext_fits (ch_extensions m)"

definition sh_wf :: "ServerHello \<Rightarrow> bool" where
  "sh_wf m \<longleftrightarrow> length (sh_Random m) = tlsRandomLen \<and> length (sh_SessionID m) \<le> maxSessionIDLen
     \<and> sh_ExtensionTypes m = map fst (ext_entries (sh_extensions m))"

lemma ext_entries_frame_Nil:
  assumes "frame (ext_entries ext) = []"
  shows "ext_entries ext = []"
  using assms by (cases "ext_entries ext") auto

lemma ext_entries_Nil: "ext_entries ext = [] \<Longrightarrow> ext = noExtensions"
  by (cases ext) (auto simp: ext_entries_def noExtensions_def split: if_splits)

text \<open>The optional extension block, as both hello parsers read it.\<close>

lemma hello_extensions_parse:
  assumes "ext_fits ext"
  shows "(if marshalExtensions ext \<noteq> [] then
            bindR (readLenPrefixed16 (marshalExtensions ext)) (\<lambda>(extList, rest).
            guardR (length rest \<noteq> 0) e (bindR (parseExtensions extList) f))
          else g) = (if ext_entries ext = [] then g else f (ext, map fst (ext_entries ext)))"
proof (cases "ext_entries ext = []")
  case True
  then show ?thesis by (simp add: marshalExtensions_frame)
next
  case False
  then have "frame (ext_entries ext) \<noteq> []" using ext_entries_frame_Nil by blast
  moreover have "length (frame (ext_entries ext)) < 65536"
    using assms by (simp add: ext_fits_def)
  ultimately show ?thesis
    using False by (simp add: marshalExtensions_frame wire_simps parseExtensions_marshal assms)
qed

lemma parseClientHello_Marshal:
  assumes "ch_wf m"
  shows "parseClientHello (ClientHello_Marshal m) = Inr m"
proof -
  let ?cs = "concat (map put16 (ch_CipherSuites m))"
  let ?ext = "ch_extensions m"
  have cs: "length ?cs < 65536" and fits: "ext_fits ?ext"
    using assms by (simp_all add: ch_wf_def)
  have m: "ClientHello_Marshal m = put16 (ch_Version m) @ ch_Random m
      @ of_nat (length (ch_SessionID m)) # ch_SessionID m
      @ put16 (of_nat (length ?cs)) @ ?cs
      @ of_nat (length (ch_CompressionMethods m)) # ch_CompressionMethods m @ marshalExtensions ?ext"
    by (simp add: ClientHello_Marshal_def foldl_appendUint16 ext_size_defs)
  have ext: "(if marshalExtensions ?ext \<noteq> [] then
            bindR (readLenPrefixed16 (marshalExtensions ?ext)) (\<lambda>(extList, rest).
            guardR (length rest \<noteq> 0) (Sentinel ''errCHTrailingData'')
              (bindR (parseExtensions extList) (\<lambda>(ext, _). Inr ext)))
          else Inr noExtensions) = Inr ?ext"
    using ext_entries_Nil [of ?ext] by (subst hello_extensions_parse [OF fits]) auto
  have cs_eq: "map (\<lambda>i. get16 (?cs ! (2 * i)) (?cs ! Suc (2 * i))) [0..<length ?cs div 2]
      = ch_CipherSuites m"
    using map_get16_put16 [of "ch_CipherSuites m"] by simp
  have "m = \<lparr>ch_Version = ch_Version m, ch_Random = ch_Random m, ch_SessionID = ch_SessionID m,
      ch_CipherSuites = ch_CipherSuites m, ch_CompressionMethods = ch_CompressionMethods m,
      ch_ServerName = pe_ServerName ?ext, ch_SupportedGroups = pe_SupportedGroups ?ext,
      ch_ECPointFormats = pe_ECPointFormats ?ext,
      ch_SignatureAlgorithms = pe_SignatureAlgorithms ?ext,
      ch_ExtendedMasterSecret = pe_ExtendedMasterSecret ?ext,
      ch_RenegotiationInfo = pe_RenegotiationInfo ?ext\<rparr>"
    by (simp add: ch_extensions_def)
  moreover have "even (length ?cs)" "2 \<le> length ?cs"
    using assms by (auto simp: ch_wf_def Suc_le_eq)
  ultimately show ?thesis
    unfolding m parseClientHello_def using assms cs
    by (simp add: wire_simps ch_wf_def ext cs_eq msg_size_defs ext_size_defs even_iff_mod_2_eq_zero
        del: concat_put16_length)
qed

lemma ext_fits_sh: "ext_fits (sh_extensions m)"
  by (simp add: ext_fits_def sh_extensions_def ext_entries_def noExtensions_def)

lemma parseServerHello_Marshal:
  assumes "sh_wf m"
  shows "parseServerHello (ServerHello_Marshal m) = Inr m"
proof -
  let ?ext = "sh_extensions m"
  have sni: "pe_ServerName ?ext = []" by (simp add: sh_extensions_def noExtensions_def)
  have m: "ServerHello_Marshal m = put16 (sh_Version m) @ sh_Random m
      @ of_nat (length (sh_SessionID m)) # sh_SessionID m
      @ put16 (sh_CipherSuite m) @ sh_CompressionMethod m # marshalExtensions ?ext"
    by (simp add: ServerHello_Marshal_def)
  have ext: "(if marshalExtensions ?ext \<noteq> [] then
            bindR (readLenPrefixed16 (marshalExtensions ?ext)) (\<lambda>(extList, rest).
            guardR (length rest \<noteq> 0) (Sentinel ''errSHTrailingData'')
              (bindR (parseExtensions extList) (\<lambda>(ext, seen).
              guardR (pe_ServerName ext \<noteq> []) (Sentinel ''errServerHelloNonEmptySNI'')
                (Inr (ext, seen)))))
          else Inr (noExtensions, [])) = Inr (?ext, map fst (ext_entries ?ext))"
    using ext_entries_Nil [of ?ext] sni
    by (subst hello_extensions_parse [OF ext_fits_sh [of m]]) auto
  have "m = \<lparr>sh_Version = sh_Version m, sh_Random = sh_Random m, sh_SessionID = sh_SessionID m,
      sh_CipherSuite = sh_CipherSuite m, sh_CompressionMethod = sh_CompressionMethod m,
      sh_ExtendedMasterSecret = pe_ExtendedMasterSecret ?ext,
      sh_RenegotiationInfo = pe_RenegotiationInfo ?ext,
      sh_ExtensionTypes = map fst (ext_entries ?ext)\<rparr>"
    using assms by (simp add: sh_extensions_def sh_wf_def)
  then show ?thesis
    unfolding m parseServerHello_def using assms
    by (simp add: wire_simps sh_wf_def ext msg_size_defs)
qed

section \<open>Certificate: the wire form is canonical\<close>

definition certs_enc :: "bytes list \<Rightarrow> bytes" where
  "certs_enc cs = concat (map (\<lambda>c. put24 (of_nat (length c)) @ c) cs)"

lemma certs_enc_simps [simp]:
  "certs_enc [] = []"
  "certs_enc (c # cs) = put24 (of_nat (length c)) @ c @ certs_enc cs"
  by (simp_all add: certs_enc_def)

lemma certs_enc_length: "foldl (\<lambda>n c. n + (certEntryOverhead + length c)) k cs = k + length (certs_enc cs)"
  by (induction cs arbitrary: k) (auto simp: msg_size_defs)

lemma certs_enc_foldl:
  "foldl (\<lambda>out c. appendUint24 out (of_nat (length c)) @ c) out cs = out @ certs_enc cs"
  by (induction cs arbitrary: out) auto

lemma Certificate_Marshal_eq:
  "Certificate_Marshal m =
     put24 (of_nat (length (certs_enc (cert_RawCerts m)))) @ certs_enc (cert_RawCerts m)"
  unfolding Certificate_Marshal_def Let_def certs_enc_foldl certs_enc_length by simp

lemma parseCertificate_loop_enc:
  assumes "\<forall>c \<in> set cs. c \<noteq> [] \<and> length c < 16777216"
  shows "parseCertificate_loop acc (certs_enc cs) = Inr (acc @ cs)"
  using assms
proof (induction cs arbitrary: acc)
  case (Cons c cs)
  then show ?case
    by (subst parseCertificate_loop.simps) (simp add: wire_simps)
qed (simp add: parseCertificate_loop.simps)

lemma parseCertificate_loop_Inr:
  assumes "parseCertificate_loop acc b = Inr certs"
  shows "\<exists>cs. certs = acc @ cs \<and> b = certs_enc cs \<and> (\<forall>c \<in> set cs. c \<noteq> [] \<and> length c < 16777216)"
  using assms
proof (induction "length b" arbitrary: acc b rule: less_induct)
  case less
  show ?case
  proof (cases "b = []")
    case True
    with less.prems show ?thesis by (simp add: parseCertificate_loop.simps)
  next
    case False
    with less.prems obtain c rest where c: "readLenPrefixed24 b = Inr (c, rest)" "c \<noteq> []"
      and rest: "parseCertificate_loop (acc @ [c]) rest = Inr certs"
      by (subst (asm) parseCertificate_loop.simps) (auto simp: bindR_eq_Inr)
    from less.hyps [OF readLenPrefixed24_shrinks [OF c(1)] rest] obtain cs where
      "certs = (acc @ [c]) @ cs" "rest = certs_enc cs" "\<forall>c \<in> set cs. c \<noteq> [] \<and> length c < 16777216"
      by blast
    then show ?thesis
      using readLenPrefixed24_Inr [OF c(1)] c(2) by (intro exI [of _ "c # cs"]) simp
  qed
qed

definition cert_wf :: "Certificate \<Rightarrow> bool" where
  "cert_wf m \<longleftrightarrow> [] \<notin> set (cert_RawCerts m) \<and> length (certs_enc (cert_RawCerts m)) < 16777216"

lemma certs_enc_le: "c \<in> set cs \<Longrightarrow> length c \<le> length (certs_enc cs)"
  by (induction cs) auto

lemma parseCertificate_Marshal:
  assumes "cert_wf m"
  shows "parseCertificate (Certificate_Marshal m) = Inr m"
proof -
  have "\<forall>c \<in> set (cert_RawCerts m). c \<noteq> [] \<and> length c < 16777216"
    using assms certs_enc_le by (fastforce simp: cert_wf_def)
  then show ?thesis
    using assms
    by (simp add: parseCertificate_def Certificate_Marshal_eq cert_wf_def wire_simps
        parseCertificate_loop_enc)
qed

lemma parseCertificate_Inr:
  assumes "parseCertificate b = Inr m"
  shows "Certificate_Marshal m = b \<and> cert_wf m"
proof -
  from assms obtain l where l: "readLenPrefixed24 b = Inr (l, [])"
    and c: "parseCertificate_loop [] l = Inr (cert_RawCerts m)"
    by (auto simp: parseCertificate_def bindR_eq_Inr)
  from parseCertificate_loop_Inr [OF c] have "l = certs_enc (cert_RawCerts m)"
    "[] \<notin> set (cert_RawCerts m)" by auto
  with readLenPrefixed24_Inr [OF l] show ?thesis
    by (simp add: Certificate_Marshal_eq cert_wf_def)
qed

lemma parseCertificateVerify_Marshal:
  "length (cv_Signature m) < 65536 \<Longrightarrow> parseCertificateVerify (CertificateVerify_Marshal m) = Inr m"
  by (simp add: parseCertificateVerify_def CertificateVerify_Marshal_def wire_simps)

section \<open>The envelope\<close>

fun msg_wf :: "Message \<Rightarrow> bool" where
  "msg_wf (MClientHello m) = ch_wf m"
| "msg_wf (MServerHello m) = sh_wf m"
| "msg_wf (MCertificate m) = cert_wf m"
| "msg_wf (MCertificateVerify m) = (length (cv_Signature m) < 65536)"
| "msg_wf (MFinished m) = (length (fin_VerifyData m) \<in> {12, 32})"
| "msg_wf (MCertificateRequest _) = False"
| "msg_wf (MRawMessage _) = False"
| "msg_wf _ = True"

lemma parseBody_Marshal:
  "msg_wf m \<Longrightarrow> parseBody (msgType m) (Marshal m) = Inr m"
  by (cases m)
     (auto simp: parseBody_def type_defs parseHelloRequest_def parseServerHelloDone_def
       parseClientHello_Marshal parseServerHello_Marshal parseCertificate_Marshal
       parseServerKeyExchange_def parseClientKeyExchange_def parseCertificateVerify_Marshal
       parseFinished_def)

lemma parseBody_type:
  "parseBody t b = Inr m \<Longrightarrow> msgType m = t"
  by (auto simp: parseBody_def bindR_eq_Inr split: if_splits)

lemma ParseMessage_envelope:
  assumes "length body < 16777216" "length body + length rest < 2 ^ 32"
  shows "ParseMessage (t # put24 (of_nat (length body)) @ body @ rest) =
    bindR (parseBody t body) (\<lambda>m. Inr (m, rest))"
proof -
  have "\<not> (of_nat (length body + length rest) :: u32) < of_nat (length body)"
    using assms by (simp add: word_less_nat_alt unat_of_nat del: of_nat_add)
  then show ?thesis
    using assms(1) by (simp add: ParseMessage_def put24_def msg_size_defs get24_put24)
qed

lemma ParseMessage_Inr:
  assumes "ParseMessage data = Inr (m, rest)"
  shows "\<exists>body. data = msgType m # put24 (of_nat (length body)) @ body @ rest
    \<and> length body < 16777216 \<and> parseBody (msgType m) body = Inr m"
proof -
  let ?n = "get24 (data ! 1) (data ! 2) (data ! 3)" and ?d = "drop 4 data"
  from assms have len: "4 \<le> length data" and fits: "\<not> (of_nat (length ?d) :: u32) < ?n"
    and body: "parseBody (data ! 0) (take (unat ?n) ?d) = Inr m" and rest: "rest = drop (unat ?n) ?d"
    by (auto simp: ParseMessage_def msg_size_defs Let_def bindR_eq_Inr split: if_splits)
  have "unat (of_nat (length ?d) :: u32) \<le> length ?d"
    by (simp only: unat_of_nat) simp
  then have n: "unat ?n \<le> length ?d"
    using fits by (simp only: word_less_nat_alt not_less)
  have "data = data ! 0 # [data ! 1, data ! 2, data ! 3] @ ?d"
    using len split2 [of data] split2 [of "drop 2 data"] by (simp add: numeral_eq_Suc)
  also have "\<dots> = data ! 0 # put24 ?n @ take (unat ?n) ?d @ rest"
    by (simp only: put24_get24 rest append_take_drop_id)
  finally show ?thesis
    using body n unat_get24_lt parseBody_type [OF body]
    by (intro exI [of _ "take (unat ?n) ?d"]) simp
qed

lemma MarshalMessage_eq:
  "MarshalMessage m = msgType m # put24 (of_nat (length (Marshal m))) @ Marshal m"
  by (simp add: MarshalMessage_def Let_def)

end
