(* ===== verification/Crypto.thy ===== *)
theory Crypto
  imports Prelude
begin

text \<open>
  The cryptographic objects the implementation is handed by Go's \<open>crypto\<close> packages, by
  \<open>golang.org/x/crypto\<close> and by \<open>gostcrypto\<close>.  A \<open>hash.Hash\<close> constructor, a
  \<open>cipher.Block\<close>, a \<open>cipher.AEAD\<close> and a GOST 28147-89 cipher are records of functions;
  the constructors the record layer calls are the fields of \<open>rcrypto\<close>, an argument of the
  definitions that use them.  What the code relies on (a block cipher inverts, an AEAD opens
  what it sealed, ...) is stated by the predicates \<open>blk_ok\<close>, \<open>hash_ok\<close>, \<open>aead_ok\<close>,
  \<open>gcipher_ok\<close> and \<open>stream_ok\<close> (and, for all constructors together, \<open>rcrypto_ok\<close> of theory \<open>Keys\<close>).  HMAC and the CBC mode, which the
  standard library builds from these, are written out.
\<close>

section \<open>Byte-wise exclusive or and constant-time helpers\<close>

definition xorb :: "bytes \<Rightarrow> bytes \<Rightarrow> bytes" where
  "xorb x y = map2 (XOR) x y"

lemma length_xorb [simp]: "length (xorb x y) = min (length x) (length y)"
  by (simp add: xorb_def)

lemma xorb_nth [simp]: "i < length x \<Longrightarrow> i < length y \<Longrightarrow> xorb x y ! i = x ! i XOR y ! i"
  by (simp add: xorb_def)

lemma xorb_xorb: "length x = length y \<Longrightarrow> xorb x (xorb x y) = y"
  by (rule nth_equalityI) (auto simp: xor.assoc [symmetric])

lemma xorb_xorb2: "length x \<le> length k \<Longrightarrow> xorb (xorb x k) k = x"
  by (rule nth_equalityI) (auto simp: xor.assoc)

lemma xorb_append:
  "xorb (x @ y) k = xorb x (take (length x) k) @ xorb y (drop (length x) k)"
  by (simp add: xorb_def zip_append1)

definition ConstantTimeCompare :: "bytes \<Rightarrow> bytes \<Rightarrow> nat" where
  "ConstantTimeCompare x y = (if x = y then 1 else 0)"

definition ConstantTimeSelect :: "nat \<Rightarrow> int \<Rightarrow> int \<Rightarrow> int" where
  "ConstantTimeSelect v x y = (if v = 1 then x else y)"

section \<open>Hashes and HMAC\<close>

record Hash =
  h_Sum :: "bytes \<Rightarrow> bytes"
  h_Size :: nat
  h_BlockSize :: nat

definition hash_ok :: "Hash \<Rightarrow> bool" where
  "hash_ok h \<longleftrightarrow> (\<forall>m. length (h_Sum h m) = h_Size h)"

text \<open>\<open>crypto/hmac\<close> (RFC 2104): keys longer than a block are hashed, shorter ones are
  zero-padded.\<close>

definition hmac_key :: "Hash \<Rightarrow> bytes \<Rightarrow> bytes" where
  "hmac_key h key =
     (let k = (if length key > h_BlockSize h then h_Sum h key else key)
      in k @ replicate (h_BlockSize h - length k) 0)"

definition hmac :: "Hash \<Rightarrow> bytes \<Rightarrow> bytes \<Rightarrow> bytes" where
  "hmac h key msg =
     (let k = hmac_key h key
      in h_Sum h (map (\<lambda>b. b XOR 0x5c) k @ h_Sum h (map (\<lambda>b. b XOR 0x36) k @ msg)))"

lemma length_hmac: "hash_ok h \<Longrightarrow> length (hmac h key msg) = h_Size h"
  by (simp add: hmac_def hash_ok_def Let_def)

section \<open>Block ciphers and the CBC mode\<close>

record Block =
  blk_BlockSize :: nat
  blk_Encrypt :: "bytes \<Rightarrow> bytes"
  blk_Decrypt :: "bytes \<Rightarrow> bytes"

definition blk_ok :: "Block \<Rightarrow> bool" where
  "blk_ok b \<longleftrightarrow> 0 < blk_BlockSize b \<and>
     (\<forall>x. length x = blk_BlockSize b \<longrightarrow>
        length (blk_Encrypt b x) = blk_BlockSize b \<and> length (blk_Decrypt b x) = blk_BlockSize b
        \<and> blk_Decrypt b (blk_Encrypt b x) = x)"

function cbc_enc :: "Block \<Rightarrow> bytes \<Rightarrow> bytes \<Rightarrow> bytes" where
  "cbc_enc b iv src =
     (if src = [] \<or> blk_BlockSize b = 0 then []
      else let c = blk_Encrypt b (xorb iv (take (blk_BlockSize b) src))
           in c @ cbc_enc b c (drop (blk_BlockSize b) src))"
  by auto
termination by (relation "measure (\<lambda>(_, _, s). length s)") auto

function cbc_dec :: "Block \<Rightarrow> bytes \<Rightarrow> bytes \<Rightarrow> bytes" where
  "cbc_dec b iv src =
     (if src = [] \<or> blk_BlockSize b = 0 then []
      else let c = take (blk_BlockSize b) src
           in xorb iv (blk_Decrypt b c) @ cbc_dec b c (drop (blk_BlockSize b) src))"
  by auto
termination by (relation "measure (\<lambda>(_, _, s). length s)") auto

declare cbc_enc.simps [simp del] cbc_dec.simps [simp del]

text \<open>\<open>NewCBCEncrypter(b, iv).CryptBlocks\<close> and its inverse, with the panics of
  \<open>crypto/cipher\<close>.\<close>

definition CBCEncrypt :: "Block \<Rightarrow> bytes \<Rightarrow> bytes \<Rightarrow> bytes res" where
  "CBCEncrypt b iv src =
     (if length iv \<noteq> blk_BlockSize b then Inl (Panic ''cipher.NewCBCEncrypter: IV length'')
      else if length src mod blk_BlockSize b \<noteq> 0 then Inl (Panic ''crypto/cipher: not full blocks'')
      else Inr (cbc_enc b iv src))"

definition CBCDecrypt :: "Block \<Rightarrow> bytes \<Rightarrow> bytes \<Rightarrow> bytes res" where
  "CBCDecrypt b iv src =
     (if length iv \<noteq> blk_BlockSize b then Inl (Panic ''cipher.NewCBCDecrypter: IV length'')
      else if length src mod blk_BlockSize b \<noteq> 0 then Inl (Panic ''crypto/cipher: not full blocks'')
      else Inr (cbc_dec b iv src))"

lemma full_blocks_step:
  assumes "(n::nat) mod k = 0" "n \<noteq> 0"
  shows "k \<le> n" "(n - k) mod k = 0"
  using assms by (auto simp: mod_eq_0_iff_dvd dvd_imp_le)

lemma cbc_enc_length:
  assumes "blk_ok b" "length iv = blk_BlockSize b" "length src mod blk_BlockSize b = 0"
  shows "length (cbc_enc b iv src) = length src"
  using assms(2,3)
proof (induction "length src" arbitrary: iv src rule: less_induct)
  case less
  let ?n = "blk_BlockSize b"
  have pos: "0 < ?n" using assms(1) by (simp add: blk_ok_def)
  show ?case
  proof (cases "src = []")
    case False
    then have fb: "?n \<le> length src" "(length src - ?n) mod ?n = 0"
      using full_blocks_step less.prems(2) by auto
    let ?c = "blk_Encrypt b (xorb iv (take ?n src))"
    have c: "length ?c = ?n" using assms(1) less.prems(1) fb(1) by (simp add: blk_ok_def)
    have "length (cbc_enc b ?c (drop ?n src)) = length (drop ?n src)"
      using less.hyps [of "drop ?n src" ?c] c fb pos by simp
    then show ?thesis
      using False pos c fb(1) by (subst cbc_enc.simps) (simp add: Let_def)
  qed (simp add: cbc_enc.simps)
qed

lemma cbc_dec_enc:
  assumes "blk_ok b" "length iv = blk_BlockSize b" "length src mod blk_BlockSize b = 0"
  shows "cbc_dec b iv (cbc_enc b iv src) = src"
  using assms(2,3)
proof (induction "length src" arbitrary: iv src rule: less_induct)
  case less
  let ?n = "blk_BlockSize b"
  have pos: "0 < ?n" using assms(1) by (simp add: blk_ok_def)
  show ?case
  proof (cases "src = []")
    case True
    then show ?thesis by (simp add: cbc_enc.simps cbc_dec.simps)
  next
    case False
    then have fb: "?n \<le> length src" "(length src - ?n) mod ?n = 0"
      using full_blocks_step less.prems(2) by auto
    let ?x = "xorb iv (take ?n src)"
    let ?c = "blk_Encrypt b ?x"
    have c: "length ?c = ?n" "blk_Decrypt b ?c = ?x"
      using assms(1) less.prems(1) fb(1) by (simp_all add: blk_ok_def)
    have ih: "cbc_dec b ?c (cbc_enc b ?c (drop ?n src)) = drop ?n src"
      using less.hyps [of "drop ?n src" ?c] c fb pos by simp
    have e: "cbc_enc b iv src = ?c @ cbc_enc b ?c (drop ?n src)"
      using False pos by (subst cbc_enc.simps) (simp add: Let_def)
    have "?c \<noteq> []" using c pos by auto
    then have "cbc_dec b iv (cbc_enc b iv src) = xorb iv ?x @ drop ?n src"
      unfolding e using pos c ih by (subst cbc_dec.simps) (simp add: Let_def)
    also have "xorb iv ?x = take ?n src"
      using less.prems(1) fb(1) by (intro xorb_xorb) simp
    finally show ?thesis by simp
  qed
qed

section \<open>AEAD ciphers\<close>

record AEAD =
  aead_Overhead :: nat
  aead_Seal :: "bytes \<Rightarrow> bytes \<Rightarrow> bytes \<Rightarrow> bytes"          \<comment> \<open>nonce, plaintext, additional data\<close>
  aead_Open :: "bytes \<Rightarrow> bytes \<Rightarrow> bytes \<Rightarrow> bytes option"   \<comment> \<open>nonce, ciphertext, additional data\<close>

definition aead_ok :: "AEAD \<Rightarrow> bool" where
  "aead_ok a \<longleftrightarrow> aead_Overhead a \<le> 256 \<and>
     (\<forall>n p ad. length (aead_Seal a n p ad) = length p + aead_Overhead a
        \<and> aead_Open a n (aead_Seal a n p ad) ad = Some p)"

section \<open>GOST 28147-89 and stream ciphers\<close>

datatype Sbox = SboxCryptoProA | SboxTC26Z

record GOST28147Cipher =
  gc_Encrypt :: "bytes \<Rightarrow> bytes"
  gc_Decrypt :: "bytes \<Rightarrow> bytes"
  gc_SeqMACBlock :: "bytes \<Rightarrow> bytes"

definition gcipher_ok :: "GOST28147Cipher \<Rightarrow> bool" where
  "gcipher_ok c \<longleftrightarrow>
     (\<forall>x. length x = 8 \<longrightarrow> length (gc_Encrypt c x) = 8 \<and> length (gc_Decrypt c x) = 8
        \<and> length (gc_SeqMACBlock c x) = 8)"

text \<open>A fresh \<open>cipher.Stream\<close> on which \<open>XORKeyStream\<close> is called once, as a function on the
  data: the exclusive or with a key stream that does not depend on the data.\<close>

definition stream_ok :: "(bytes \<Rightarrow> bytes) \<Rightarrow> bool" where
  "stream_ok f \<longleftrightarrow> (\<exists>ks. \<forall>x. f x = xorb x (map ks [0..<length x]))"

lemma stream_ok_length: "stream_ok f \<Longrightarrow> length (f x) = length x"
  by (auto simp: stream_ok_def)

lemma stream_ok_involution: "stream_ok f \<Longrightarrow> f (f x) = x"
  by (auto simp: stream_ok_def intro!: xorb_xorb2)

section \<open>The primitives of the record layer\<close>

record rcrypto =
  aes_NewCipher :: "bytes \<Rightarrow> Block res"
  cipher_NewGCM :: "Block \<Rightarrow> AEAD res"
  chacha20poly1305_New :: "bytes \<Rightarrow> AEAD res"
  NewGOST28147Cipher :: "bytes \<Rightarrow> Sbox \<Rightarrow> GOST28147Cipher"
  NewKuznyechikCipher :: "bytes \<Rightarrow> Block"
  NewMagmaCipher :: "bytes \<Rightarrow> Block"
  NewTLSTreeKuznyechikCTROMAC :: "bytes \<Rightarrow> u64 \<Rightarrow> bytes"
  NewTLSTreeMagmaCTROMAC :: "bytes \<Rightarrow> u64 \<Rightarrow> bytes"
  NewOMAC :: "Block \<Rightarrow> nat \<Rightarrow> (bytes \<Rightarrow> bytes) res"
  NewCTRACPKM :: "(bytes \<Rightarrow> Block) \<Rightarrow> bytes \<Rightarrow> bytes \<Rightarrow> nat \<Rightarrow> (bytes \<Rightarrow> bytes) res"

end
