(* ===== verification/Transcript.thy ===== *)
theory Transcript
  imports Crypto
begin

text \<open>
  \<open>internal/handshake/transcript.go\<close>: the bounded accumulation of handshake messages.
  A hash factory (\<open>func() hash.Hash\<close>, possibly \<open>nil\<close>) is a \<open>Hash option\<close>.  Shown: the
  buffer never exceeds its bound, overflow is sticky, and a digest is only ever produced over
  the concatenation of everything that was written.
\<close>

definition maxTranscriptBytes :: nat where "maxTranscriptBytes = 256 * 1024"

record Transcript =
  t_buf :: bytes
  t_overflow :: bool

definition NewTranscript :: Transcript where
  "NewTranscript = \<lparr>t_buf = [], t_overflow = False\<rparr>"

definition Transcript_Write :: "bytes \<Rightarrow> Transcript \<Rightarrow> Transcript" where
  "Transcript_Write msg t =
     (if t_overflow t \<or> length (t_buf t) + length msg > maxTranscriptBytes
      then t\<lparr>t_overflow := True\<rparr>
      else t\<lparr>t_buf := t_buf t @ msg\<rparr>)"

definition Overflowed :: "Transcript \<Rightarrow> bool" where
  "Overflowed t = t_overflow t"

definition Transcript_Sum :: "Hash option \<Rightarrow> Transcript \<Rightarrow> bytes res" where
  "Transcript_Sum factory t =
     (case factory of
        None \<Rightarrow> Inl (Sentinel ''errNilHashFactory'')
      | Some h \<Rightarrow>
          if t_overflow t then Inl (Sentinel ''errTranscriptOverflow'')
          else Inr (h_Sum h (t_buf t)))"

section \<open>The bound, and what a digest covers\<close>

abbreviation writes :: "bytes list \<Rightarrow> Transcript \<Rightarrow> Transcript" where
  "writes \<equiv> fold Transcript_Write"

lemma Transcript_Write_overflow [simp]:
  "t_overflow (Transcript_Write msg t) \<longleftrightarrow>
     t_overflow t \<or> length (t_buf t) + length msg > maxTranscriptBytes"
  by (simp add: Transcript_Write_def)

lemma Transcript_Write_buf:
  "\<not> t_overflow (Transcript_Write msg t) \<Longrightarrow> t_buf (Transcript_Write msg t) = t_buf t @ msg"
  by (auto simp: Transcript_Write_def)

lemma Transcript_Write_bound:
  "length (t_buf t) \<le> maxTranscriptBytes \<Longrightarrow> length (t_buf (Transcript_Write msg t)) \<le> maxTranscriptBytes"
  by (auto simp: Transcript_Write_def)

lemma writes_bound:
  "length (t_buf t) \<le> maxTranscriptBytes \<Longrightarrow> length (t_buf (writes msgs t)) \<le> maxTranscriptBytes"
  by (induction msgs arbitrary: t) (auto intro: Transcript_Write_bound)

lemma writes_sticky: "t_overflow t \<Longrightarrow> t_overflow (writes msgs t)"
  by (induction msgs arbitrary: t) simp_all

lemma writes_overflow_iff:
  assumes "\<not> t_overflow t" "length (t_buf t) \<le> maxTranscriptBytes"
  shows "t_overflow (writes msgs t) \<longleftrightarrow> length (t_buf t) + length (concat msgs) > maxTranscriptBytes"
  using assms
proof (induction msgs arbitrary: t)
  case (Cons m ms)
  show ?case
  proof (cases "length (t_buf t) + length m > maxTranscriptBytes")
    case True
    then show ?thesis using Cons.prems by (auto intro: writes_sticky)
  next
    case False
    let ?t = "Transcript_Write m t"
    have nov: "\<not> t_overflow ?t" using False Cons.prems(1) by simp
    note b = Transcript_Write_buf [OF nov]
    have "length (t_buf ?t) \<le> maxTranscriptBytes" using False b by simp
    from Cons.IH [OF nov this] show ?thesis using b by (simp add: add.assoc)
  qed
qed simp

lemma writes_buf:
  assumes "\<not> t_overflow (writes msgs t)"
  shows "t_buf (writes msgs t) = t_buf t @ concat msgs"
  using assms
proof (induction msgs arbitrary: t)
  case (Cons m ms)
  have "\<not> t_overflow (Transcript_Write m t)" using Cons.prems writes_sticky [of _ ms] by auto
  with Cons show ?case by (simp add: Transcript_Write_buf)
qed simp

lemma Transcript_Sum_writes:
  "Transcript_Sum (Some h) (writes msgs NewTranscript) =
     (if length (concat msgs) \<le> maxTranscriptBytes then Inr (h_Sum h (concat msgs))
      else Inl (Sentinel ''errTranscriptOverflow''))"
proof -
  have "t_overflow (writes msgs NewTranscript) \<longleftrightarrow> length (concat msgs) > maxTranscriptBytes"
    by (subst writes_overflow_iff) (simp_all add: NewTranscript_def)
  moreover have "t_buf (writes msgs NewTranscript) = concat msgs"
    if "\<not> t_overflow (writes msgs NewTranscript)"
    using writes_buf [OF that] by (simp add: NewTranscript_def)
  ultimately show ?thesis by (auto simp: Transcript_Sum_def)
qed

end
