(* ===== verification/Protection.thy ===== *)
theory Protection
  imports Crypto
begin

text \<open>
  \<open>internal/record/alerts.go\<close>, \<open>protection.go\<close> and \<open>protection_chacha20.go\<close>: the
  alert values, the \<open>Protector\<close> interface (locale \<open>protector\<close>), and the null, CBC/HMAC,
  AES-GCM and ChaCha20-Poly1305 protectors, each an interpretation of the interface.
  The constant-time padding check is kept at Go's integer widths (\<open>uint\<close> of 64 bits,
  \<open>int32\<close> truncation, arithmetic shifts) and shown equal to the padding rule of
  RFC 5246 section 6.2.3.2.
\<close>

section \<open>Alerts\<close>

definition AlertLevelWarning :: byte where "AlertLevelWarning = 1"
definition AlertLevelFatal :: byte where "AlertLevelFatal = 2"
definition AlertCloseNotify :: byte where "AlertCloseNotify = 0"
definition AlertUnexpectedMessage :: byte where "AlertUnexpectedMessage = 10"
definition AlertBadRecordMAC :: byte where "AlertBadRecordMAC = 20"
definition AlertDecryptionFailed :: byte where "AlertDecryptionFailed = 21"
definition AlertRecordOverflow :: byte where "AlertRecordOverflow = 22"
definition AlertHandshakeFailure :: byte where "AlertHandshakeFailure = 40"
definition AlertBadCertificate :: byte where "AlertBadCertificate = 42"
definition AlertIllegalParameter :: byte where "AlertIllegalParameter = 47"
definition AlertDecodeError :: byte where "AlertDecodeError = 50"
definition AlertDecryptError :: byte where "AlertDecryptError = 51"
definition AlertProtocolVersion :: byte where "AlertProtocolVersion = 70"
definition AlertUnsupportedExtension :: byte where "AlertUnsupportedExtension = 110"
definition AlertInternalError :: byte where "AlertInternalError = 80"
definition AlertInsufficientSecurity :: byte where "AlertInsufficientSecurity = 71"

definition EncodeAlert :: "byte \<Rightarrow> byte \<Rightarrow> bytes" where
  "EncodeAlert level description = [level, description]"

definition DecodeAlert :: "bytes \<Rightarrow> (byte \<times> byte) res" where
  "DecodeAlert b = (if length b < 2 then Inl (Panic ''index out of range'') else Inr (b ! 0, b ! 1))"

definition NewFatalAlertError :: "byte \<Rightarrow> err" where
  "NewFatalAlertError description = AlertError AlertLevelFatal description"

definition fatalRecordError :: "string \<Rightarrow> err" where
  "fatalRecordError msg = RecordError True msg"

section \<open>Additional data\<close>

definition macADLen :: nat where "macADLen = 13"
definition aeadSaltLen :: nat where "aeadSaltLen = 4"
definition aeadNonceLen :: nat where "aeadNonceLen = 12"
definition aeadExplicitNonceLen :: nat where "aeadExplicitNonceLen = 8"

lemmas prot_size_defs = macADLen_def aeadSaltLen_def aeadNonceLen_def aeadExplicitNonceLen_def

definition macAdditionalData :: "u64 \<Rightarrow> bytes \<Rightarrow> nat \<Rightarrow> bytes" where
  "macAdditionalData seq hdr plainLen = put64 seq @ take 3 hdr @ put16 (of_nat plainLen)"

definition buildAD :: "u64 \<Rightarrow> bytes \<Rightarrow> nat \<Rightarrow> bytes" where
  "buildAD seq hdr plainLen = put64 seq @ take 3 hdr @ put16 (of_nat plainLen)"

section \<open>The null protector\<close>

definition nullProtector_Seal :: "u64 \<Rightarrow> bytes \<Rightarrow> bytes \<Rightarrow> bytes res" where
  "nullProtector_Seal seq hdr plain = Inr plain"

definition nullProtector_Open :: "u64 \<Rightarrow> bytes \<Rightarrow> bytes \<Rightarrow> bytes res" where
  "nullProtector_Open seq hdr fragment = Inr fragment"

section \<open>CBC with HMAC\<close>

record cbcHMACProtector =
  cbc_newCipher :: "bytes \<Rightarrow> Block res"
  cbc_newHash :: Hash
  cbc_encKey :: bytes
  cbc_macKey :: bytes
  cbc_blockSize :: nat
  cbc_macSize :: nat

definition NewCBCHMACProtector ::
  "(bytes \<Rightarrow> Block res) \<Rightarrow> Hash \<Rightarrow> bytes \<Rightarrow> bytes \<Rightarrow> cbcHMACProtector res" where
  "NewCBCHMACProtector newCipher newHash encKey macKey =
     bindR (newCipher encKey) (\<lambda>b.
     Inr \<lparr>cbc_newCipher = newCipher, cbc_newHash = newHash, cbc_encKey = encKey,
          cbc_macKey = macKey, cbc_blockSize = blk_BlockSize b, cbc_macSize = h_Size newHash\<rparr>)"

text \<open>The bytes \<open>extra\<close> enter the HMAC after the digest was taken and do not change it.\<close>

definition computeMAC :: "cbcHMACProtector \<Rightarrow> u64 \<Rightarrow> bytes \<Rightarrow> bytes \<Rightarrow> bytes \<Rightarrow> bytes" where
  "computeMAC p seq hdr fragment extra =
     (let ad = macAdditionalData seq hdr (length fragment)
      in hmac (cbc_newHash p) (cbc_macKey p) (ad @ fragment))"

definition cbcMaxPaddingScan :: nat where "cbcMaxPaddingScan = 256"
definition cbcSignShift32 :: nat where "cbcSignShift32 = 31"
definition cbcSignShift8 :: nat where "cbcSignShift8 = 7"

lemmas cbc_const_defs = cbcMaxPaddingScan_def cbcSignShift32_def cbcSignShift8_def

text \<open>\<open>byte(int32(^t) >> cbcSignShift32)\<close>.\<close>

definition signMask :: "u64 \<Rightarrow> byte" where
  "signMask t = ucast (signed_drop_bit cbcSignShift32 (ucast (NOT t) :: u32))"

definition extractCBCPadding_step :: "bytes \<Rightarrow> byte \<Rightarrow> byte \<Rightarrow> nat \<Rightarrow> byte" where
  "extractCBCPadding_step payload paddingLen good i =
     (let t = ucast paddingLen - of_nat i;
          mask = signMask t;
          b = payload ! (length payload - 1 - i)
      in good AND NOT ((mask AND paddingLen) XOR (mask AND b)))"

definition extractCBCPadding :: "bytes \<Rightarrow> nat \<times> byte" where
  "extractCBCPadding payload =
     (if length payload < 1 then (0, 0)
      else
        let paddingLen = payload ! (length payload - 1);
            t = of_nat (length payload - 1) - ucast paddingLen;
            good = signMask t;
            toCheck = min cbcMaxPaddingScan (length payload);
            good = foldl (extractCBCPadding_step payload paddingLen) good [0..<toCheck];
            good = good AND push_bit 4 good;
            good = good AND push_bit 2 good;
            good = good AND push_bit 1 good;
            good = signed_drop_bit cbcSignShift8 good
        in (unat paddingLen + 1, good))"

definition cbcHMACProtector_Seal ::
  "cbcHMACProtector \<Rightarrow> u64 \<Rightarrow> bytes \<Rightarrow> bytes \<Rightarrow> (reader, bytes) sm" where
  "cbcHMACProtector_Seal p seq hdr plain =
     (let mac = computeMAC p seq hdr plain [];
          contentLen = length plain + cbc_macSize p;
          padLen = int (cbc_blockSize p) - int ((contentLen + 1) mod cbc_blockSize p);
          padLen = nat (if padLen < 0 then padLen + int (cbc_blockSize p) else padLen);
          paddingByte = of_nat padLen;
          buf = plain @ mac @ replicate (padLen + 1) paddingByte
      in bindS (catchS (ReadFull (cbc_blockSize p))
                  (\<lambda>_. failS (fatalRecordError ''rand.Read failed''))) (\<lambda>iv.
         bindS (catchS (liftS (cbc_newCipher p (cbc_encKey p)))
                  (\<lambda>_. failS (fatalRecordError ''cipher init''))) (\<lambda>block.
         bindS (liftS (CBCEncrypt block iv buf)) (\<lambda>buf.
         returnS (iv @ buf)))))"

definition cbcHMACProtector_Open ::
  "cbcHMACProtector \<Rightarrow> u64 \<Rightarrow> bytes \<Rightarrow> bytes \<Rightarrow> bytes res" where
  "cbcHMACProtector_Open p seq hdr fragment =
     (if length fragment < cbc_blockSize p + cbc_macSize p + 1 then
        Inl (NewFatalAlertError AlertBadRecordMAC)
      else if length fragment mod cbc_blockSize p \<noteq> 0 then
        Inl (NewFatalAlertError AlertBadRecordMAC)
      else
        let iv = take (cbc_blockSize p) fragment; ciphertext = drop (cbc_blockSize p) fragment
        in case cbc_newCipher p (cbc_encKey p) of
             Inl _ \<Rightarrow> Inl (fatalRecordError ''cipher init'')
           | Inr block \<Rightarrow>
             bindR (CBCDecrypt block iv ciphertext) (\<lambda>plain.
             let (toRemove, paddingGood) = extractCBCPadding plain;
                 rawN = int (length plain) - int (cbc_macSize p) - int toRemove;
                 n = ConstantTimeSelect (unat (drop_bit cbcSignShift32 (word_of_int rawN :: u32))) 0 rawN
             in if n < 0 \<or> nat n + cbc_macSize p > length plain then
                  Inl (Panic ''slice bounds out of range'')
                else
                  let n = nat n;
                      gotMAC = slice n (n + cbc_macSize p) plain;
                      expectedMAC = computeMAC p seq hdr (take n plain) (drop (n + cbc_macSize p) plain)
                  in if and (ConstantTimeCompare gotMAC expectedMAC) (unat paddingGood) \<noteq> 1 then
                       Inl (NewFatalAlertError AlertBadRecordMAC)
                     else Inr (take n plain)))"

section \<open>AES-GCM\<close>

record aeadProtector =
  ap_aead :: AEAD
  ap_salt :: bytes

definition NewAEADProtector :: "('x) rcrypto_scheme \<Rightarrow> bytes \<Rightarrow> bytes \<Rightarrow> aeadProtector res" where
  "NewAEADProtector X key salt =
     guardR (length salt \<noteq> aeadSaltLen) (fatalRecordError ''AEAD salt must be exactly 4 bytes'') (
     bindR (aes_NewCipher X key) (\<lambda>block.
     bindR (cipher_NewGCM X block) (\<lambda>aead.
     Inr \<lparr>ap_aead = aead, ap_salt = salt\<rparr>)))"

definition aead_buildNonce :: "aeadProtector \<Rightarrow> bytes \<Rightarrow> bytes" where
  "aead_buildNonce p explicit = ap_salt p @ explicit"

definition aeadProtector_Seal :: "aeadProtector \<Rightarrow> u64 \<Rightarrow> bytes \<Rightarrow> bytes \<Rightarrow> bytes res" where
  "aeadProtector_Seal p seq hdr plain =
     (let explicitNonce = put64 seq;
          nonce = aead_buildNonce p explicitNonce;
          ad = buildAD seq hdr (length plain);
          ciphertext = aead_Seal (ap_aead p) nonce plain ad
      in Inr (explicitNonce @ ciphertext))"

definition aeadProtector_Open :: "aeadProtector \<Rightarrow> u64 \<Rightarrow> bytes \<Rightarrow> bytes \<Rightarrow> bytes res" where
  "aeadProtector_Open p seq hdr fragment =
     (let tagSize = aead_Overhead (ap_aead p)
      in if length fragment < aeadExplicitNonceLen + tagSize then
           Inl (NewFatalAlertError AlertBadRecordMAC)
         else
           let explicitNonce = take aeadExplicitNonceLen fragment;
               ciphertext = drop aeadExplicitNonceLen fragment;
               plainLen = length ciphertext - tagSize;
               nonce = aead_buildNonce p explicitNonce;
               ad = buildAD seq hdr plainLen
           in case aead_Open (ap_aead p) nonce ciphertext ad of
                None \<Rightarrow> Inl (NewFatalAlertError AlertBadRecordMAC)
              | Some plain \<Rightarrow> Inr plain)"

section \<open>ChaCha20-Poly1305\<close>

record chacha20Poly1305Protector =
  cp_aead :: AEAD
  cp_iv :: bytes

definition NewChaCha20Poly1305Protector ::
  "('x) rcrypto_scheme \<Rightarrow> bytes \<Rightarrow> bytes \<Rightarrow> chacha20Poly1305Protector res" where
  "NewChaCha20Poly1305Protector X key iv =
     guardR (length key \<noteq> 32) (fatalRecordError ''ChaCha20-Poly1305 key must be 32 bytes'') (
     guardR (length iv \<noteq> 12) (fatalRecordError ''ChaCha20-Poly1305 iv must be 12 bytes'') (
     bindR (chacha20poly1305_New X key) (\<lambda>aead.
     Inr \<lparr>cp_aead = aead, cp_iv = iv\<rparr>)))"

definition chacha_buildNonce :: "chacha20Poly1305Protector \<Rightarrow> u64 \<Rightarrow> bytes" where
  "chacha_buildNonce p seq = xorb (replicate 4 0 @ put64 seq) (cp_iv p)"

definition chacha20Poly1305Protector_Seal ::
  "chacha20Poly1305Protector \<Rightarrow> u64 \<Rightarrow> bytes \<Rightarrow> bytes \<Rightarrow> bytes res" where
  "chacha20Poly1305Protector_Seal p seq hdr plain =
     (let nonce = chacha_buildNonce p seq;
          ad = buildAD seq hdr (length plain)
      in Inr (aead_Seal (cp_aead p) nonce plain ad))"

definition chacha20Poly1305Protector_Open ::
  "chacha20Poly1305Protector \<Rightarrow> u64 \<Rightarrow> bytes \<Rightarrow> bytes \<Rightarrow> bytes res" where
  "chacha20Poly1305Protector_Open p seq hdr fragment =
     (let tagSize = aead_Overhead (cp_aead p)
      in if length fragment < tagSize then Inl (NewFatalAlertError AlertBadRecordMAC)
         else
           let plainLen = length fragment - tagSize;
               nonce = chacha_buildNonce p seq;
               ad = buildAD seq hdr plainLen
           in case aead_Open (cp_aead p) nonce fragment ad of
                None \<Rightarrow> Inl (NewFatalAlertError AlertBadRecordMAC)
              | Some plain \<Rightarrow> Inr plain)"

section \<open>The padding check\<close>


lemma signMask_bit: "signMask t = (if bit t 31 then 0 else - 1)"
proof (rule bit_word_eqI)
  fix n assume "n < LENGTH(8)"
  then have n: "n < 8" by simp
  show "bit (signMask t) n = bit (if bit t 31 then 0 else - 1 :: byte) n"
    using n by (cases "n = 0") (simp_all add: signMask_def cbc_const_defs bit_signed_drop_bit_iff bit_ucast_iff bit_not_iff)
qed

lemma bit_of_nat_small: "n < 2 ^ 31 \<Longrightarrow> \<not> bit (of_nat n :: u64) 31"
  by (simp add: bit_of_nat_iff bit_iff_odd [where ?'a = nat])

lemma bit31_diff:
  assumes "a < 2 ^ 31" "b < 2 ^ 31"
  shows "bit (of_nat a - of_nat b :: u64) 31 \<longleftrightarrow> a < b"
proof (cases "a < b")
  case True
  then have "NOT (of_nat a - of_nat b :: u64) = of_nat (b - a - 1)"
    by (simp add: not_eq_complement of_nat_diff)
  moreover have "\<not> bit (of_nat (b - a - 1) :: u64) 31"
    using assms by (intro bit_of_nat_small) simp
  moreover have "bit (of_nat a - of_nat b :: u64) 31 \<longleftrightarrow> \<not> bit (NOT (of_nat a - of_nat b :: u64)) 31"
    by (simp add: bit_not_iff)
  ultimately show ?thesis using True by metis
next
  case False
  then have "(of_nat a - of_nat b :: u64) = of_nat (a - b)"
    by (simp add: of_nat_diff)
  moreover have "\<not> bit (of_nat (a - b) :: u64) 31"
    using assms by (intro bit_of_nat_small) simp
  ultimately show ?thesis using False by metis
qed

lemma ucast_byte_of_nat: "(ucast (b :: byte) :: u64) = of_nat (unat b)"
  by simp

lemma all_less_8:
  "(\<forall>i<(8::nat). P i) \<longleftrightarrow> P 0 \<and> P 1 \<and> P 2 \<and> P 3 \<and> P 4 \<and> P 5 \<and> P 6 \<and> P 7"
  by (simp add: numeral_eq_Suc All_less_Suc) blast

lemma fold_good:
  fixes g :: byte
  defines "g1 \<equiv> g AND push_bit 4 g"
  defines "g2 \<equiv> g1 AND push_bit 2 g1"
  defines "g3 \<equiv> g2 AND push_bit 1 g2"
  shows "signed_drop_bit 7 g3 = (if g = - 1 then - 1 else 0)"
proof -
  have top: "bit g3 7 \<longleftrightarrow> (\<forall>i<8. bit g i)"
    unfolding all_less_8 g3_def g2_def g1_def
    by (simp only: bit_and_iff bit_push_bit_iff possible_bit_word) auto
  have "g = - 1 \<longleftrightarrow> (\<forall>i<8. bit g i)"
    by (auto simp: bit_eq_iff)
  moreover have "signed_drop_bit 7 g3 = (if bit g3 7 then - 1 else 0)"
    by (rule bit_word_eqI) (auto simp: bit_signed_drop_bit_iff not_le less_Suc_eq)
  ultimately show ?thesis using top by simp
qed

lemma and_not_all: "(g AND NOT b :: byte) = - 1 \<longleftrightarrow> g = - 1 \<and> b = 0"
  by (auto simp: bit_eq_iff bit_and_iff bit_not_iff)

lemma xor_zero: "(a XOR b :: byte) = 0 \<longleftrightarrow> a = b"
  by (auto simp: bit_eq_iff bit_xor_iff)

lemma extractCBCPadding_step_all:
  assumes "i < 256"
  shows "extractCBCPadding_step payload p g i = - 1 \<longleftrightarrow>
    g = - 1 \<and> (i \<le> unat p \<longrightarrow> payload ! (length payload - 1 - i) = p)"
proof -
  have "unat p < 2 ^ 31" by (rule less_trans [OF unat_byte_lt]) simp
  then have "bit (of_nat (unat p) - of_nat i :: u64) 31 \<longleftrightarrow> unat p < i"
    using assms by (intro bit31_diff) simp_all
  then have "signMask (ucast p - of_nat i) = (if i \<le> unat p then - 1 else 0)"
    by (simp add: signMask_bit not_le)
  then show ?thesis
    by (auto simp: extractCBCPadding_step_def Let_def and_not_all xor_zero)
qed

lemma extractCBCPadding_loop:
  "\<forall>i \<in> set is. i < 256 \<Longrightarrow>
   foldl (extractCBCPadding_step payload p) g is = - 1 \<longleftrightarrow>
     g = - 1 \<and> (\<forall>i \<in> set is. i \<le> unat p \<longrightarrow> payload ! (length payload - 1 - i) = p)"
  by (induction "is" arbitrary: g) (auto simp: extractCBCPadding_step_all)

definition cbc_padding_ok :: "bytes \<Rightarrow> bool" where
  "cbc_padding_ok payload \<longleftrightarrow>
     payload \<noteq> [] \<and> unat (last payload) < length payload \<and>
     drop (length payload - 1 - unat (last payload)) payload
       = replicate (unat (last payload) + 1) (last payload)"

lemma padding_tail_nth:
  assumes "p < length xs"
  shows "drop (length xs - 1 - p) xs = replicate (p + 1) v \<longleftrightarrow> (\<forall>i \<le> p. xs ! (length xs - 1 - i) = v)"
proof
  assume d: "drop (length xs - 1 - p) xs = replicate (p + 1) v"
  show "\<forall>i \<le> p. xs ! (length xs - 1 - i) = v"
  proof (intro allI impI)
    fix i assume i: "i \<le> p"
    have "xs ! (length xs - 1 - i) = drop (length xs - 1 - p) xs ! (p - i)"
      using i assms by (simp add: nth_drop)
    also have "\<dots> = v" unfolding d using i by (simp del: replicate.simps)
    finally show "xs ! (length xs - 1 - i) = v" .
  qed
next
  assume v: "\<forall>i \<le> p. xs ! (length xs - 1 - i) = v"
  show "drop (length xs - 1 - p) xs = replicate (p + 1) v"
  proof (rule nth_equalityI)
    show "length (drop (length xs - 1 - p) xs) = length (replicate (p + 1) v)"
      using assms by simp
    fix j assume "j < length (drop (length xs - 1 - p) xs)"
    then have j: "j \<le> p" using assms by simp
    have "xs ! (length xs - 1 - (p - j)) = v" using v by simp
    moreover have "length xs - 1 - (p - j) = length xs - 1 - p + j" using j assms by simp
    ultimately show "drop (length xs - 1 - p) xs ! j = replicate (p + 1) v ! j"
      using j assms by (simp add: nth_drop del: replicate.simps)
  qed
qed

lemma extractCBCPadding_eq:
  assumes "payload \<noteq> []" "length payload \<le> 2 ^ 31"
  shows "extractCBCPadding payload =
    (unat (last payload) + 1, if cbc_padding_ok payload then - 1 else 0)"
proof -
  let ?p = "last payload" and ?n = "length payload"
  let ?init = "signMask (of_nat (?n - 1) - ucast ?p)"
  let ?g = "foldl (extractCBCPadding_step payload ?p) ?init [0..<min 256 ?n]"
  have last: "payload ! (?n - 1) = ?p" using assms(1) by (simp add: last_conv_nth)
  have up: "unat ?p < 2 ^ 31" by (rule less_trans [OF unat_byte_lt]) simp
  have nlt: "?n - 1 < unat ?p \<longleftrightarrow> \<not> unat ?p < ?n"
    using assms(1) by (simp only: length_greater_0_conv [symmetric]) linarith
  have "?n - 1 < 2 ^ 31" using assms by (cases payload) auto
  from this up have "bit (of_nat (?n - 1) - of_nat (unat ?p) :: u64) 31 \<longleftrightarrow> ?n - 1 < unat ?p"
    by (rule bit31_diff)
  then have g0: "?init = - 1 \<longleftrightarrow> unat ?p < ?n"
    using nlt by (simp add: signMask_bit)
  have "?g = - 1 \<longleftrightarrow> ?init = - 1 \<and> (\<forall>i \<in> set [0..<min 256 ?n]. i \<le> unat ?p \<longrightarrow> payload ! (?n - 1 - i) = ?p)"
    by (rule extractCBCPadding_loop) simp
  also have "\<dots> \<longleftrightarrow> unat ?p < ?n \<and> (\<forall>i \<le> unat ?p. payload ! (?n - 1 - i) = ?p)"
    unfolding g0 using le_less_trans [OF _ unat_byte_lt] by auto
  also have "\<dots> \<longleftrightarrow> cbc_padding_ok payload"
    using padding_tail_nth [of "unat ?p" payload ?p] assms(1) by (auto simp: cbc_padding_ok_def)
  finally have g: "?g = - 1 \<longleftrightarrow> cbc_padding_ok payload" .
  have "extractCBCPadding payload = (unat ?p + 1, if ?g = - 1 then - 1 else 0)"
    using assms(1)
    unfolding extractCBCPadding_def Let_def cbc_const_defs last fold_good
    by (simp only: length_0_conv less_one if_False)
  then show ?thesis using g by simp
qed

section \<open>The interface\<close>

text \<open>
  A sender state and a receiver state are \<open>peer\<close>s when they hold the same keys and have
  processed the same records.  What a peer sealed opens to the same plaintext, under any header
  with the same type and version bytes, and leaves the two ends peers again; the expansion stays
  within the 2048 bytes RFC 5246 allows.
\<close>

type_synonym 'p sealer = "'p \<Rightarrow> reader \<Rightarrow> u64 \<Rightarrow> bytes \<Rightarrow> bytes \<Rightarrow> bytes res \<times> 'p \<times> reader"
type_synonym 'p opener = "'p \<Rightarrow> u64 \<Rightarrow> bytes \<Rightarrow> bytes \<Rightarrow> bytes res \<times> 'p"

fun seal_all :: "'p sealer \<Rightarrow> 'p \<Rightarrow> reader \<Rightarrow> u64 \<Rightarrow> (bytes \<times> bytes) list \<Rightarrow> bytes list res \<times> 'p \<times> reader" where
  "seal_all seal p rnd seq [] = (Inr [], p, rnd)"
| "seal_all seal p rnd seq ((hdr, plain) # ms) =
     (case seal p rnd seq hdr plain of
        (Inl e, p', rnd') \<Rightarrow> (Inl e, p', rnd')
      | (Inr frag, p', rnd') \<Rightarrow>
          (case seal_all seal p' rnd' (seq + 1) ms of
             (Inl e, p'', rnd'') \<Rightarrow> (Inl e, p'', rnd'')
           | (Inr frags, p'', rnd'') \<Rightarrow> (Inr (frag # frags), p'', rnd'')))"

fun open_all :: "'p opener \<Rightarrow> 'p \<Rightarrow> u64 \<Rightarrow> (bytes \<times> bytes) list \<Rightarrow> bytes list res \<times> 'p" where
  "open_all op p seq [] = (Inr [], p)"
| "open_all op p seq ((hdr, frag) # ms) =
     (case op p seq hdr frag of
        (Inl e, p') \<Rightarrow> (Inl e, p')
      | (Inr plain, p') \<Rightarrow>
          (case open_all op p' (seq + 1) ms of
             (Inl e, p'') \<Rightarrow> (Inl e, p'')
           | (Inr plains, p'') \<Rightarrow> (Inr (plain # plains), p'')))"

locale protector =
  fixes seal :: "'p sealer"
    and opn :: "'p opener"
    and peer :: "'p \<Rightarrow> 'p \<Rightarrow> bool"
  assumes open_seal:
    "peer s r \<Longrightarrow> length plain \<le> 16384 \<Longrightarrow> length hdr = 5 \<Longrightarrow> length hdr' = 5 \<Longrightarrow>
     take 3 hdr' = take 3 hdr \<Longrightarrow> seal s rnd seq hdr plain = (Inr frag, s', rnd') \<Longrightarrow>
     \<exists>r'. opn r seq hdr' frag = (Inr plain, r') \<and> peer s' r'"
    and expansion:
    "peer s r \<Longrightarrow> length plain \<le> 16384 \<Longrightarrow> seal s rnd seq hdr plain = (Inr frag, s', rnd') \<Longrightarrow>
     length frag \<le> length plain + 2048"
begin

lemma open_all_seal_all:
  assumes "peer s r" "\<forall>(hdr, plain) \<in> set ms. length hdr = 5 \<and> length plain \<le> 16384"
    and "seal_all seal s rnd seq ms = (Inr frags, s', rnd')"
  shows "\<exists>r'. open_all opn r seq (zip (map fst ms) frags) = (Inr (map snd ms), r') \<and> peer s' r'"
  using assms
proof (induction ms arbitrary: s r rnd seq frags)
  case (Cons m ms)
  obtain hdr plain where m: "m = (hdr, plain)" by (cases m)
  from Cons.prems(3) m obtain frag s1 rnd1 fs where
    s1: "seal s rnd seq hdr plain = (Inr frag, s1, rnd1)" and
    fs: "seal_all seal s1 rnd1 (seq + 1) ms = (Inr fs, s', rnd')" "frags = frag # fs"
    by (auto split: prod.splits sum.splits)
  have len: "length plain \<le> 16384" "length hdr = 5" using Cons.prems(2) m by auto
  obtain r1 where r1: "opn r seq hdr frag = (Inr plain, r1)" "peer s1 r1"
    using open_seal [OF Cons.prems(1) len len(2) refl s1] by blast
  obtain r' where "open_all opn r1 (seq + 1) (zip (map fst ms) fs) = (Inr (map snd ms), r')" "peer s' r'"
    using Cons.IH [OF r1(2) _ fs(1)] Cons.prems(2) by auto
  then show ?case using m r1 fs by auto
qed auto

end

section \<open>CBC round trip\<close>

definition cbc_ok :: "cbcHMACProtector \<Rightarrow> bool" where
  "cbc_ok p \<longleftrightarrow> hash_ok (cbc_newHash p) \<and> cbc_macSize p = h_Size (cbc_newHash p) \<and> cbc_macSize p \<le> 1024 \<and>
     (case cbc_newCipher p (cbc_encKey p) of
        Inl _ \<Rightarrow> False
      | Inr b \<Rightarrow> blk_ok b \<and> blk_BlockSize b = cbc_blockSize p \<and> cbc_blockSize p \<le> 255)"

definition cbc_padLen :: "cbcHMACProtector \<Rightarrow> bytes \<Rightarrow> nat" where
  "cbc_padLen p plain =
     cbc_blockSize p - (length plain + cbc_macSize p + 1) mod cbc_blockSize p"

definition cbc_padded :: "cbcHMACProtector \<Rightarrow> u64 \<Rightarrow> bytes \<Rightarrow> bytes \<Rightarrow> bytes" where
  "cbc_padded p seq hdr plain =
     plain @ computeMAC p seq hdr plain [] @ replicate (cbc_padLen p plain + 1) (of_nat (cbc_padLen p plain))"

lemma cbc_okE:
  assumes "cbc_ok p"
  obtains b where "cbc_newCipher p (cbc_encKey p) = Inr b" "blk_ok b"
    "blk_BlockSize b = cbc_blockSize p" "0 < cbc_blockSize p" "cbc_blockSize p \<le> 255"
  using assms by (auto simp: cbc_ok_def blk_ok_def split: sum.splits)

lemma computeMAC_length: "cbc_ok p \<Longrightarrow> length (computeMAC p seq hdr f e) = cbc_macSize p"
  by (simp add: cbc_ok_def computeMAC_def Let_def length_hmac)

lemma cbc_padded_length:
  assumes "cbc_ok p"
  shows "length (cbc_padded p seq hdr plain) = length plain + cbc_macSize p + cbc_padLen p plain + 1"
    and "length (cbc_padded p seq hdr plain) mod cbc_blockSize p = 0"
    and "cbc_padLen p plain \<le> 255"
proof -
  have b: "0 < cbc_blockSize p" "cbc_blockSize p \<le> 255"
    using assms by (auto elim: cbc_okE)
  from assms show len: "length (cbc_padded p seq hdr plain) = length plain + cbc_macSize p + cbc_padLen p plain + 1"
    by (simp add: cbc_padded_def computeMAC_length)
  let ?k = "cbc_blockSize p" and ?c = "length plain + cbc_macSize p + 1"
  have "?c + (?k - ?c mod ?k) = ?c div ?k * ?k + ?k"
    using div_mult_mod_eq [of ?c ?k] mod_less_divisor [OF b(1), of ?c] by linarith
  then show "length (cbc_padded p seq hdr plain) mod ?k = 0"
    unfolding len cbc_padLen_def by (simp add: add.assoc add.left_commute)
  show "cbc_padLen p plain \<le> 255" using b by (simp add: cbc_padLen_def)
qed

lemma cbcHMACProtector_Seal_eq:
  assumes "cbc_ok p" "cbc_newCipher p (cbc_encKey p) = Inr b"
  shows "cbcHMACProtector_Seal p seq hdr plain rnd =
    (case ReadFull (cbc_blockSize p) rnd of
       (Inl e, rnd') \<Rightarrow> (Inl (fatalRecordError ''rand.Read failed''), rnd')
     | (Inr iv, rnd') \<Rightarrow> (Inr (iv @ cbc_enc b iv (cbc_padded p seq hdr plain)), rnd'))"
proof -
  have k: "blk_BlockSize b = cbc_blockSize p" "0 < cbc_blockSize p"
    using assms by (auto simp: cbc_ok_def blk_ok_def)
  have pad: "nat (if int (cbc_blockSize p) - int ((length plain + cbc_macSize p + 1) mod cbc_blockSize p) < 0
       then int (cbc_blockSize p) - int ((length plain + cbc_macSize p + 1) mod cbc_blockSize p) + int (cbc_blockSize p)
       else int (cbc_blockSize p) - int ((length plain + cbc_macSize p + 1) mod cbc_blockSize p)) = cbc_padLen p plain"
    using mod_less_divisor [OF k(2), of "length plain + cbc_macSize p + 1"]
    by (simp add: cbc_padLen_def)
  have buf: "cbcHMACProtector_Seal p seq hdr plain =
      bindS (catchS (ReadFull (cbc_blockSize p)) (\<lambda>_. failS (fatalRecordError ''rand.Read failed''))) (\<lambda>iv.
      bindS (catchS (liftS (cbc_newCipher p (cbc_encKey p))) (\<lambda>_. failS (fatalRecordError ''cipher init''))) (\<lambda>block.
      bindS (liftS (CBCEncrypt block iv (cbc_padded p seq hdr plain))) (\<lambda>buf. returnS (iv @ buf))))"
    unfolding cbcHMACProtector_Seal_def Let_def pad cbc_padded_def ..
  show ?thesis
  proof (cases "ReadFull (cbc_blockSize p) rnd")
    case (Pair res rnd')
    show ?thesis
    proof (cases res)
      case (Inl e)
      with Pair show ?thesis by (simp add: buf bindS_def)
    next
      case (Inr iv)
      then have "length iv = cbc_blockSize p" using Pair ReadFull_Inr by blast
      then have "CBCEncrypt b iv (cbc_padded p seq hdr plain) = Inr (cbc_enc b iv (cbc_padded p seq hdr plain))"
        using cbc_padded_length(2) [OF assms(1)] k by (simp add: CBCEncrypt_def)
      with Pair Inr assms(2) show ?thesis by (simp add: buf bindS_def catchS_def)
    qed
  qed
qed

lemma cbcHMACProtector_Seal_Inr:
  assumes "cbc_ok p" "cbc_newCipher p (cbc_encKey p) = Inr b"
    "cbcHMACProtector_Seal p seq hdr plain rnd = (Inr frag, rnd')"
  obtains iv where "length iv = cbc_blockSize p" "frag = iv @ cbc_enc b iv (cbc_padded p seq hdr plain)"
proof -
  obtain r rnd1 where r: "ReadFull (cbc_blockSize p) rnd = (r, rnd1)" by (cases "ReadFull (cbc_blockSize p) rnd")
  with assms(3) obtain iv where "r = Inr iv" "frag = iv @ cbc_enc b iv (cbc_padded p seq hdr plain)"
    unfolding cbcHMACProtector_Seal_eq [OF assms(1,2)] by (cases r) simp_all
  with r that ReadFull_Inr show thesis by blast
qed

lemma extractCBCPadding_padded:
  assumes "cbc_ok p" "length plain \<le> 16384"
  shows "extractCBCPadding (cbc_padded p seq hdr plain) = (cbc_padLen p plain + 1, - 1)"
proof -
  let ?b = "cbc_padded p seq hdr plain" and ?l = "cbc_padLen p plain"
  note len = cbc_padded_length [OF assms(1)]
  have last: "last ?b = of_nat ?l" by (simp add: cbc_padded_def)
  have ul: "unat (of_nat ?l :: byte) = ?l" using len(3) [of plain] by (intro unat_of_nat_byte) simp
  have "?b \<noteq> []" by (simp add: cbc_padded_def)
  moreover have "length ?b \<le> 2 ^ 31"
    using assms len(1) [of seq hdr plain] len(3) [of plain] by (simp add: cbc_ok_def)
  moreover have "cbc_padding_ok ?b"
    using len(1) [of seq hdr plain] last ul by (simp add: cbc_padding_ok_def) (simp add: cbc_padded_def)
  ultimately show ?thesis by (simp add: extractCBCPadding_eq last ul)
qed

lemma sign_bit_small:
  assumes "n < 2 ^ 31"
  shows "unat (drop_bit 31 (word_of_int (int n) :: u32)) = 0"
proof -
  have "unat (of_nat n :: u32) < 2 ^ 31"
    using assms by (simp add: unat_of_nat)
  then have "unat (drop_bit 31 (of_nat n :: u32)) = 0"
    by (simp only: unat_drop_bit_eq) (simp add: drop_bit_eq_div)
  then show ?thesis by simp
qed

lemma unat_minus_one_byte: "unat (- 1 :: byte) = 255"
  by (simp add: unsigned_minus_1_eq_mask mask_eq_exp_minus_1)

lemma computeMAC_cong:
  "take 3 hdr' = take 3 hdr \<Longrightarrow> computeMAC p seq hdr' f e = computeMAC p seq hdr f e'"
  by (simp add: computeMAC_def macAdditionalData_def)

lemma cbc_Open_Seal:
  assumes ok: "cbc_ok p" and len: "length plain \<le> 16384" and hdr: "take 3 hdr' = take 3 hdr"
    and seal: "cbcHMACProtector_Seal p seq hdr plain rnd = (Inr frag, rnd')"
  shows "cbcHMACProtector_Open p seq hdr' frag = Inr plain"
    and "length frag \<le> length plain + 2048"
proof -
  obtain b where b: "cbc_newCipher p (cbc_encKey p) = Inr b" "blk_ok b"
    "blk_BlockSize b = cbc_blockSize p" "0 < cbc_blockSize p" "cbc_blockSize p \<le> 255"
    by (rule cbc_okE [OF ok])
  let ?k = "cbc_blockSize p" and ?m = "cbc_macSize p"
  let ?buf = "cbc_padded p seq hdr plain" and ?l = "cbc_padLen p plain"
  note pl = cbc_padded_length [OF ok]
  obtain iv where iv: "length iv = ?k" and frag: "frag = iv @ cbc_enc b iv ?buf"
    by (rule cbcHMACProtector_Seal_Inr [OF ok b(1) seal])
  have enc: "length (cbc_enc b iv ?buf) = length ?buf"
    using cbc_enc_length [OF b(2), of iv ?buf] iv b(3) pl(2) by simp
  have dec: "CBCDecrypt b iv (cbc_enc b iv ?buf) = Inr ?buf"
    using cbc_dec_enc [OF b(2), of iv ?buf] iv b(3) pl(2) enc by (simp add: CBCDecrypt_def)
  have rawN: "int (length ?buf) - int ?m - int (?l + 1) = int (length plain)"
    using pl(1) [of seq hdr plain] by simp
  have sel: "ConstantTimeSelect (unat (drop_bit cbcSignShift32 (word_of_int (int (length plain)) :: u32)))
      0 (int (length plain)) = int (length plain)"
    using sign_bit_small [of "length plain"] len
    by (simp add: ConstantTimeSelect_def cbc_const_defs)
  have mac: "slice (length plain) (length plain + ?m) ?buf = computeMAC p seq hdr plain []"
    by (simp add: slice_def cbc_padded_def computeMAC_length [OF ok])
  have tk: "take (length plain) ?buf = plain" by (simp add: cbc_padded_def)
  have "length frag = ?k + length ?buf" using frag iv enc by simp
  then have l1: "\<not> length frag < ?k + ?m + 1" and l2: "length frag mod ?k = 0"
    using pl(1) [of seq hdr plain] pl(2) [of seq hdr plain] by (simp, simp only: mod_add_self1)
  show "cbcHMACProtector_Open p seq hdr' frag = Inr plain"
    unfolding cbcHMACProtector_Open_def
    using l1 l2 frag iv b(1) dec pl(1) [of seq hdr plain]
    by (simp add: extractCBCPadding_padded [OF ok len] Let_def rawN [simplified] sel [simplified] mac tk
        unat_minus_one_byte computeMAC_cong [OF hdr, of _ _ _ _ "[]"] ConstantTimeCompare_def)
  show "length frag \<le> length plain + 2048"
    using pl(1) [of seq hdr plain] pl(3) [of plain] frag enc iv b(5) ok by (simp add: cbc_ok_def)
qed

definition cbc_sealer :: "cbcHMACProtector sealer" where
  "cbc_sealer p rnd seq hdr plain =
     (case cbcHMACProtector_Seal p seq hdr plain rnd of (res, rnd') \<Rightarrow> (res, p, rnd'))"

definition pure_sealer :: "('p \<Rightarrow> u64 \<Rightarrow> bytes \<Rightarrow> bytes \<Rightarrow> bytes res) \<Rightarrow> 'p sealer" where
  "pure_sealer f p rnd seq hdr plain = (f p seq hdr plain, p, rnd)"

definition pure_opener :: "('p \<Rightarrow> u64 \<Rightarrow> bytes \<Rightarrow> bytes \<Rightarrow> bytes res) \<Rightarrow> 'p opener" where
  "pure_opener f p seq hdr frag = (f p seq hdr frag, p)"

interpretation cbc: protector cbc_sealer "pure_opener cbcHMACProtector_Open"
  "\<lambda>s r. s = r \<and> cbc_ok s"
  by unfold_locales
     (auto simp: cbc_sealer_def pure_opener_def dest: cbc_Open_Seal split: prod.splits)

section \<open>AEAD round trips\<close>

lemma aead_Open_Seal:
  assumes "aead_ok (ap_aead p)" "take 3 hdr' = take 3 hdr"
    "aeadProtector_Seal p seq hdr plain = Inr frag"
  shows "aeadProtector_Open p seq hdr' frag = Inr plain" "length frag \<le> length plain + 2048"
  using assms
  by (auto simp: aeadProtector_Seal_def aeadProtector_Open_def aead_ok_def buildAD_def Let_def
      prot_size_defs split: option.splits)

lemma chacha_Open_Seal:
  assumes "aead_ok (cp_aead p)" "take 3 hdr' = take 3 hdr"
    "chacha20Poly1305Protector_Seal p seq hdr plain = Inr frag"
  shows "chacha20Poly1305Protector_Open p seq hdr' frag = Inr plain" "length frag \<le> length plain + 2048"
  using assms
  by (auto simp: chacha20Poly1305Protector_Seal_def chacha20Poly1305Protector_Open_def aead_ok_def
      buildAD_def Let_def split: option.splits)

interpretation aead: protector "pure_sealer aeadProtector_Seal" "pure_opener aeadProtector_Open"
  "\<lambda>s r. s = r \<and> aead_ok (ap_aead s)"
  by unfold_locales (auto simp: pure_sealer_def pure_opener_def dest: aead_Open_Seal)

interpretation chacha: protector "pure_sealer chacha20Poly1305Protector_Seal"
  "pure_opener chacha20Poly1305Protector_Open" "\<lambda>s r. s = r \<and> aead_ok (cp_aead s)"
  by unfold_locales (auto simp: pure_sealer_def pure_opener_def dest: chacha_Open_Seal)

interpretation null: protector "pure_sealer (\<lambda>_::unit. nullProtector_Seal)"
  "pure_opener (\<lambda>_::unit. nullProtector_Open)" "\<lambda>_ _. True"
  by unfold_locales
     (auto simp: pure_sealer_def pure_opener_def nullProtector_Seal_def nullProtector_Open_def)

section \<open>What \<open>Open\<close> accepts in the CBC case\<close>

lemma cbc_dec_length:
  assumes "blk_ok b" "length iv = blk_BlockSize b" "length src mod blk_BlockSize b = 0"
  shows "length (cbc_dec b iv src) = length src"
  using assms(2,3)
proof (induction "length src" arbitrary: iv src rule: less_induct)
  case less
  let ?n = "blk_BlockSize b"
  have pos: "0 < ?n" using assms(1) by (simp add: blk_ok_def)
  show ?case
  proof (cases "src = []")
    case False
    then have fb: "?n \<le> length src" "(length src - ?n) mod ?n = 0"
      using full_blocks_step less.prems(2) by auto
    let ?c = "take ?n src"
    have c: "length (blk_Decrypt b ?c) = ?n" "length ?c = ?n"
      using assms(1) fb(1) by (simp_all add: blk_ok_def)
    have "length (cbc_dec b ?c (drop ?n src)) = length (drop ?n src)"
      using less.hyps [of "drop ?n src" ?c] c fb pos by simp
    then show ?thesis
      using False pos c fb(1) less.prems(1) by (subst cbc_dec.simps) (simp add: Let_def)
  qed (simp add: cbc_dec.simps)
qed

text \<open>The decision without the constant-time selections.  Subtraction on \<open>nat\<close> is truncated, as the
  code clamps: when the padding leaves no room for the MAC, the content is taken to be empty.\<close>

definition cbc_open_clamped :: "cbcHMACProtector \<Rightarrow> Block \<Rightarrow> u64 \<Rightarrow> bytes \<Rightarrow> bytes \<Rightarrow> bytes res" where
  "cbc_open_clamped p b seq hdr fragment =
     (let plain = cbc_dec b (take (cbc_blockSize p) fragment) (drop (cbc_blockSize p) fragment);
          n = length plain - cbc_macSize p - (unat (last plain) + 1)
      in if cbc_blockSize p + cbc_macSize p + 1 \<le> length fragment
            \<and> length fragment mod cbc_blockSize p = 0
            \<and> cbc_padding_ok plain
            \<and> slice n (n + cbc_macSize p) plain = computeMAC p seq hdr (take n plain) []
         then Inr (take n plain)
         else Inl (NewFatalAlertError AlertBadRecordMAC))"

lemma sign_select:
  assumes "- (2 ^ 31) \<le> r" "r < 2 ^ 31"
  shows "ConstantTimeSelect (unat (drop_bit 31 (word_of_int r :: u32))) 0 r = max 0 r"
proof (cases "0 \<le> r")
  case True
  then obtain n where n: "r = int n" by (metis nonneg_int_cases)
  then have n31: "n < 2 ^ 31" using assms(2) by simp
  show ?thesis using sign_bit_small [OF n31] n by (simp add: ConstantTimeSelect_def)
next
  case False
  have "uint (word_of_int r :: u32) = r mod 2 ^ 32"
    by (simp add: uint_word_of_int)
  also have "\<dots> = (r + 2 ^ 32) mod 2 ^ 32"
    by simp
  also have "\<dots> = r + 2 ^ 32"
    using assms False by (intro mod_pos_pos_trivial) simp_all
  finally have "unat (word_of_int r :: u32) = nat (r + 2 ^ 32)"
    by (simp only: unat_eq_nat_uint)
  moreover have "nat (r + 2 ^ 32) div 2 ^ 31 = 1"
    using assms False by (intro div_nat_eqI) simp_all
  ultimately have "unat (drop_bit 31 (word_of_int r :: u32)) = 1"
    by (simp only: unat_drop_bit_eq) (simp add: drop_bit_eq_div)
  then show ?thesis using False by (simp add: ConstantTimeSelect_def)
qed

lemma sign_select_nat:
  assumes "L \<le> 2 ^ 31" "m + r \<le> 2 ^ 31" "0 < r"
  shows "ConstantTimeSelect (unat (drop_bit cbcSignShift32 (word_of_int (int L - int m - int r) :: u32)))
    0 (int L - int m - int r) = int (L - m - r)"
proof -
  have "ConstantTimeSelect (unat (drop_bit 31 (word_of_int (int L - int m - int r) :: u32)))
    0 (int L - int m - int r) = max 0 (int L - int m - int r)"
    using assms by (intro sign_select) simp_all
  then show ?thesis by (simp add: cbc_const_defs)
qed

lemma cbc_Open_eq_clamped:
  assumes ok: "cbc_ok p" and b: "cbc_newCipher p (cbc_encKey p) = Inr b"
    and len: "length fragment \<le> 2 ^ 31"
  shows "cbcHMACProtector_Open p seq hdr fragment = cbc_open_clamped p b seq hdr fragment"
proof (cases "cbc_blockSize p + cbc_macSize p + 1 \<le> length fragment \<and> length fragment mod cbc_blockSize p = 0")
  case False
  then show ?thesis
    by (auto simp: cbcHMACProtector_Open_def cbc_open_clamped_def Let_def not_less)
next
  case True
  let ?k = "cbc_blockSize p" and ?m = "cbc_macSize p"
  let ?plain = "cbc_dec b (take ?k fragment) (drop ?k fragment)"
  let ?r = "unat (last ?plain) + 1"
  let ?n = "length ?plain - ?m - ?r"
  have bk: "blk_ok b" "blk_BlockSize b = ?k" "?k \<le> 255" "?m \<le> 1024"
    using ok b by (auto simp: cbc_ok_def)
  have full: "length (drop ?k fragment) mod ?k = 0"
    using True le_mod_geq [of ?k "length fragment"] by simp
  have lp: "length ?plain = length fragment - ?k"
    using cbc_dec_length [OF bk(1), of "take ?k fragment" "drop ?k fragment"] True bk(2) full by simp
  then have ne: "?plain \<noteq> []" and lm: "?m \<le> length ?plain" using True by auto
  have dec: "CBCDecrypt b (take ?k fragment) (drop ?k fragment) = Inr ?plain"
    using True bk(2) full by (simp add: CBCDecrypt_def)
  have "?m + ?r \<le> 1280"
    using bk(4) unat_byte_lt [of "last ?plain"] by linarith
  then have "?m + ?r \<le> 2 ^ 31" by (rule order_trans) simp
  then have sel: "ConstantTimeSelect (unat (drop_bit cbcSignShift32
      (word_of_int (int (length ?plain) - int ?m - int ?r) :: u32))) 0
      (int (length ?plain) - int ?m - int ?r) = int ?n"
    using len lp by (intro sign_select_nat) simp_all
  have pad: "extractCBCPadding ?plain = (?r, if cbc_padding_ok ?plain then - 1 else 0)"
    using extractCBCPadding_eq [OF ne] lp len by simp
  show ?thesis
    unfolding cbcHMACProtector_Open_def cbc_open_clamped_def
    using True lm
    by (simp only: b sum.case dec bindR.simps pad Let_def prod.case sel)
       (auto simp: ConstantTimeCompare_def unat_minus_one_byte computeMAC_def)
qed

text \<open>A decrypted record as RFC 5246 section 6.2.3.2 lays it out: the content, its MAC, the padding
  and the padding length, every byte of the last two equal to that length.\<close>

definition cbc_record :: "cbcHMACProtector \<Rightarrow> u64 \<Rightarrow> bytes \<Rightarrow> bytes \<Rightarrow> bytes \<Rightarrow> bool" where
  "cbc_record p seq hdr content plain \<longleftrightarrow>
     (\<exists>k < 256. plain = content @ computeMAC p seq hdr content [] @ replicate (Suc k) (of_nat k))"

text \<open>The one other shape that is accepted: the padding is well formed but reaches into the MAC of an
  empty content.\<close>

definition cbc_overlap :: "cbcHMACProtector \<Rightarrow> u64 \<Rightarrow> bytes \<Rightarrow> bytes \<Rightarrow> bool" where
  "cbc_overlap p seq hdr plain \<longleftrightarrow>
     cbc_macSize p < length plain \<and> take (cbc_macSize p) plain = computeMAC p seq hdr [] [] \<and>
     (\<exists>xs. \<exists>k < 256. plain = xs @ replicate (Suc k) (of_nat k) \<and> length xs < cbc_macSize p)"

lemma cbc_padding_ok_iff:
  "cbc_padding_ok plain \<and> unat (last plain) = k \<longleftrightarrow>
     k < 256 \<and> (\<exists>xs. plain = xs @ replicate (Suc k) (of_nat k))" (is "?l \<longleftrightarrow> ?r")
proof
  assume l: ?l
  then have v: "last plain = of_nat k" by auto
  have "drop (length plain - 1 - k) plain = replicate (Suc k) (of_nat k)"
    using l unfolding cbc_padding_ok_def v [symmetric] by auto
  then have "plain = take (length plain - 1 - k) plain @ replicate (Suc k) (of_nat k)"
    by (metis append_take_drop_id)
  then show ?r using l unat_byte_lt [of "last plain"] by blast
next
  assume ?r
  then obtain xs where k: "k < 256" and xs: "plain = xs @ replicate (Suc k) (of_nat k)" by blast
  have l: "last plain = of_nat k" unfolding xs by (simp del: replicate.simps add: last_replicate)
  have u: "unat (last plain) = k" unfolding l using k by (simp add: unat_of_nat)
  show ?l using u l unfolding cbc_padding_ok_def by (simp only: u) (simp add: xs del: replicate.simps)
qed

lemma cbc_open_clamped_accepts:
  assumes "length plain = length fragment - cbc_blockSize p" "plain = cbc_dec b (take (cbc_blockSize p) fragment) (drop (cbc_blockSize p) fragment)"
    and "cbc_blockSize p \<le> length fragment" "length fragment mod cbc_blockSize p = 0" "\<And>f. length (computeMAC p seq hdr f []) = cbc_macSize p"
  shows "cbc_open_clamped p b seq hdr fragment = Inr content \<longleftrightarrow>
    cbc_record p seq hdr content plain \<or> content = [] \<and> cbc_overlap p seq hdr plain" (is "?l \<longleftrightarrow> ?r")
proof -
  let ?m = "cbc_macSize p"
  define k where "k = unat (last plain)"
  define n where "n = length plain - ?m - (k + 1)"
  have l: "?l \<longleftrightarrow> ?m < length plain \<and> cbc_padding_ok plain \<and>
      slice n (n + ?m) plain = computeMAC p seq hdr (take n plain) [] \<and> content = take n plain"
    unfolding cbc_open_clamped_def Let_def assms(2) [symmetric] using assms(1,3,4) by (auto simp: n_def k_def)
  show ?thesis
  proof
    assume ?l
    with l have a: "?m < length plain" "cbc_padding_ok plain" "slice n (n + ?m) plain = computeMAC p seq hdr (take n plain) []"
      "content = take n plain" by simp_all
    obtain xs where k: "k < 256" and xs: "plain = xs @ replicate (Suc k) (of_nat k)"
      using iffD1 [OF cbc_padding_ok_iff [of plain k] conjI [OF a(2) k_def [symmetric]]] by blast
    show ?r
    proof (cases "?m \<le> length xs")
      case True
      then have n: "n + ?m = length xs" unfolding n_def using xs by simp
      have "plain = take n plain @ slice n (n + ?m) plain @ replicate (Suc k) (of_nat k)"
        unfolding slice_def n using xs append_take_drop_id [of n xs] n by (simp del: replicate.simps)
      then show ?thesis using a(3,4) k unfolding cbc_record_def by metis
    next
      case False
      then have "n = 0" unfolding n_def using xs by simp
      then have "take ?m plain = computeMAC p seq hdr [] []" "content = []" using a(3,4) by (simp_all add: slice_def)
      then show ?thesis unfolding cbc_overlap_def using a(1) xs k False not_le by blast
    qed
  next
    assume ?r
    then show ?l
    proof
      assume "cbc_record p seq hdr content plain"
      then obtain j where j: "j < 256" "plain = content @ computeMAC p seq hdr content [] @ replicate (Suc j) (of_nat j)"
        unfolding cbc_record_def by blast
      have pk: "cbc_padding_ok plain" "k = j" using cbc_padding_ok_iff [of plain j] j unfolding k_def by (metis append_assoc)+
      have "n = length content" unfolding n_def pk(2) using j(2) assms(5) by simp
      then show ?thesis unfolding l using pk(1) j(2) assms(5) by (simp add: slice_def del: replicate.simps)
    next
      assume "content = [] \<and> cbc_overlap p seq hdr plain"
      then obtain xs j where o: "content = []" "?m < length plain" "take ?m plain = computeMAC p seq hdr [] []"
        and j: "j < 256" "plain = xs @ replicate (Suc j) (of_nat j)" "length xs < ?m"
        unfolding cbc_overlap_def by blast
      have pk: "cbc_padding_ok plain" "k = j" using cbc_padding_ok_iff [of plain j] j unfolding k_def by blast+
      have "n = 0" unfolding n_def pk(2) using j by simp
      then show ?thesis unfolding l using o pk(1) by (simp add: slice_def)
    qed
  qed
qed

lemma cbc_Open_accepts:
  assumes "cbc_ok p" "cbc_newCipher p (cbc_encKey p) = Inr b" "length fragment \<le> 2 ^ 31"
    and "length fragment mod cbc_blockSize p = 0"
    and "plain = cbc_dec b (take (cbc_blockSize p) fragment) (drop (cbc_blockSize p) fragment)"
  shows "cbcHMACProtector_Open p seq hdr fragment = Inr content \<longleftrightarrow>
    cbc_record p seq hdr content plain \<or> content = [] \<and> cbc_overlap p seq hdr plain"
proof (cases "cbc_blockSize p \<le> length fragment")
  case True
  have b: "blk_ok b" "blk_BlockSize b = cbc_blockSize p" using assms(1,2) by (auto simp: cbc_ok_def)
  have "length (drop (cbc_blockSize p) fragment) mod cbc_blockSize p = 0"
    using True assms(4) le_mod_geq [of "cbc_blockSize p" "length fragment"] by simp
  then have "length plain = length fragment - cbc_blockSize p"
    using cbc_dec_length [OF b(1), of "take (cbc_blockSize p) fragment" "drop (cbc_blockSize p) fragment"] True b(2) assms(5) by simp
  from cbc_open_clamped_accepts [OF this assms(5) True assms(4)] show ?thesis
    unfolding cbc_Open_eq_clamped [OF assms(1-3)] using computeMAC_length [OF assms(1)] by blast
next
  case False
  then have "plain = []" using assms(5) by (simp add: cbc_dec.simps)
  then show ?thesis using False
    by (auto simp: cbc_Open_eq_clamped [OF assms(1-3)] cbc_open_clamped_def Let_def cbc_record_def cbc_overlap_def)
qed

lemma cbc_Open_error:
  assumes "cbc_ok p" "cbc_newCipher p (cbc_encKey p) = Inr b" "length fragment \<le> 2 ^ 31"
  shows "cbcHMACProtector_Open p seq hdr fragment = Inl e \<Longrightarrow> e = NewFatalAlertError AlertBadRecordMAC"
    and "length fragment mod cbc_blockSize p \<noteq> 0 \<Longrightarrow> cbcHMACProtector_Open p seq hdr fragment \<noteq> Inr content"
  unfolding cbc_Open_eq_clamped [OF assms] by (auto simp: cbc_open_clamped_def Let_def split: if_splits)

section \<open>Nonces\<close>

lemma put64_inj: "put64 x = put64 y \<longleftrightarrow> x = y"
proof
  assume eq: "put64 x = put64 y"
  have b: "(ucast (drop_bit (8 * k) x) :: byte) = ucast (drop_bit (8 * k) y)" if "k < 8" for k
  proof -
    have "k \<in> {0, 1, 2, 3, 4, 5, 6, 7}" using that by auto
    then show ?thesis using eq by (auto simp: put64_def)
  qed
  show "x = y"
  proof (rule bit_word_eqI)
    fix n assume "n < LENGTH(64)"
    then have n: "n div 8 < 8" by simp
    have "bit (ucast (drop_bit (8 * (n div 8)) x) :: byte) (n mod 8) =
        bit (ucast (drop_bit (8 * (n div 8)) y) :: byte) (n mod 8)"
      using b [OF n] by simp
    then show "bit x n = bit y n"
      by (simp add: bit_ucast_iff bit_drop_bit_eq)
  qed
qed simp

lemma xorb_cancel:
  assumes "length x = length k" "length y = length k" "xorb x k = xorb y k"
  shows "x = y"
proof -
  have "x = xorb (xorb x k) k" by (simp add: xorb_xorb2 assms(1))
  also have "\<dots> = xorb (xorb y k) k" by (simp only: assms(3))
  also have "\<dots> = y" by (simp add: xorb_xorb2 assms(2))
  finally show ?thesis .
qed

lemma chacha_nonce_inj:
  assumes "length (cp_iv p) = 12"
  shows "chacha_buildNonce p s1 = chacha_buildNonce p s2 \<longleftrightarrow> s1 = s2"
proof
  have len: "length (replicate 4 0 @ put64 s :: bytes) = length (cp_iv p)" for s
    using assms by simp
  assume "chacha_buildNonce p s1 = chacha_buildNonce p s2"
  from xorb_cancel [OF len len this [unfolded chacha_buildNonce_def]]
  have "replicate 4 (0::byte) @ put64 s1 = replicate 4 0 @ put64 s2" .
  then show "s1 = s2" by (simp add: put64_inj)
qed simp

lemma aead_nonce_inj:
  "aead_buildNonce p (put64 s1) = aead_buildNonce p (put64 s2) \<longleftrightarrow> s1 = s2"
  by (simp add: aead_buildNonce_def put64_inj)

end
