(* ===== verification/ProtectionGost.thy ===== *)
theory ProtectionGost
  imports Protection
begin

text \<open>
  \<open>internal/record/protection_gost.go\<close> and \<open>protection_ctromac_gost.go\<close>: GOST 28147-89
  in counter mode with the cumulative IMIT MAC, and the CTR-OMAC protectors of RFC 9367.
  The counter-mode stream and the MAC keep their Go state records; the key stream loop is
  a \<open>partial_function\<close> (it would not end from a state with more than eight buffered
  bytes) with a theorem that it returns from every reachable state.  Shown: encrypting in
  pieces equals encrypting at once, decryption inverts encryption, MAC input may be split
  arbitrarily (by refinement to a machine that keeps only the pending bytes), and the
  per-record counter is a big-endian addition.
\<close>

section \<open>Counter mode\<close>

definition gostBlockSize :: nat where "gostBlockSize = 8"
definition gostMACSize :: nat where "gostMACSize = 4"
definition gostKeySize :: nat where "gostKeySize = 32"
definition meshThreshold :: nat where "meshThreshold = 1024"

lemmas gost_size_defs = gostBlockSize_def gostMACSize_def gostKeySize_def meshThreshold_def

definition cryptoProKeyMeshingKey :: bytes where
  "cryptoProKeyMeshingKey = [
     0x69, 0x00, 0x72, 0x22, 0x64, 0xC9, 0x04, 0x23,
     0x8D, 0x3A, 0xDB, 0x96, 0x46, 0xE9, 0x2A, 0xC4,
     0x18, 0xFE, 0xAC, 0x94, 0x00, 0xED, 0x07, 0x12,
     0xC0, 0x86, 0xDC, 0xC2, 0xEF, 0x4C, 0xA9, 0x2B]"

record gostCNT =
  cnt_cipher :: GOST28147Cipher
  cnt_sbox :: Sbox
  cnt_iv :: bytes
  cnt_buf :: bytes
  cnt_num :: nat
  cnt_count :: nat

definition newGostCNT :: "GOST28147Cipher \<Rightarrow> Sbox \<Rightarrow> bytes \<Rightarrow> gostCNT" where
  "newGostCNT cipher sbox iv =
     \<lparr>cnt_cipher = cipher, cnt_sbox = sbox, cnt_iv = iv,
      cnt_buf = replicate gostBlockSize 0, cnt_num = 0, cnt_count = 0\<rparr>"

text \<open>The four blocks of the meshing constant, decrypted under the current key.\<close>

definition meshedKey :: "GOST28147Cipher \<Rightarrow> bytes" where
  "meshedKey c =
     concat (map (\<lambda>j. gc_Decrypt c
       (slice (j * gostBlockSize) ((j + 1) * gostBlockSize) cryptoProKeyMeshingKey)) [0..<4])"

definition gostCNT_meshKey :: "('x) rcrypto_scheme \<Rightarrow> gostCNT \<Rightarrow> gostCNT" where
  "gostCNT_meshKey X s =
     (let newKey = meshedKey (cnt_cipher s);
          cipher = NewGOST28147Cipher X newKey (cnt_sbox s);
          newIV = gc_Encrypt cipher (cnt_iv s)
      in s\<lparr>cnt_cipher := cipher, cnt_iv := newIV\<rparr>)"

definition le32_get :: "byte \<Rightarrow> byte \<Rightarrow> byte \<Rightarrow> byte \<Rightarrow> u32" where
  "le32_get b0 b1 b2 b3 =
     ucast b0 OR push_bit 8 (ucast b1) OR push_bit 16 (ucast b2) OR push_bit 24 (ucast b3)"

definition le32_put :: "u32 \<Rightarrow> bytes" where
  "le32_put g = [ucast g, ucast (drop_bit 8 g), ucast (drop_bit 16 g), ucast (drop_bit 24 g)]"

definition nextGamma :: "('x) rcrypto_scheme \<Rightarrow> gostCNT \<Rightarrow> gostCNT" where
  "nextGamma X s =
     (let s = (if cnt_count s = meshThreshold then gostCNT_meshKey X s else s);
          buf1 = (if cnt_count s = 0 then gc_Encrypt (cnt_cipher s) (cnt_iv s) else cnt_iv s);
          g = le32_get (buf1 ! 0) (buf1 ! 1) (buf1 ! 2) (buf1 ! 3) + 0x01010101;
          g2old = le32_get (buf1 ! 4) (buf1 ! 5) (buf1 ! 6) (buf1 ! 7);
          g2 = g2old + 0x01010104;
          g2 = (if g2old > g2 then g2 + 1 else g2);
          buf1 = le32_put g @ le32_put g2
      in s\<lparr>cnt_iv := buf1, cnt_buf := gc_Encrypt (cnt_cipher s) buf1,
           cnt_count := cnt_count s mod meshThreshold + gostBlockSize\<rparr>)"

text \<open>The inner loop of \<open>XORKeyStream\<close> (consume the rest of the current gamma block) and the
  outer loop; \<open>src\<close> is the part of the input at and after index \<open>i\<close>, \<open>dst\<close> the part of
  the output before it.\<close>

fun XORKeyStream_inner :: "gostCNT \<Rightarrow> bytes \<Rightarrow> bytes \<Rightarrow> gostCNT \<times> bytes \<times> bytes" where
  "XORKeyStream_inner s dst [] = (s, dst, [])"
| "XORKeyStream_inner s dst (b # src) =
     (if cnt_num s < gostBlockSize
      then XORKeyStream_inner (s\<lparr>cnt_num := cnt_num s + 1\<rparr>)
             (dst @ [b XOR cnt_buf s ! cnt_num s]) src
      else (s, dst, b # src))"

partial_function (option) XORKeyStream_loop ::
  "('x) rcrypto_scheme \<Rightarrow> gostCNT \<Rightarrow> bytes \<Rightarrow> bytes \<Rightarrow> (gostCNT \<times> bytes) option" where
  "XORKeyStream_loop X s dst src =
     (if src = [] then Some (s, dst)
      else
        let s1 = (if cnt_num s = 0 then nextGamma X s else s);
            r = XORKeyStream_inner s1 dst src;
            s2 = fst r;
            s3 = (if cnt_num s2 = gostBlockSize then s2\<lparr>cnt_num := 0\<rparr> else s2)
        in XORKeyStream_loop X s3 (fst (snd r)) (snd (snd r)))"

definition XORKeyStream :: "('x) rcrypto_scheme \<Rightarrow> gostCNT \<Rightarrow> bytes \<Rightarrow> (gostCNT \<times> bytes) option" where
  "XORKeyStream X s src = XORKeyStream_loop X s [] src"

section \<open>IMIT\<close>

record gostIMIT =
  imit_cipher :: GOST28147Cipher
  imit_sbox :: Sbox
  imit_prev :: bytes
  imit_buf :: bytes
  imit_bufLen :: nat
  imit_count :: nat

definition newGostIMIT :: "GOST28147Cipher \<Rightarrow> Sbox \<Rightarrow> gostIMIT" where
  "newGostIMIT cipher sbox =
     \<lparr>imit_cipher = cipher, imit_sbox = sbox, imit_prev = replicate gostBlockSize 0,
      imit_buf = replicate gostBlockSize 0, imit_bufLen = 0, imit_count = 0\<rparr>"

definition macBlockEncrypt :: "GOST28147Cipher \<Rightarrow> bytes \<Rightarrow> bytes" where
  "macBlockEncrypt cipher block = gc_SeqMACBlock cipher block"

definition gostIMIT_meshKey :: "('x) rcrypto_scheme \<Rightarrow> gostIMIT \<Rightarrow> gostIMIT" where
  "gostIMIT_meshKey X m =
     m\<lparr>imit_cipher := NewGOST28147Cipher X (meshedKey (imit_cipher m)) (imit_sbox m)\<rparr>"

definition processBlockMesh :: "('x) rcrypto_scheme \<Rightarrow> bytes \<Rightarrow> gostIMIT \<Rightarrow> gostIMIT" where
  "processBlockMesh X block m =
     (let m = (if imit_count m = meshThreshold then gostIMIT_meshKey X m else m);
          xored = xorb (imit_prev m) block
      in m\<lparr>imit_prev := macBlockEncrypt (imit_cipher m) xored,
           imit_count := imit_count m mod meshThreshold + gostBlockSize\<rparr>)"

text \<open>The loop that completes a partially filled buffer.\<close>

fun IMIT_fill :: "gostIMIT \<Rightarrow> bytes \<Rightarrow> gostIMIT \<times> bytes" where
  "IMIT_fill m [] = (m, [])"
| "IMIT_fill m (b # data) =
     (if imit_bufLen m < gostBlockSize
      then IMIT_fill (m\<lparr>imit_buf := (imit_buf m)[imit_bufLen m := b], imit_bufLen := imit_bufLen m + 1\<rparr>) data
      else (m, b # data))"

function IMIT_blocks :: "('x) rcrypto_scheme \<Rightarrow> gostIMIT \<Rightarrow> bytes \<Rightarrow> gostIMIT \<times> bytes" where
  "IMIT_blocks X m data =
     (if length data > gostBlockSize
      then IMIT_blocks X (processBlockMesh X (take gostBlockSize data) m) (drop gostBlockSize data)
      else (m, data))"
  by auto
termination by (relation "measure (\<lambda>(_, _, d). length d)") (auto simp: gost_size_defs)

declare IMIT_blocks.simps [simp del]

text \<open>\<open>copy(m.buf[:], data[i:])\<close> overwrites a prefix of the array and returns the count.\<close>

definition gostIMIT_Write :: "('x) rcrypto_scheme \<Rightarrow> bytes \<Rightarrow> gostIMIT \<Rightarrow> gostIMIT" where
  "gostIMIT_Write X data m =
     (let fill = (if imit_bufLen m > 0 then IMIT_fill m data else (m, data));
          m1 = fst fill; rest = snd fill
      in if imit_bufLen m > 0 \<and> (imit_bufLen m1 < gostBlockSize \<or> length rest = 0) then m1
         else
           let m2 = (if imit_bufLen m > 0
                     then (processBlockMesh X (imit_buf m1) m1)\<lparr>imit_bufLen := 0\<rparr> else m1);
               blocks = IMIT_blocks X m2 rest;
               m3 = fst blocks; tl = snd blocks
           in if length tl > 0
              then m3\<lparr>imit_buf := take gostBlockSize tl @ drop (length tl) (imit_buf m3),
                      imit_bufLen := min gostBlockSize (length tl)\<rparr>
              else m3)"

text \<open>The snapshot closure \<open>processSnap\<close> of \<open>Finalize\<close>: state \<open>(prev, count)\<close>; the
  receiver's cipher is only read.\<close>

definition processSnap ::
  "('x) rcrypto_scheme \<Rightarrow> gostIMIT \<Rightarrow> bytes \<Rightarrow> bytes \<times> nat \<Rightarrow> bytes \<times> nat" where
  "processSnap X m block st =
     (let (prev, count) = st;
          cipher = (if count = meshThreshold
                    then NewGOST28147Cipher X (meshedKey (imit_cipher m)) (imit_sbox m)
                    else imit_cipher m);
          xored = xorb prev block
      in (macBlockEncrypt cipher xored, count mod meshThreshold + gostBlockSize))"

definition gostIMIT_Finalize :: "('x) rcrypto_scheme \<Rightarrow> gostIMIT \<Rightarrow> bytes" where
  "gostIMIT_Finalize X m =
     (let st = (imit_prev m, imit_count m);
          bufLen = imit_bufLen m;
          st = (if bufLen > 0
                then processSnap X m (take bufLen (imit_buf m) @ replicate (gostBlockSize - bufLen) 0) st
                else st);
          st = (if snd st = 0 \<and> bufLen > 0 then processSnap X m (replicate gostBlockSize 0) st else st)
      in take gostMACSize (fst st))"

section \<open>The GOST 28147-89 protector\<close>

record gost28147Protector =
  gp_sbox :: Sbox
  gp_macKey :: bytes
  gp_cnt :: gostCNT
  gp_imit :: gostIMIT

definition NewGOST28147Protector ::
  "('x) rcrypto_scheme \<Rightarrow> bytes \<Rightarrow> bytes \<Rightarrow> bytes \<Rightarrow> Sbox \<Rightarrow> gost28147Protector res" where
  "NewGOST28147Protector X encKey macKey iv sbox =
     guardR (length encKey \<noteq> gostKeySize) (fatalRecordError ''GOST28147 enc key must be 32 bytes'') (
     guardR (length macKey \<noteq> gostKeySize) (fatalRecordError ''GOST28147 mac key must be 32 bytes'') (
     guardR (length iv \<noteq> gostBlockSize) (fatalRecordError ''GOST28147 iv must be 8 bytes'') (
     Inr \<lparr>gp_sbox = sbox, gp_macKey = macKey,
          gp_cnt = newGostCNT (NewGOST28147Cipher X encKey sbox) sbox iv,
          gp_imit = newGostIMIT (NewGOST28147Cipher X macKey sbox) sbox\<rparr>)))"

definition computeGOSTMAC ::
  "('x) rcrypto_scheme \<Rightarrow> gost28147Protector \<Rightarrow> u64 \<Rightarrow> bytes \<Rightarrow> bytes \<Rightarrow> bytes \<times> gost28147Protector" where
  "computeGOSTMAC X p seq hdr plain =
     (let ad = put64 seq @ take 3 hdr @ put16 (of_nat (length plain));
          imit = gostIMIT_Write X plain (gostIMIT_Write X ad (gp_imit p))
      in (gostIMIT_Finalize X imit, p\<lparr>gp_imit := imit\<rparr>))"

text \<open>A key stream that does not return is the \<open>None\<close> of \<open>XORKeyStream\<close>; it is mapped to
  an error value here and excluded by the invariant below.\<close>

definition gost28147Protector_Seal ::
  "('x) rcrypto_scheme \<Rightarrow> gost28147Protector \<Rightarrow> u64 \<Rightarrow> bytes \<Rightarrow> bytes \<Rightarrow> bytes res \<times> gost28147Protector" where
  "gost28147Protector_Seal X p seq hdr plain =
     (let (mac, p) = computeGOSTMAC X p seq hdr plain
      in case XORKeyStream X (gp_cnt p) (plain @ mac) of
           None \<Rightarrow> (Inl (Panic ''XORKeyStream does not return''), p)
         | Some (cnt, buf) \<Rightarrow> (Inr buf, p\<lparr>gp_cnt := cnt\<rparr>))"

definition gost28147Protector_Open ::
  "('x) rcrypto_scheme \<Rightarrow> gost28147Protector \<Rightarrow> u64 \<Rightarrow> bytes \<Rightarrow> bytes \<Rightarrow> bytes res \<times> gost28147Protector" where
  "gost28147Protector_Open X p seq hdr fragment =
     (if length fragment < gostMACSize then (Inl (NewFatalAlertError AlertBadRecordMAC), p)
      else case XORKeyStream X (gp_cnt p) fragment of
        None \<Rightarrow> (Inl (Panic ''XORKeyStream does not return''), p)
      | Some (cnt, buf) \<Rightarrow>
          let p = p\<lparr>gp_cnt := cnt\<rparr>;
              plainEnd = length buf - gostMACSize;
              plain = take plainEnd buf;
              gotMAC = drop plainEnd buf;
              (expectedMAC, p) = computeGOSTMAC X p seq hdr plain
          in if ConstantTimeCompare gotMAC expectedMAC \<noteq> 1
             then (Inl (NewFatalAlertError AlertBadRecordMAC), p)
             else (Inr plain, p))"

section \<open>CTR-OMAC\<close>

definition kuznyechikIVLen :: nat where "kuznyechikIVLen = 8"
definition magmaIVLen :: nat where "magmaIVLen = 4"
definition kuznyechikACPKMSection :: nat where "kuznyechikACPKMSection = 4096"
definition magmaACPKMSection :: nat where "magmaACPKMSection = 1024"
definition seqBytesLen :: nat where "seqBytesLen = 8"

lemmas ctr_size_defs = kuznyechikIVLen_def magmaIVLen_def kuznyechikACPKMSection_def
  magmaACPKMSection_def seqBytesLen_def

record ctrOMACProtector =
  co_newBlock :: "bytes \<Rightarrow> Block"
  co_blockSize :: nat
  co_tagSize :: nat
  co_origIV :: bytes
  co_encTree :: "u64 \<Rightarrow> bytes"
  co_macTree :: "u64 \<Rightarrow> bytes"
  co_acpkmSection :: nat

definition NewKuznyechikCTROMACProtector ::
  "('x) rcrypto_scheme \<Rightarrow> bytes \<Rightarrow> bytes \<Rightarrow> bytes \<Rightarrow> ctrOMACProtector res" where
  "NewKuznyechikCTROMACProtector X encKey macKey iv =
     guardR (length encKey \<noteq> 32) (fatalRecordError ''KuznyechikCTROMAC enc key must be 32 bytes'') (
     guardR (length macKey \<noteq> 32) (fatalRecordError ''KuznyechikCTROMAC mac key must be 32 bytes'') (
     guardR (length iv \<noteq> kuznyechikIVLen) (fatalRecordError ''KuznyechikCTROMAC iv must be 8 bytes'') (
     Inr \<lparr>co_newBlock = NewKuznyechikCipher X, co_blockSize = 16, co_tagSize = 16, co_origIV = iv,
          co_encTree = NewTLSTreeKuznyechikCTROMAC X encKey,
          co_macTree = NewTLSTreeKuznyechikCTROMAC X macKey,
          co_acpkmSection = kuznyechikACPKMSection\<rparr>)))"

definition NewMagmaCTROMACProtector ::
  "('x) rcrypto_scheme \<Rightarrow> bytes \<Rightarrow> bytes \<Rightarrow> bytes \<Rightarrow> ctrOMACProtector res" where
  "NewMagmaCTROMACProtector X encKey macKey iv =
     guardR (length encKey \<noteq> 32) (fatalRecordError ''MagmaCTROMAC enc key must be 32 bytes'') (
     guardR (length macKey \<noteq> 32) (fatalRecordError ''MagmaCTROMAC mac key must be 32 bytes'') (
     guardR (length iv \<noteq> magmaIVLen) (fatalRecordError ''MagmaCTROMAC iv must be 4 bytes'') (
     Inr \<lparr>co_newBlock = NewMagmaCipher X, co_blockSize = 8, co_tagSize = 8, co_origIV = iv,
          co_encTree = NewTLSTreeMagmaCTROMAC X encKey,
          co_macTree = NewTLSTreeMagmaCTROMAC X macKey,
          co_acpkmSection = magmaACPKMSection\<rparr>)))"

definition macHeaderForOMAC :: "bytes \<Rightarrow> nat \<Rightarrow> bytes" where
  "macHeaderForOMAC hdr plainLen = [hdr ! 0, hdr ! 1, hdr ! 2] @ put16 (of_nat plainLen)"

text \<open>The carry loop of \<open>adjustIV\<close>, from the last byte of \<open>origIV\<close> to the first.\<close>

fun adjustIV_loop :: "nat \<Rightarrow> nat \<Rightarrow> bytes \<Rightarrow> nat \<Rightarrow> bytes \<Rightarrow> bytes" where
  "adjustIV_loop 0 seqStart seqBytes carry out = out"
| "adjustIV_loop (Suc j) seqStart seqBytes carry out =
     (let v = unat (out ! j) + unat (seqBytes ! (seqStart + j)) + carry
      in adjustIV_loop j seqStart seqBytes (v div 256) (out[j := of_nat (v mod 256)]))"

definition adjustIV :: "ctrOMACProtector \<Rightarrow> u64 \<Rightarrow> bytes" where
  "adjustIV p seq =
     (let out = co_origIV p @ replicate (co_blockSize p - length (co_origIV p)) 0;
          origIVLen = length (co_origIV p);
          seqStart = seqBytesLen - origIVLen
      in adjustIV_loop origIVLen seqStart (put64 seq) 0 out)"

definition ctrOMACProtector_Seal ::
  "('x) rcrypto_scheme \<Rightarrow> ctrOMACProtector \<Rightarrow> u64 \<Rightarrow> bytes \<Rightarrow> bytes \<Rightarrow> bytes res" where
  "ctrOMACProtector_Seal X p seq hdr plain =
     (let encKey = co_encTree p seq;
          macKey = co_macTree p seq;
          macBlock = co_newBlock p macKey
      in case NewOMAC X macBlock (co_tagSize p) of
           Inl _ \<Rightarrow> Inl (fatalRecordError ''ctrOMACProtector Seal OMAC init'')
         | Inr omac \<Rightarrow>
           let tag = omac (put64 seq @ macHeaderForOMAC hdr (length plain) @ plain);
               iv = adjustIV p seq
           in case NewCTRACPKM X (co_newBlock p) encKey iv (co_acpkmSection p) of
                Inl _ \<Rightarrow> Inl (fatalRecordError ''ctrOMACProtector Seal CTR init'')
              | Inr ctr \<Rightarrow> Inr (ctr (plain @ tag)))"

definition ctrOMACProtector_Open ::
  "('x) rcrypto_scheme \<Rightarrow> ctrOMACProtector \<Rightarrow> u64 \<Rightarrow> bytes \<Rightarrow> bytes \<Rightarrow> bytes res" where
  "ctrOMACProtector_Open X p seq hdr fragment =
     (if length fragment < co_tagSize p then Inl (NewFatalAlertError AlertBadRecordMAC)
      else
        let encKey = co_encTree p seq;
            macKey = co_macTree p seq;
            macBlock = co_newBlock p macKey;
            iv = adjustIV p seq
        in case NewCTRACPKM X (co_newBlock p) encKey iv (co_acpkmSection p) of
             Inl _ \<Rightarrow> Inl (fatalRecordError ''ctrOMACProtector Open CTR init'')
           | Inr ctr \<Rightarrow>
             let buf = ctr fragment;
                 plainEnd = length buf - co_tagSize p;
                 plain = take plainEnd buf;
                 gotTag = drop plainEnd buf
             in case NewOMAC X macBlock (co_tagSize p) of
                  Inl _ \<Rightarrow> Inl (fatalRecordError ''ctrOMACProtector Open OMAC init'')
                | Inr omac \<Rightarrow>
                  let expectedTag = omac (put64 seq @ macHeaderForOMAC hdr plainEnd @ plain)
                  in if ConstantTimeCompare gotTag expectedTag \<noteq> 1
                     then Inl (NewFatalAlertError AlertBadRecordMAC)
                     else Inr plain)"

section \<open>The key stream\<close>

definition gost_ok :: "('x) rcrypto_scheme \<Rightarrow> bool" where
  "gost_ok X \<longleftrightarrow> (\<forall>k sbox. gcipher_ok (NewGOST28147Cipher X k sbox))"

text \<open>The states \<open>newGostCNT\<close> produces and every operation keeps.\<close>

definition cnt_ok :: "gostCNT \<Rightarrow> bool" where
  "cnt_ok s \<longleftrightarrow> gcipher_ok (cnt_cipher s) \<and> length (cnt_iv s) = 8 \<and> length (cnt_buf s) = 8
     \<and> cnt_num s < 8 \<and> cnt_count s mod 8 = 0 \<and> cnt_count s \<le> meshThreshold"

lemma newGostCNT_ok: "gcipher_ok c \<Longrightarrow> length iv = 8 \<Longrightarrow> cnt_ok (newGostCNT c sbox iv)"
  by (simp add: cnt_ok_def newGostCNT_def gost_size_defs)

lemma gostCNT_meshKey_ok:
  "gost_ok X \<Longrightarrow> cnt_ok s \<Longrightarrow> cnt_ok (gostCNT_meshKey X s)"
  by (simp add: cnt_ok_def gostCNT_meshKey_def gost_ok_def gcipher_ok_def Let_def)

lemma length_le32_put [simp]: "length (le32_put g) = 4"
  by (simp add: le32_put_def)

lemma mesh_count:
  assumes "c mod 8 = (0::nat)"
  shows "(c mod meshThreshold + gostBlockSize) mod 8 = 0" "c mod meshThreshold + gostBlockSize \<le> meshThreshold"
proof -
  obtain k where c: "c = 8 * k" using assms by (auto simp: mod_eq_0_iff_dvd elim: dvdE)
  then have m: "c mod 1024 = 8 * (k mod 128)"
    using mult_mod_right [of 8 k 128] by simp
  have "k mod 128 < 128" by simp
  with m show "(c mod meshThreshold + gostBlockSize) mod 8 = 0"
    "c mod meshThreshold + gostBlockSize \<le> meshThreshold"
    unfolding gost_size_defs by simp_all
qed

lemma nextGamma_ok:
  assumes "gost_ok X" "cnt_ok s"
  shows "cnt_ok (nextGamma X s)" "cnt_num (nextGamma X s) = cnt_num s"
proof -
  let ?s = "if cnt_count s = meshThreshold then gostCNT_meshKey X s else s"
  have s: "cnt_ok ?s" using assms by (simp add: gostCNT_meshKey_ok)
  obtain b where b: "length b = 8"
    "nextGamma X s = ?s\<lparr>cnt_iv := b, cnt_buf := gc_Encrypt (cnt_cipher ?s) b,
       cnt_count := cnt_count ?s mod meshThreshold + gostBlockSize\<rparr>"
    unfolding nextGamma_def Let_def by force
  have "length (gc_Encrypt (cnt_cipher ?s) b) = 8"
    using s b(1) by (simp only: cnt_ok_def gcipher_ok_def)
  then show "cnt_ok (nextGamma X s)"
    unfolding b(2) using s b(1) mesh_count [of "cnt_count ?s"] by (simp only: cnt_ok_def) simp
  show "cnt_num (nextGamma X s) = cnt_num s"
    unfolding b(2) by (simp add: gostCNT_meshKey_def Let_def)
qed

text \<open>One byte at a time: the reference the buffered loop is compared with.\<close>

fun cnt_bytes :: "('x) rcrypto_scheme \<Rightarrow> gostCNT \<Rightarrow> bytes \<Rightarrow> gostCNT \<times> bytes" where
  "cnt_bytes X s [] = (s, [])"
| "cnt_bytes X s (b # src) =
     (let s1 = (if cnt_num s = 0 then nextGamma X s else s);
          r = cnt_bytes X (s1\<lparr>cnt_num := (cnt_num s1 + 1) mod 8\<rparr>) src
      in (fst r, (b XOR cnt_buf s1 ! cnt_num s1) # snd r))"

lemma cnt_bytes_append:
  "cnt_bytes X s (a @ b) =
     (fst (cnt_bytes X (fst (cnt_bytes X s a)) b),
      snd (cnt_bytes X s a) @ snd (cnt_bytes X (fst (cnt_bytes X s a)) b))"
  by (induction X s a rule: cnt_bytes.induct) (simp_all add: Let_def)

lemma cnt_bytes_length [simp]: "length (snd (cnt_bytes X s src)) = length src"
  by (induction X s src rule: cnt_bytes.induct) (simp_all add: Let_def)

lemma cnt_bytes_involution:
  "cnt_bytes X s (snd (cnt_bytes X s src)) = (fst (cnt_bytes X s src), src)"
  by (induction X s src rule: cnt_bytes.induct) (simp_all add: Let_def xor.assoc)

lemma cnt_step_ok:
  assumes "gost_ok X" "cnt_ok s"
  shows "cnt_ok ((if cnt_num s = 0 then nextGamma X s else s)\<lparr>cnt_num := n mod 8\<rparr>)"
  using nextGamma_ok [OF assms] assms(2) by (simp add: cnt_ok_def)

lemma cnt_bytes_ok:
  assumes "gost_ok X" "cnt_ok s"
  shows "cnt_ok (fst (cnt_bytes X s src))"
  using assms(2)
proof (induction src arbitrary: s)
  case (Cons b src)
  then show ?case using cnt_step_ok [OF assms(1) Cons.prems] by (simp add: Let_def)
qed simp

text \<open>What the inner loop does from a position inside a gamma block.\<close>

lemma XORKeyStream_inner_eq:
  assumes "cnt_num s \<le> 8" "length (cnt_buf s) = 8"
  shows "XORKeyStream_inner s dst src =
    (let n = min (8 - cnt_num s) (length src)
     in (s\<lparr>cnt_num := cnt_num s + n\<rparr>, dst @ xorb (take n src) (drop (cnt_num s) (cnt_buf s)), drop n src))"
  using assms
proof (induction s dst src rule: XORKeyStream_inner.induct)
  case (2 s dst b src)
  show ?case
  proof (cases "cnt_num s < 8")
    case True
    have d: "drop (cnt_num s) (cnt_buf s) = cnt_buf s ! cnt_num s # drop (Suc (cnt_num s)) (cnt_buf s)"
      using True "2.prems"(2) by (simp add: Cons_nth_drop_Suc)
    have "8 - cnt_num s = Suc (8 - Suc (cnt_num s))" using True by simp
    then show ?thesis
      using 2 True d by (simp add: Let_def gost_size_defs xorb_def)
  next
    case False
    then show ?thesis using 2 by (simp add: gost_size_defs xorb_def)
  qed
qed (simp add: xorb_def)

lemma cnt_bytes_within:
  assumes "0 < cnt_num s" "cnt_num s < 8" "cnt_num s + length xs \<le> 8" "length (cnt_buf s) = 8"
  shows "cnt_bytes X s xs =
    (s\<lparr>cnt_num := (cnt_num s + length xs) mod 8\<rparr>, xorb xs (drop (cnt_num s) (cnt_buf s)))"
  using assms
proof (induction xs arbitrary: s)
  case Nil
  then show ?case by (simp add: xorb_def)
next
  case (Cons b xs)
  have d: "drop (cnt_num s) (cnt_buf s) = cnt_buf s ! cnt_num s # drop (Suc (cnt_num s)) (cnt_buf s)"
    using Cons.prems by (simp add: Cons_nth_drop_Suc)
  show ?case
  proof (cases "cnt_num s = 7")
    case True
    then have "xs = []" using Cons.prems by simp
    then show ?thesis using True d by (simp add: Let_def xorb_def)
  next
    case False
    then have lt: "Suc (cnt_num s) < 8" using Cons.prems by simp
    with Cons.prems Cons.IH [of "s\<lparr>cnt_num := Suc (cnt_num s)\<rparr>"] d
    show ?thesis by (simp add: Let_def xorb_def)
  qed
qed

lemma cnt_bytes_block:
  assumes "gost_ok X" "cnt_ok s" "src \<noteq> []"
  defines "s1 \<equiv> if cnt_num s = 0 then nextGamma X s else s"
  defines "n \<equiv> min (8 - cnt_num s) (length src)"
  shows "cnt_bytes X s (take n src) =
    (s1\<lparr>cnt_num := (cnt_num s + n) mod 8\<rparr>, xorb (take n src) (drop (cnt_num s) (cnt_buf s1)))"
proof (cases "cnt_num s = 0")
  case False
  moreover have "cnt_num s + n \<le> 8"
    using assms(2) unfolding n_def cnt_ok_def by linarith
  moreover have "length (take n src) = n"
    by (simp add: n_def)
  ultimately show ?thesis
    using cnt_bytes_within [of s "take n src" X] assms(2) by (simp add: cnt_ok_def s1_def)
next
  case True
  obtain b xs where src: "src = b # xs" using assms(3) by (cases src) auto
  then obtain k where n: "n = Suc k" "k \<le> 7" "k \<le> length xs"
    using True by (cases n) (auto simp: n_def)
  have s1: "cnt_ok s1" "cnt_num s1 = 0" "length (cnt_buf s1) = 8"
    using nextGamma_ok [OF assms(1,2)] True by (simp_all add: s1_def cnt_ok_def)
  have buf: "cnt_buf s1 = cnt_buf s1 ! 0 # drop (Suc 0) (cnt_buf s1)"
    using s1(3) by (simp add: Cons_nth_drop_Suc)
  have "cnt_bytes X (s1\<lparr>cnt_num := Suc 0\<rparr>) (take k xs) =
      (s1\<lparr>cnt_num := Suc k mod 8\<rparr>, xorb (take k xs) (drop (Suc 0) (cnt_buf s1)))"
    using cnt_bytes_within [of "s1\<lparr>cnt_num := Suc 0\<rparr>" "take k xs" X] s1(3) n by (simp add: min_def)
  moreover have "xorb (b # take k xs) (cnt_buf s1) = (b XOR cnt_buf s1 ! 0) # xorb (take k xs) (drop (Suc 0) (cnt_buf s1))"
    by (subst buf) (simp add: xorb_def)
  ultimately show ?thesis
    using True s1(2) n(1) src by (simp add: Let_def s1_def)
qed

lemma XORKeyStream_loop_eq:
  assumes "gost_ok X" "cnt_ok s"
  shows "XORKeyStream_loop X s dst src =
    Some (fst (cnt_bytes X s src), dst @ snd (cnt_bytes X s src))"
  using assms(2)
proof (induction "length src" arbitrary: s dst src rule: less_induct)
  case less
  show ?case
  proof (cases "src = []")
    case True
    then show ?thesis by (simp add: XORKeyStream_loop.simps)
  next
    case False
    let ?s1 = "if cnt_num s = 0 then nextGamma X s else s"
    let ?n = "min (8 - cnt_num s) (length src)"
    let ?s3 = "?s1\<lparr>cnt_num := (cnt_num s + ?n) mod 8\<rparr>"
    let ?out = "xorb (take ?n src) (drop (cnt_num s) (cnt_buf ?s1))"
    have s1: "cnt_ok ?s1" "cnt_num ?s1 = cnt_num s"
      using nextGamma_ok [OF assms(1) less.prems] less.prems by simp_all
    have num: "cnt_num s < 8" using less.prems by (simp add: cnt_ok_def)
    have inner: "XORKeyStream_inner ?s1 dst src = (?s1\<lparr>cnt_num := cnt_num s + ?n\<rparr>, dst @ ?out, drop ?n src)"
      using XORKeyStream_inner_eq [of ?s1 dst src] s1 by (simp add: cnt_ok_def Let_def)
    have wrap: "(if cnt_num (?s1\<lparr>cnt_num := cnt_num s + ?n\<rparr>) = 8
        then ?s1\<lparr>cnt_num := cnt_num s + ?n\<rparr>\<lparr>cnt_num := 0\<rparr>
        else ?s1\<lparr>cnt_num := cnt_num s + ?n\<rparr>) = ?s3"
      using num by (auto simp: min_def)
    have step: "XORKeyStream_loop X s dst src = XORKeyStream_loop X ?s3 (dst @ ?out) (drop ?n src)"
      using False
      by (subst XORKeyStream_loop.simps)
         (simp only: Let_def inner if_False fst_conv snd_conv gost_size_defs wrap)
    have ok3: "cnt_ok ?s3" by (rule cnt_step_ok [OF assms(1) less.prems])
    have lt: "length (drop ?n src) < length src" using False num by simp
    have "cnt_bytes X s src = cnt_bytes X s (take ?n src @ drop ?n src)" by simp
    also have "\<dots> = (fst (cnt_bytes X ?s3 (drop ?n src)), ?out @ snd (cnt_bytes X ?s3 (drop ?n src)))"
      by (simp only: cnt_bytes_append cnt_bytes_block [OF assms(1) less.prems False] fst_conv snd_conv)
    finally show ?thesis
      using step less.hyps [OF lt ok3] by simp
  qed
qed

lemma XORKeyStream_eq:
  "gost_ok X \<Longrightarrow> cnt_ok s \<Longrightarrow> XORKeyStream X s src = Some (cnt_bytes X s src)"
  by (simp add: XORKeyStream_def XORKeyStream_loop_eq)

section \<open>IMIT refines a machine that keeps the pending bytes\<close>

text \<open>The abstract state is the chaining state (with an empty buffer) and the bytes not yet
  processed; stale bytes of the Go array beyond \<open>bufLen\<close> are invisible.  The abstract write
  appends and processes blocks while more than eight bytes are pending.\<close>

definition imit_core :: "gostIMIT \<Rightarrow> gostIMIT" where
  "imit_core m = m\<lparr>imit_buf := [], imit_bufLen := 0\<rparr>"

definition imit_abs :: "gostIMIT \<Rightarrow> gostIMIT \<times> bytes" where
  "imit_abs m = (imit_core m, take (imit_bufLen m) (imit_buf m))"

definition imit_spec_Write :: "('x) rcrypto_scheme \<Rightarrow> bytes \<Rightarrow> gostIMIT \<times> bytes \<Rightarrow> gostIMIT \<times> bytes" where
  "imit_spec_Write X data a = IMIT_blocks X (fst a) (snd a @ data)"

definition imit_ok :: "gostIMIT \<Rightarrow> bool" where
  "imit_ok m \<longleftrightarrow> length (imit_buf m) = 8 \<and> imit_bufLen m \<le> 8 \<and> length (imit_prev m) = 8
     \<and> gcipher_ok (imit_cipher m)"

lemma newGostIMIT_ok: "gcipher_ok c \<Longrightarrow> imit_ok (newGostIMIT c sbox)"
  by (simp add: imit_ok_def newGostIMIT_def gost_size_defs)

lemma processBlockMesh_core: "imit_core (processBlockMesh X b m) = processBlockMesh X b (imit_core m)"
  by (simp add: imit_core_def processBlockMesh_def gostIMIT_meshKey_def Let_def)

lemma processBlockMesh_fields [simp]:
  "imit_buf (processBlockMesh X b m) = imit_buf m"
  "imit_bufLen (processBlockMesh X b m) = imit_bufLen m"
  "imit_sbox (processBlockMesh X b m) = imit_sbox m"
  by (simp_all add: processBlockMesh_def gostIMIT_meshKey_def Let_def)

lemma IMIT_blocks_long:
  "8 < length d \<Longrightarrow> IMIT_blocks X m d = IMIT_blocks X (processBlockMesh X (take 8 d) m) (drop 8 d)"
  by (subst IMIT_blocks.simps) (simp add: gost_size_defs)

lemma IMIT_blocks_short: "length d \<le> 8 \<Longrightarrow> IMIT_blocks X m d = (m, d)"
  by (subst IMIT_blocks.simps) (simp add: gost_size_defs)

lemma IMIT_blocks_core:
  "IMIT_blocks X (imit_core m) d = (imit_core (fst (IMIT_blocks X m d)), snd (IMIT_blocks X m d))"
proof (induction "length d" arbitrary: m d rule: less_induct)
  case less
  show ?case
  proof (cases "8 < length d")
    case True
    then show ?thesis
      using less.hyps [of "drop 8 d" "processBlockMesh X (take 8 d) m"]
      by (simp add: IMIT_blocks_long processBlockMesh_core)
  qed (simp add: IMIT_blocks_short)
qed

lemma IMIT_blocks_fields:
  "imit_buf (fst (IMIT_blocks X m d)) = imit_buf m \<and> imit_bufLen (fst (IMIT_blocks X m d)) = imit_bufLen m"
proof (induction "length d" arbitrary: m d rule: less_induct)
  case less
  show ?case
  proof (cases "8 < length d")
    case True
    then show ?thesis
      using less.hyps [of "drop 8 d" "processBlockMesh X (take 8 d) m"] by (simp add: IMIT_blocks_long)
  qed (simp add: IMIT_blocks_short)
qed

lemma IMIT_blocks_rest:
  "length (snd (IMIT_blocks X m d)) \<le> 8 \<and> (d \<noteq> [] \<longrightarrow> snd (IMIT_blocks X m d) \<noteq> [])"
proof (induction "length d" arbitrary: m d rule: less_induct)
  case less
  show ?case
  proof (cases "8 < length d")
    case True
    then show ?thesis
      using less.hyps [of "drop 8 d" "processBlockMesh X (take 8 d) m"] by (simp add: IMIT_blocks_long)
  qed (simp add: IMIT_blocks_short)
qed

lemma IMIT_blocks_append:
  "IMIT_blocks X m (d @ e) = IMIT_blocks X (fst (IMIT_blocks X m d)) (snd (IMIT_blocks X m d) @ e)"
proof (induction "length d" arbitrary: m d rule: less_induct)
  case less
  show ?case
  proof (cases "8 < length d")
    case True
    then show ?thesis
      using less.hyps [of "drop 8 d" "processBlockMesh X (take 8 d) m"]
      by (simp add: IMIT_blocks_long [of d] IMIT_blocks_long [of "d @ e"])
  qed (simp add: IMIT_blocks_short)
qed

lemma imit_spec_Write_append:
  "imit_spec_Write X e (imit_spec_Write X d a) = imit_spec_Write X (d @ e) a"
  by (simp only: imit_spec_Write_def append_assoc [symmetric] IMIT_blocks_append [of X "fst a" "snd a @ d" e])

lemma IMIT_fill_eq:
  assumes "length (imit_buf m) = 8" "imit_bufLen m \<le> 8"
  shows "IMIT_fill m d =
    (let n = min (8 - imit_bufLen m) (length d)
     in (m\<lparr>imit_buf := take (imit_bufLen m) (imit_buf m) @ take n d @ drop (imit_bufLen m + n) (imit_buf m),
           imit_bufLen := imit_bufLen m + n\<rparr>, drop n d))"
  using assms
proof (induction m d rule: IMIT_fill.induct)
  case (2 m b d)
  show ?case
  proof (cases "imit_bufLen m < 8")
    case True
    let ?m = "m\<lparr>imit_buf := (imit_buf m)[imit_bufLen m := b], imit_bufLen := imit_bufLen m + 1\<rparr>"
    have n: "min (8 - imit_bufLen m) (length (b # d)) = Suc (min (8 - Suc (imit_bufLen m)) (length d))"
      using True by (simp add: Suc_diff_Suc)
    have t: "take (Suc (imit_bufLen m)) ((imit_buf m)[imit_bufLen m := b]) = take (imit_bufLen m) (imit_buf m) @ [b]"
      using True "2.prems"(1) by (simp add: take_Suc_conv_app_nth)
    show ?thesis
      using "2.IH" True "2.prems" unfolding n
      by (simp add: gost_size_defs Let_def t del: length_Cons) 
  next
    case False
    then show ?thesis using 2 by (simp add: gost_size_defs)
  qed
qed simp

text \<open>Buffering the trailing bytes.\<close>

definition imit_store :: "gostIMIT \<times> bytes \<Rightarrow> gostIMIT" where
  "imit_store r =
     (if length (snd r) > 0
      then (fst r)\<lparr>imit_buf := take gostBlockSize (snd r) @ drop (length (snd r)) (imit_buf (fst r)),
                   imit_bufLen := min gostBlockSize (length (snd r))\<rparr>
      else fst r)"

lemma imit_abs_store:
  assumes "imit_bufLen m = 0"
  shows "imit_abs (imit_store (IMIT_blocks X m d)) = IMIT_blocks X (imit_core m) d"
  using assms IMIT_blocks_fields [of X m d] IMIT_blocks_rest [of X m d] IMIT_blocks_core [of X m d]
  by (auto simp: imit_store_def imit_abs_def imit_core_def gost_size_defs)

lemma gostIMIT_Write_cases:
  "imit_bufLen m = 0 \<Longrightarrow> gostIMIT_Write X d m = imit_store (IMIT_blocks X m d)"
  "imit_bufLen m > 0 \<Longrightarrow> imit_bufLen (fst (IMIT_fill m d)) < 8 \<or> snd (IMIT_fill m d) = [] \<Longrightarrow>
     gostIMIT_Write X d m = fst (IMIT_fill m d)"
  "imit_bufLen m > 0 \<Longrightarrow> \<not> imit_bufLen (fst (IMIT_fill m d)) < 8 \<Longrightarrow> snd (IMIT_fill m d) \<noteq> [] \<Longrightarrow>
     gostIMIT_Write X d m = imit_store (IMIT_blocks X
       ((processBlockMesh X (imit_buf (fst (IMIT_fill m d))) (fst (IMIT_fill m d)))\<lparr>imit_bufLen := 0\<rparr>)
       (snd (IMIT_fill m d)))"
  by (simp_all add: gostIMIT_Write_def imit_store_def Let_def gost_size_defs)

lemma imit_abs_Write:
  assumes "imit_ok m"
  shows "imit_abs (gostIMIT_Write X data m) = imit_spec_Write X data (imit_abs m)"
proof (cases "imit_bufLen m = 0")
  case True
  then show ?thesis
    by (simp add: gostIMIT_Write_cases imit_abs_store imit_spec_Write_def) (simp add: imit_abs_def)
next
  case False
  let ?p = "take (imit_bufLen m) (imit_buf m)"
  let ?n = "min (8 - imit_bufLen m) (length data)"
  let ?m1 = "fst (IMIT_fill m data)" and ?rest = "snd (IMIT_fill m data)"
  have m: "length (imit_buf m) = 8" "imit_bufLen m \<le> 8" using assms by (simp_all add: imit_ok_def)
  have fill: "?m1 = m\<lparr>imit_buf := ?p @ take ?n data @ drop (imit_bufLen m + ?n) (imit_buf m),
         imit_bufLen := imit_bufLen m + ?n\<rparr>" "?rest = drop ?n data"
    using IMIT_fill_eq [OF m] by (simp_all add: Let_def)
  show ?thesis
  proof (cases "imit_bufLen ?m1 < 8 \<or> ?rest = []")
    case True
    then have all: "length data \<le> 8 - imit_bufLen m" using fill m by auto
    have "IMIT_blocks X (imit_core m) (?p @ data) = (imit_core m, ?p @ data)"
      using all m by (intro IMIT_blocks_short) simp
    then show ?thesis
      unfolding gostIMIT_Write_cases(2) [OF False [unfolded neq0_conv] True] imit_spec_Write_def imit_abs_def
      using all fill(1) m by (simp add: imit_core_def)
  next
    case rest: False
    let ?m2 = "(processBlockMesh X (imit_buf ?m1) ?m1)\<lparr>imit_bufLen := 0\<rparr>"
    have n: "?n = 8 - imit_bufLen m" "?n < length data" using rest fill m by auto
    have buf: "imit_buf ?m1 = ?p @ take ?n data" using fill n m by simp
    have "imit_abs (gostIMIT_Write X data m) = IMIT_blocks X (imit_core ?m2) ?rest"
      using rest False by (simp add: gostIMIT_Write_cases(3) imit_abs_store)
    also have "imit_core ?m2 = processBlockMesh X (?p @ take ?n data) (imit_core m)"
      unfolding buf by (subst fill(1)) (simp add: imit_core_def processBlockMesh_def gostIMIT_meshKey_def Let_def)
    also have "IMIT_blocks X \<dots> ?rest = IMIT_blocks X (imit_core m) (?p @ data)"
    proof -
      have "8 < length (?p @ data)" "take 8 (?p @ data) = ?p @ take ?n data" "drop 8 (?p @ data) = drop ?n data"
        using n m by simp_all
      then show ?thesis using fill(2) by (simp add: IMIT_blocks_long [of "?p @ data"])
    qed
    finally show ?thesis by (simp add: imit_spec_Write_def imit_abs_def)
  qed
qed

lemma processBlockMesh_chain:
  assumes "gost_ok X" "length b = 8" "gcipher_ok (imit_cipher m)" "length (imit_prev m) = 8"
  shows "gcipher_ok (imit_cipher (processBlockMesh X b m)) \<and> length (imit_prev (processBlockMesh X b m)) = 8"
  using assms
  by (auto simp: processBlockMesh_def gostIMIT_meshKey_def macBlockEncrypt_def gost_ok_def gcipher_ok_def Let_def)

lemma IMIT_blocks_chain:
  assumes "gost_ok X" "gcipher_ok (imit_cipher m)" "length (imit_prev m) = 8"
  shows "gcipher_ok (imit_cipher (fst (IMIT_blocks X m d))) \<and> length (imit_prev (fst (IMIT_blocks X m d))) = 8"
  using assms(2,3)
proof (induction "length d" arbitrary: m d rule: less_induct)
  case less
  show ?case
  proof (cases "8 < length d")
    case True
    then show ?thesis
      using less.hyps [of "drop 8 d" "processBlockMesh X (take 8 d) m"]
        processBlockMesh_chain [OF assms(1) _ less.prems, of "take 8 d"]
      by (simp add: IMIT_blocks_long)
  qed (use less.prems in \<open>simp add: IMIT_blocks_short\<close>)
qed

lemma imit_store_ok:
  assumes "gost_ok X" "gcipher_ok (imit_cipher m)" "length (imit_prev m) = 8"
    "length (imit_buf m) = 8" "imit_bufLen m \<le> 8"
  shows "imit_ok (imit_store (IMIT_blocks X m d))"
  using IMIT_blocks_chain [OF assms(1-3), of d] IMIT_blocks_fields [of X m d] IMIT_blocks_rest [of X m d]
    assms(4,5)
  by (auto simp: imit_store_def imit_ok_def gost_size_defs)

lemma gostIMIT_Write_ok:
  assumes "gost_ok X" "imit_ok m"
  shows "imit_ok (gostIMIT_Write X d m)"
proof -
  have m: "length (imit_buf m) = 8" "imit_bufLen m \<le> 8" "gcipher_ok (imit_cipher m)"
    "length (imit_prev m) = 8"
    using assms(2) by (simp_all add: imit_ok_def)
  let ?m1 = "fst (IMIT_fill m d)"
  have m1: "imit_ok ?m1"
    using m by (simp add: IMIT_fill_eq [OF m(1,2)] Let_def imit_ok_def)
  have b: "length (imit_buf ?m1) = 8" using m1 by (simp add: imit_ok_def)
  show ?thesis
  proof (cases "imit_bufLen m = 0")
    case True
    then show ?thesis using m by (simp add: gostIMIT_Write_cases(1) imit_store_ok [OF assms(1)])
  next
    case False
    then show ?thesis
      using m1 m1 [unfolded imit_ok_def] processBlockMesh_chain [OF assms(1) b, of ?m1]
      by (cases "imit_bufLen ?m1 < 8 \<or> snd (IMIT_fill m d) = []")
         (simp_all add: gostIMIT_Write_cases(2,3) imit_store_ok [OF assms(1)])
  qed
qed

text \<open>The tag depends on the abstract state only, and the trailing zero block is never fed: the
  counter is positive once the data block went in.\<close>

definition imit_spec_Finalize :: "('x) rcrypto_scheme \<Rightarrow> gostIMIT \<times> bytes \<Rightarrow> bytes" where
  "imit_spec_Finalize X a =
     (if snd a = [] then take 4 (imit_prev (fst a))
      else take 4 (imit_prev (processBlockMesh X (snd a @ replicate (8 - length (snd a)) 0) (fst a))))"

lemma gostIMIT_Finalize_abs:
  assumes "imit_ok m"
  shows "gostIMIT_Finalize X m = imit_spec_Finalize X (imit_abs m)"
proof -
  have m: "length (imit_buf m) = 8" "imit_bufLen m \<le> 8" using assms by (simp_all add: imit_ok_def)
  show ?thesis
  proof (cases "imit_bufLen m = 0")
    case True
    then show ?thesis
      by (simp add: gostIMIT_Finalize_def imit_spec_Finalize_def imit_abs_def imit_core_def gost_size_defs)
  next
    case False
    then have "take (imit_bufLen m) (imit_buf m) \<noteq> []" using m(1) by (cases "imit_buf m") auto
    then show ?thesis
      using False m
      by (simp add: gostIMIT_Finalize_def imit_spec_Finalize_def imit_abs_def imit_core_def gost_size_defs
          processSnap_def processBlockMesh_def gostIMIT_meshKey_def Let_def)
  qed
qed

lemma gostIMIT_Finalize_length:
  assumes "gost_ok X" "imit_ok m"
  shows "length (gostIMIT_Finalize X m) = 4"
proof -
  have m: "length (imit_buf m) = 8" "imit_bufLen m \<le> 8" "gcipher_ok (imit_cipher m)"
    "length (imit_prev m) = 8"
    using assms(2) by (simp_all add: imit_ok_def)
  let ?b = "take (imit_bufLen m) (imit_buf m) @ replicate (8 - imit_bufLen m) 0"
  have "length ?b = 8" using m by simp
  from processBlockMesh_chain [OF assms(1) this, of "imit_core m"] m
  show ?thesis
    by (simp add: gostIMIT_Finalize_abs [OF assms(2)] imit_spec_Finalize_def imit_abs_def imit_core_def min_def)
qed

section \<open>GOST 28147-89 round trip\<close>

definition gp_ok :: "('x) rcrypto_scheme \<Rightarrow> gost28147Protector \<Rightarrow> bool" where
  "gp_ok X p \<longleftrightarrow> gost_ok X \<and> cnt_ok (gp_cnt p) \<and> imit_ok (gp_imit p)"

lemma NewGOST28147Protector_ok:
  assumes "gost_ok X" "NewGOST28147Protector X encKey macKey iv sbox = Inr p"
  shows "gp_ok X p"
  using assms
  by (auto simp: NewGOST28147Protector_def gp_ok_def gost_size_defs gost_ok_def
      intro!: newGostCNT_ok newGostIMIT_ok)

lemma computeGOSTMAC_ok:
  assumes "gp_ok X p" "computeGOSTMAC X p seq hdr plain = (mac, p')"
  shows "length mac = 4" "gp_ok X p'" "gp_cnt p' = gp_cnt p"
  using assms
  by (auto simp: computeGOSTMAC_def gp_ok_def Let_def gostIMIT_Write_ok gostIMIT_Finalize_length)

lemma computeGOSTMAC_cong:
  "take 3 hdr' = take 3 hdr \<Longrightarrow> gp_imit p' = gp_imit p \<Longrightarrow>
   fst (computeGOSTMAC X p' seq hdr' plain) = fst (computeGOSTMAC X p seq hdr plain)
   \<and> gp_imit (snd (computeGOSTMAC X p' seq hdr' plain)) = gp_imit (snd (computeGOSTMAC X p seq hdr plain))"
  by (simp add: computeGOSTMAC_def Let_def)

lemma computeGOSTMAC_fields [simp]:
  "gp_cnt (snd (computeGOSTMAC X p seq hdr plain)) = gp_cnt p"
  "gp_sbox (snd (computeGOSTMAC X p seq hdr plain)) = gp_sbox p"
  "gp_macKey (snd (computeGOSTMAC X p seq hdr plain)) = gp_macKey p"
  by (simp_all add: computeGOSTMAC_def Let_def)

lemma gost28147_Seal_eq:
  assumes "gp_ok X p"
  shows "gost28147Protector_Seal X p seq hdr plain =
    (let (mac, p') = computeGOSTMAC X p seq hdr plain;
         (cnt, buf) = cnt_bytes X (gp_cnt p) (plain @ mac)
     in (Inr buf, p'\<lparr>gp_cnt := cnt\<rparr>))"
proof -
  obtain mac p' where c: "computeGOSTMAC X p seq hdr plain = (mac, p')" by fastforce
  from computeGOSTMAC_ok [OF assms c] show ?thesis
    by (simp add: gost28147Protector_Seal_def c gp_ok_def XORKeyStream_eq split: prod.splits)
qed

lemma gost28147_Open_Seal:
  assumes "gp_ok X p" "take 3 hdr' = take 3 hdr"
    and "gost28147Protector_Seal X p seq hdr plain = (Inr frag, p')"
  shows "gost28147Protector_Open X p seq hdr' frag = (Inr plain, p')"
    and "gp_ok X p'" and "length frag = length plain + 4"
proof -
  obtain mac p1 where c: "computeGOSTMAC X p seq hdr plain = (mac, p1)" by fastforce
  note ok1 = computeGOSTMAC_ok [OF assms(1) c]
  let ?r = "cnt_bytes X (gp_cnt p) (plain @ mac)"
  have frag: "frag = snd ?r" "p' = p1\<lparr>gp_cnt := fst ?r\<rparr>"
    using assms(3) c by (simp_all add: gost28147_Seal_eq [OF assms(1)] split: prod.splits)
  then show len: "length frag = length plain + 4" using ok1(1) by simp
  show "gp_ok X p'"
    using ok1(2) cnt_bytes_ok [of X "gp_cnt p" "plain @ mac"] assms(1) frag(2) by (simp add: gp_ok_def)
  have dec: "XORKeyStream X (gp_cnt p) frag = Some (fst ?r, plain @ mac)"
    using assms(1) frag(1) by (simp add: gp_ok_def XORKeyStream_eq cnt_bytes_involution)
  have "computeGOSTMAC X (p\<lparr>gp_cnt := fst ?r\<rparr>) seq hdr' plain = (mac, p')"
    using c frag(2) assms(2) by (auto simp: computeGOSTMAC_def Let_def)
  then show "gost28147Protector_Open X p seq hdr' frag = (Inr plain, p')"
    using dec ok1(1) len
    by (simp add: gost28147Protector_Open_def gost_size_defs Let_def ConstantTimeCompare_def)
qed

definition gost_sealer :: "('x) rcrypto_scheme \<Rightarrow> gost28147Protector sealer" where
  "gost_sealer X p rnd seq hdr plain =
     (case gost28147Protector_Seal X p seq hdr plain of (res, p') \<Rightarrow> (res, p', rnd))"

interpretation gost: protector "gost_sealer X" "gost28147Protector_Open X" "\<lambda>s r. s = r \<and> gp_ok X s" for X
  by unfold_locales
     (auto simp: gost_sealer_def dest: gost28147_Open_Seal split: prod.splits)

section \<open>CTR-OMAC\<close>

lemma be_val_snoc: "be_val (xs @ [x]) = be_val xs * 256 + unat x"
  by (simp add: be_val_append)

lemma carry_step: "(S + v div 256) mod K * 256 + v mod 256 = (S * 256 + v) mod (256 * K)" for S v K :: nat
proof -
  have "(v + S * 256) div 256 = S + v div 256" by simp
  moreover have "(v + S * 256) mod 256 = v mod 256" by simp
  ultimately show ?thesis
    using mod_mult2_eq [of "v + S * 256" 256 K] by (simp add: ac_simps)
qed

lemma adjustIV_loop_eq:
  assumes "j \<le> length out" "start + j \<le> length sb"
  shows "length (adjustIV_loop j start sb carry out) = length out \<and>
    drop j (adjustIV_loop j start sb carry out) = drop j out \<and>
    be_val (take j (adjustIV_loop j start sb carry out)) = (be_val (take j out) + be_val (take j (drop start sb)) + carry) mod 256 ^ j"
  using assms
proof (induction j arbitrary: out carry)
  case (Suc j)
  let ?v = "unat (out ! j) + unat (sb ! (start + j)) + carry"
  let ?out = "out[j := of_nat (?v mod 256)]"
  let ?r = "adjustIV_loop j start sb (?v div 256) ?out"
  let ?A = "be_val (take j out)" and ?B = "be_val (take j (drop start sb))"
  from Suc.IH [of ?out "?v div 256"] Suc.prems
  have r: "length ?r = length out" "drop j ?r = drop j ?out"
    "be_val (take j ?r) = (?A + ?B + ?v div 256) mod 256 ^ j"
    by auto
  have j: "j < length out" using Suc.prems by simp
  have "?r ! j = drop j ?r ! 0" using r(1) j by simp
  also have "\<dots> = of_nat (?v mod 256)" unfolding r(2) using j by simp
  finally have rj: "?r ! j = of_nat (?v mod 256)" .
  have d: "drop (Suc j) ?r = drop (Suc j) out"
  proof -
    have "drop (Suc j) ?r = drop 1 (drop j ?r)" by simp
    also have "\<dots> = drop (Suc j) out" unfolding r(2) by simp
    finally show ?thesis .
  qed
  have uv: "unat (of_nat (?v mod 256) :: byte) = ?v mod 256" by simp
  have "be_val (take (Suc j) ?r) = (?A + ?B + ?v div 256) mod 256 ^ j * 256 + ?v mod 256"
    using r(1,3) j by (simp only: take_Suc_conv_app_nth be_val_snoc rj uv)
  also have "\<dots> = ((?A + ?B) * 256 + ?v) mod 256 ^ Suc j"
    using carry_step [of "?A + ?B" ?v "256 ^ j"] by simp
  also have "(?A + ?B) * 256 + ?v = be_val (take (Suc j) out) + be_val (take (Suc j) (drop start sb)) + carry"
    using j Suc.prems by (simp add: take_Suc_conv_app_nth be_val_snoc)
  finally show ?case using r(1) d by (simp add: Let_def)
qed simp

lemma be_val_bytes:
  fixes v :: "'a::len word"
  shows "be_val (map (\<lambda>i. ucast (drop_bit (8 * i) v) :: byte) (rev [0..<n])) = unat v mod 256 ^ n"
proof (induction n)
  case (Suc n)
  have p: "(2::nat) ^ (8 * n) = 256 ^ n" by (simp add: power_mult)
  have "unat (ucast (drop_bit (8 * n) v) :: byte) = unat v div 256 ^ n mod 256"
    by (simp only: unsigned_ucast_eq unat_drop_bit_eq) (simp add: drop_bit_eq_div take_bit_eq_mod p)
  with Suc show ?case
    using mod_mult2_eq [of "unat v" "256 ^ n" 256] by (simp add: ac_simps)
qed simp

lemma put64_tail:
  assumes "n \<le> 8"
  shows "be_val (drop (8 - n) (put64 v)) = unat v mod 256 ^ n"
proof -
  have "put64 v = map (\<lambda>i. ucast (drop_bit (8 * i) v)) (rev [0..<8])"
    by (simp add: put64_def upt_rec)
  then have "drop (8 - n) (put64 v) = map (\<lambda>i. ucast (drop_bit (8 * i) v)) (rev [0..<n])"
    using assms by (simp add: drop_map drop_rev take_upt)
  then show ?thesis by (simp only: be_val_bytes)
qed

definition co_shape :: "ctrOMACProtector \<Rightarrow> bool" where
  "co_shape p \<longleftrightarrow> length (co_origIV p) \<le> 8 \<and> length (co_origIV p) \<le> co_blockSize p"

lemma adjustIV_eq:
  assumes "co_shape p"
  shows "length (adjustIV p seq) = co_blockSize p"
    and "be_val (take (length (co_origIV p)) (adjustIV p seq)) =
      (be_val (co_origIV p) + unat seq) mod 256 ^ length (co_origIV p)"
    and "drop (length (co_origIV p)) (adjustIV p seq) =
      replicate (co_blockSize p - length (co_origIV p)) 0"
proof -
  let ?L = "length (co_origIV p)"
  let ?out = "co_origIV p @ replicate (co_blockSize p - ?L) 0"
  have L: "?L \<le> 8" "?L \<le> co_blockSize p" using assms by (simp_all add: co_shape_def)
  have len: "length (put64 seq) = 8" by simp
  have "length (adjustIV_loop ?L (8 - ?L) (put64 seq) 0 ?out) = length ?out \<and>
    drop ?L (adjustIV_loop ?L (8 - ?L) (put64 seq) 0 ?out) = drop ?L ?out \<and>
    be_val (take ?L (adjustIV_loop ?L (8 - ?L) (put64 seq) 0 ?out)) =
      (be_val (take ?L ?out) + be_val (take ?L (drop (8 - ?L) (put64 seq))) + 0) mod 256 ^ ?L"
    using L by (intro adjustIV_loop_eq) simp_all
  moreover have "take ?L (drop (8 - ?L) (put64 seq)) = drop (8 - ?L) (put64 seq)"
    using L by simp
  ultimately show "length (adjustIV p seq) = co_blockSize p"
    "be_val (take ?L (adjustIV p seq)) = (be_val (co_origIV p) + unat seq) mod 256 ^ ?L"
    "drop ?L (adjustIV p seq) = replicate (co_blockSize p - ?L) 0"
    using L by (simp_all add: adjustIV_def Let_def ctr_size_defs put64_tail mod_add_right_eq)
qed

lemma add_mod_inj:
  assumes "a < (m::nat)" "b < m" "(c + a) mod m = (c + b) mod m"
  shows "a = b"
  using assms
proof (induction a b rule: linorder_wlog)
  case (le a b)
  then have "m dvd (c + b) - (c + a)"
    by (metis add_left_mono mod_eq_dvd_iff_nat)
  then have "m dvd b - a" by simp
  with le show ?case by (metis dvd_imp_le diff_is_0_eq le_antisym less_imp_diff_less linorder_not_less neq0_conv)
qed simp

definition co_ok :: "('x) rcrypto_scheme \<Rightarrow> ctrOMACProtector \<Rightarrow> bool" where
  "co_ok X p \<longleftrightarrow> co_shape p \<and> co_tagSize p \<le> 2048 \<and>
     (\<forall>k. case NewOMAC X (co_newBlock p k) (co_tagSize p) of
        Inl _ \<Rightarrow> False | Inr f \<Rightarrow> (\<forall>m. length (f m) = co_tagSize p)) \<and>
     (\<forall>k iv. length iv = co_blockSize p \<longrightarrow>
        (case NewCTRACPKM X (co_newBlock p) k iv (co_acpkmSection p) of
           Inl _ \<Rightarrow> False | Inr f \<Rightarrow> stream_ok f))"

lemma macHeaderForOMAC_cong:
  assumes "take 3 hdr' = take 3 hdr" "length hdr = 5" "length hdr' = 5"
  shows "macHeaderForOMAC hdr' n = macHeaderForOMAC hdr n"
proof -
  have "hdr' ! i = hdr ! i" if "i < 3" for i
    using that assms(1) by (metis nth_take)
  then show ?thesis by (simp add: macHeaderForOMAC_def)
qed

lemma ctrOMAC_Seal_Inr:
  assumes "co_ok X p" "ctrOMACProtector_Seal X p seq hdr plain = Inr frag"
  obtains omac ctr where
    "NewOMAC X (co_newBlock p (co_macTree p seq)) (co_tagSize p) = Inr omac"
    "\<forall>m. length (omac m) = co_tagSize p"
    "NewCTRACPKM X (co_newBlock p) (co_encTree p seq) (adjustIV p seq) (co_acpkmSection p) = Inr ctr"
    "stream_ok ctr"
    "frag = ctr (plain @ omac (put64 seq @ macHeaderForOMAC hdr (length plain) @ plain))"
proof -
  let ?mk = "co_newBlock p (co_macTree p seq)"
  obtain omac where omac: "NewOMAC X ?mk (co_tagSize p) = Inr omac" "\<forall>m. length (omac m) = co_tagSize p"
    using assms(1) unfolding co_ok_def
    by (cases "NewOMAC X ?mk (co_tagSize p)") (force split: sum.splits)+
  have "length (adjustIV p seq) = co_blockSize p"
    using assms(1) by (simp add: co_ok_def adjustIV_eq)
  then obtain ctr where ctr: "NewCTRACPKM X (co_newBlock p) (co_encTree p seq) (adjustIV p seq)
      (co_acpkmSection p) = Inr ctr" "stream_ok ctr"
    using assms(1) unfolding co_ok_def
    by (cases "NewCTRACPKM X (co_newBlock p) (co_encTree p seq) (adjustIV p seq) (co_acpkmSection p)")
       (force split: sum.splits)+
  from omac ctr assms(2) that show thesis
    by (simp add: ctrOMACProtector_Seal_def Let_def)
qed

lemma ctrOMAC_Seal_length:
  assumes "co_ok X p" "ctrOMACProtector_Seal X p seq hdr plain = Inr frag"
  shows "length frag = length plain + co_tagSize p"
  using assms by (rule ctrOMAC_Seal_Inr) (simp add: stream_ok_length)

lemma ctrOMAC_Open_Seal:
  assumes "co_ok X p" "length hdr = 5" "length hdr' = 5" "take 3 hdr' = take 3 hdr"
    and "ctrOMACProtector_Seal X p seq hdr plain = Inr frag"
  shows "ctrOMACProtector_Open X p seq hdr' frag = Inr plain"
  using assms(1,5)
proof (rule ctrOMAC_Seal_Inr)
  fix omac ctr
  assume omac: "NewOMAC X (co_newBlock p (co_macTree p seq)) (co_tagSize p) = Inr omac"
    "\<forall>m. length (omac m) = co_tagSize p"
    and ctr: "NewCTRACPKM X (co_newBlock p) (co_encTree p seq) (adjustIV p seq) (co_acpkmSection p) = Inr ctr"
    "stream_ok ctr"
    and frag: "frag = ctr (plain @ omac (put64 seq @ macHeaderForOMAC hdr (length plain) @ plain))"
  have "ctr frag = plain @ omac (put64 seq @ macHeaderForOMAC hdr (length plain) @ plain)"
    using frag stream_ok_involution [OF ctr(2)] by simp
  then show ?thesis
    using ctrOMAC_Seal_length [OF assms(1,5)] omac ctr(1) macHeaderForOMAC_cong [OF assms(4,2,3)]
    by (simp add: ctrOMACProtector_Open_def Let_def ConstantTimeCompare_def)
qed

interpretation ctromac: protector "pure_sealer (ctrOMACProtector_Seal X)"
  "pure_opener (ctrOMACProtector_Open X)" "\<lambda>s r. s = r \<and> co_ok X s" for X
proof
  fix s r :: ctrOMACProtector and plain hdr hdr' frag :: bytes and rnd rnd' :: reader
    and seq :: u64 and s'
  assume pr: "s = r \<and> co_ok X s"
    and seal: "pure_sealer (ctrOMACProtector_Seal X) s rnd seq hdr plain = (Inr frag, s', rnd')"
  { assume "length hdr = 5" "length hdr' = 5" "take 3 hdr' = take 3 hdr"
    with pr seal show "\<exists>r'. pure_opener (ctrOMACProtector_Open X) r seq hdr' frag = (Inr plain, r')
        \<and> s' = r' \<and> co_ok X s'"
      using ctrOMAC_Open_Seal by (auto simp: pure_sealer_def pure_opener_def) }
  show "length frag \<le> length plain + 2048"
    using pr seal ctrOMAC_Seal_length by (fastforce simp: pure_sealer_def co_ok_def)
qed

lemma adjustIV_eq_iff:
  assumes "co_shape p"
  shows "adjustIV p s1 = adjustIV p s2 \<longleftrightarrow>
    unat s1 mod 256 ^ length (co_origIV p) = unat s2 mod 256 ^ length (co_origIV p)" (is "_ \<longleftrightarrow> ?a mod ?M = ?b mod ?M")
proof -
  let ?L = "length (co_origIV p)" and ?v = "be_val (co_origIV p)"
  have v: "be_val (take ?L (adjustIV p s)) = (?v + unat s mod ?M) mod ?M" for s
    unfolding adjustIV_eq(2) [OF assms] by (simp only: mod_add_right_eq)
  have len: "length (take ?L (adjustIV p s1)) = length (take ?L (adjustIV p s2))"
    by (simp add: adjustIV_eq(1) [OF assms])
  have pos: "0 < ?M" by simp
  show ?thesis
  proof
    assume "adjustIV p s1 = adjustIV p s2"
    then have "(?v + ?a mod ?M) mod ?M = (?v + ?b mod ?M) mod ?M" unfolding v [symmetric] by (rule arg_cong)
    then show "?a mod ?M = ?b mod ?M" by (rule add_mod_inj [OF mod_less_divisor [OF pos] mod_less_divisor [OF pos]])
  next
    assume "?a mod ?M = ?b mod ?M"
    then have "take ?L (adjustIV p s1) = take ?L (adjustIV p s2)" by (intro be_val_inj [OF len]) (simp only: v)
    moreover have "drop ?L (adjustIV p s1) = drop ?L (adjustIV p s2)" by (simp only: adjustIV_eq(3) [OF assms])
    ultimately show "adjustIV p s1 = adjustIV p s2" by (metis append_take_drop_id)
  qed
qed

end
