(* ===== verification/RecordLayer.thy ===== *)
theory RecordLayer
  imports ProtectionGost
begin

text \<open>
  \<open>internal/record/record.go\<close>: the record layer.  The transport under it (an
  \<open>io.ReadWriter\<close>) and the system randomness are the record \<open>net\<close>: the bytes still to
  arrive and the error that ends them, the bytes written so far, and the outcome of every coming
  write.  A \<open>Protector\<close> interface value is a constructor of the datatype \<open>Protector\<close>;
  its dispatch functions interpret the interface of theory \<open>Protection\<close>.  Shown: bounds on
  what \<open>ReadRecord\<close> returns, sequence numbers that never wrap, and that the records one end
  writes are the records its peer reads.
\<close>

section \<open>Protector values\<close>

datatype Protector =
    NullProtector
  | CBCHMACProtector cbcHMACProtector
  | AEADProtector aeadProtector
  | ChaCha20Poly1305Protector chacha20Poly1305Protector
  | GOST28147Protector gost28147Protector
  | CTROMACProtector ctrOMACProtector

fun Protector_Seal :: "('x) rcrypto_scheme \<Rightarrow> Protector sealer" where
  "Protector_Seal X NullProtector rnd seq hdr plain =
     (nullProtector_Seal seq hdr plain, NullProtector, rnd)"
| "Protector_Seal X (CBCHMACProtector p) rnd seq hdr plain =
     (case cbcHMACProtector_Seal p seq hdr plain rnd of (res, rnd') \<Rightarrow> (res, CBCHMACProtector p, rnd'))"
| "Protector_Seal X (AEADProtector p) rnd seq hdr plain =
     (aeadProtector_Seal p seq hdr plain, AEADProtector p, rnd)"
| "Protector_Seal X (ChaCha20Poly1305Protector p) rnd seq hdr plain =
     (chacha20Poly1305Protector_Seal p seq hdr plain, ChaCha20Poly1305Protector p, rnd)"
| "Protector_Seal X (GOST28147Protector p) rnd seq hdr plain =
     (case gost28147Protector_Seal X p seq hdr plain of (res, p') \<Rightarrow> (res, GOST28147Protector p', rnd))"
| "Protector_Seal X (CTROMACProtector p) rnd seq hdr plain =
     (ctrOMACProtector_Seal X p seq hdr plain, CTROMACProtector p, rnd)"

fun Protector_Open :: "('x) rcrypto_scheme \<Rightarrow> Protector opener" where
  "Protector_Open X NullProtector seq hdr fragment = (nullProtector_Open seq hdr fragment, NullProtector)"
| "Protector_Open X (CBCHMACProtector p) seq hdr fragment =
     (cbcHMACProtector_Open p seq hdr fragment, CBCHMACProtector p)"
| "Protector_Open X (AEADProtector p) seq hdr fragment =
     (aeadProtector_Open p seq hdr fragment, AEADProtector p)"
| "Protector_Open X (ChaCha20Poly1305Protector p) seq hdr fragment =
     (chacha20Poly1305Protector_Open p seq hdr fragment, ChaCha20Poly1305Protector p)"
| "Protector_Open X (GOST28147Protector p) seq hdr fragment =
     (case gost28147Protector_Open X p seq hdr fragment of (res, p') \<Rightarrow> (res, GOST28147Protector p'))"
| "Protector_Open X (CTROMACProtector p) seq hdr fragment =
     (ctrOMACProtector_Open X p seq hdr fragment, CTROMACProtector p)"

section \<open>The transport\<close>

record net =
  n_in :: reader
  n_out :: bytes
  n_plan :: "nat option list"  \<comment> \<open>coming writes: \<open>None\<close> succeeds, \<open>Some k\<close> fails after \<open>k\<close> bytes; all later ones succeed\<close>
  n_rand :: reader

definition net_Write :: "bytes \<Rightarrow> (net, unit) sm" where
  "net_Write b w =
     (case n_plan w of
        [] \<Rightarrow> (Inr (), w\<lparr>n_out := n_out w @ b\<rparr>)
      | None # ps \<Rightarrow> (Inr (), w\<lparr>n_out := n_out w @ b, n_plan := ps\<rparr>)
      | Some k # ps \<Rightarrow> (Inl (TransportErr ''write''), w\<lparr>n_out := n_out w @ take k b, n_plan := ps\<rparr>))"

definition net_ReadFull :: "nat \<Rightarrow> (net, bytes) sm" where
  "net_ReadFull n w = (case ReadFull n (n_in w) of (res, r) \<Rightarrow> (res, w\<lparr>n_in := r\<rparr>))"

section \<open>The layer\<close>

definition ContentTypeChangeCipherSpec :: byte where "ContentTypeChangeCipherSpec = 20"
definition ContentTypeAlert :: byte where "ContentTypeAlert = 21"
definition ContentTypeHandshake :: byte where "ContentTypeHandshake = 22"
definition ContentTypeApplicationData :: byte where "ContentTypeApplicationData = 23"

lemmas content_type_defs = ContentTypeChangeCipherSpec_def ContentTypeAlert_def
  ContentTypeHandshake_def ContentTypeApplicationData_def

definition tlsVersion :: u16 where "tlsVersion = 0x0303"
definition tlsMaxPlaintextLen :: nat where "tlsMaxPlaintextLen = 2 ^ 14"
definition tlsMaxCiphertextOverhead :: nat where "tlsMaxCiphertextOverhead = 2048"
definition maxFragmentLen :: nat where "maxFragmentLen = tlsMaxPlaintextLen + tlsMaxCiphertextOverhead"
definition recordHeaderLen :: nat where "recordHeaderLen = 5"

lemmas record_const_defs = tlsVersion_def tlsMaxPlaintextLen_def tlsMaxCiphertextOverhead_def
  maxFragmentLen_def recordHeaderLen_def

definition isAcceptedRecordVersion :: "u16 \<Rightarrow> bool" where
  "isAcceptedRecordVersion ver \<longleftrightarrow>
     (ucast (drop_bit 8 ver) :: byte) = 0x03 \<and> (ucast ver :: byte) \<ge> 0x01 \<and>
     (ucast ver :: byte) \<le> ucast (tlsVersion AND 0xFF)"

definition isKnownContentType :: "byte \<Rightarrow> bool" where
  "isKnownContentType ct \<longleftrightarrow>
     ct = ContentTypeChangeCipherSpec \<or> ct = ContentTypeAlert \<or>
     ct = ContentTypeHandshake \<or> ct = ContentTypeApplicationData"

record Layer =
  l_rw :: net
  l_sendSeq :: u64
  l_recvSeq :: u64
  l_sendProt :: Protector
  l_recvProt :: Protector

definition NewLayerWithSeq :: "net \<Rightarrow> u64 \<Rightarrow> Layer" where
  "NewLayerWithSeq rw initialSeq =
     \<lparr>l_rw = rw, l_sendSeq = initialSeq, l_recvSeq = initialSeq,
      l_sendProt = NullProtector, l_recvProt = NullProtector\<rparr>"

definition NewLayer :: "net \<Rightarrow> Layer" where
  "NewLayer rw = NewLayerWithSeq rw 0"

definition ChangeCipherSpec :: "Protector option \<Rightarrow> Protector option \<Rightarrow> Layer \<Rightarrow> Layer" where
  "ChangeCipherSpec send recv l =
     (let l = (case send of None \<Rightarrow> l | Some p \<Rightarrow> l\<lparr>l_sendProt := p, l_sendSeq := 0\<rparr>)
      in case recv of None \<Rightarrow> l | Some p \<Rightarrow> l\<lparr>l_recvProt := p, l_recvSeq := 0\<rparr>)"

definition layer_Write :: "bytes \<Rightarrow> (Layer, unit) sm" where
  "layer_Write b l = (case net_Write b (l_rw l) of (res, w) \<Rightarrow> (res, l\<lparr>l_rw := w\<rparr>))"

definition layer_ReadFull :: "nat \<Rightarrow> (Layer, bytes) sm" where
  "layer_ReadFull n l = (case net_ReadFull n (l_rw l) of (res, w) \<Rightarrow> (res, l\<lparr>l_rw := w\<rparr>))"

text \<open>\<open>l.sendProt.Seal\<close> and \<open>l.recvProt.Open\<close> on the layer's state.\<close>

definition layer_Seal :: "('x) rcrypto_scheme \<Rightarrow> bytes \<Rightarrow> bytes \<Rightarrow> (Layer, bytes) sm" where
  "layer_Seal X hdr payload l =
     (case Protector_Seal X (l_sendProt l) (n_rand (l_rw l)) (l_sendSeq l) hdr payload of
        (res, p, rnd) \<Rightarrow> (res, l\<lparr>l_sendProt := p, l_rw := (l_rw l)\<lparr>n_rand := rnd\<rparr>\<rparr>))"

definition layer_Open :: "('x) rcrypto_scheme \<Rightarrow> bytes \<Rightarrow> bytes \<Rightarrow> (Layer, bytes) sm" where
  "layer_Open X hdr fragment l =
     (case Protector_Open X (l_recvProt l) (l_recvSeq l) hdr fragment of
        (res, p) \<Rightarrow> (res, l\<lparr>l_recvProt := p\<rparr>))"

definition WriteRecord :: "('x) rcrypto_scheme \<Rightarrow> byte \<Rightarrow> bytes \<Rightarrow> (Layer, unit) sm" where
  "WriteRecord X contentType payload l =
     (if \<not> isKnownContentType contentType then (Inl (fatalRecordError ''unknown content type''), l)
      else if length payload > tlsMaxPlaintextLen then
        (Inl (fatalRecordError ''plaintext payload exceeds 2^14 bytes''), l)
      else if l_sendSeq l = - 1 then (Inl (fatalRecordError ''sequence number overflow''), l)
      else
        let hdr = [contentType, ucast (drop_bit 8 tlsVersion), ucast (tlsVersion AND 0xFF), 0, 0]
        in bindS (layer_Seal X hdr payload) (\<lambda>fragment.
           let hdr = take 3 hdr @ put16 (of_nat (length fragment))
           in bindS (layer_Write hdr) (\<lambda>_.
              bindS (layer_Write fragment) (\<lambda>_.
              modifyS (\<lambda>l. l\<lparr>l_sendSeq := l_sendSeq l + 1\<rparr>)))) l)"

definition ReadRecord :: "('x) rcrypto_scheme \<Rightarrow> (Layer, byte \<times> bytes) sm" where
  "ReadRecord X l =
     (if l_recvSeq l = - 1 then (Inl (fatalRecordError ''sequence number overflow''), l)
      else
        bindS (layer_ReadFull recordHeaderLen) (\<lambda>hdr.
        let ct = hdr ! 0;
            ver = get16 (hdr ! 1) (hdr ! 2);
            len = get16 (hdr ! 3) (hdr ! 4)
        in if \<not> isKnownContentType ct then failS (NewFatalAlertError AlertIllegalParameter)
           else if \<not> isAcceptedRecordVersion ver then failS (NewFatalAlertError AlertProtocolVersion)
           else if unat len > maxFragmentLen then failS (NewFatalAlertError AlertRecordOverflow)
           else
             bindS (layer_ReadFull (unat len)) (\<lambda>fragment.
             bindS (layer_Open X hdr fragment) (\<lambda>plain.
             if length plain > tlsMaxPlaintextLen then failS (NewFatalAlertError AlertRecordOverflow)
             else
               bindS (modifyS (\<lambda>l. l\<lparr>l_recvSeq := l_recvSeq l + 1\<rparr>)) (\<lambda>_.
               returnS (ct, plain))))) l)"

section \<open>The sum of the protectors is a protector\<close>

fun peerP :: "('x) rcrypto_scheme \<Rightarrow> Protector \<Rightarrow> Protector \<Rightarrow> bool" where
  "peerP X NullProtector NullProtector = True"
| "peerP X (CBCHMACProtector p) (CBCHMACProtector q) = (p = q \<and> cbc_ok p)"
| "peerP X (AEADProtector p) (AEADProtector q) = (p = q \<and> aead_ok (ap_aead p))"
| "peerP X (ChaCha20Poly1305Protector p) (ChaCha20Poly1305Protector q) = (p = q \<and> aead_ok (cp_aead p))"
| "peerP X (GOST28147Protector p) (GOST28147Protector q) = (p = q \<and> gp_ok X p)"
| "peerP X (CTROMACProtector p) (CTROMACProtector q) = (p = q \<and> co_ok X p)"
| "peerP X _ _ = False"

lemma Protector_open_seal:
  assumes "peerP X s r" "length plain \<le> 16384" "length hdr = 5" "length hdr' = 5"
    "take 3 hdr' = take 3 hdr" "Protector_Seal X s rnd seq hdr plain = (Inr frag, s', rnd')"
  shows "\<exists>r'. Protector_Open X r seq hdr' frag = (Inr plain, r') \<and> peerP X s' r'"
  using assms
proof (cases "(X, s, r)" rule: peerP.cases)
  case (2 Y p q)
  with assms show ?thesis by (auto split: prod.splits dest: cbc_Open_Seal)
next
  case (3 Y p q)
  with assms show ?thesis by (auto dest: aead_Open_Seal)
next
  case (4 Y p q)
  with assms show ?thesis by (auto dest: chacha_Open_Seal)
next
  case (5 Y p q)
  with assms obtain p' where seal: "gost28147Protector_Seal X p seq hdr plain = (Inr frag, p')"
    "s' = GOST28147Protector p'" "gp_ok X p" by (auto split: prod.splits)
  from gost28147_Open_Seal [OF seal(3) assms(5) seal(1)] 5 assms(1) seal(2) show ?thesis by auto
next
  case (6 Y p q)
  with assms show ?thesis by (auto dest: ctrOMAC_Open_Seal)
qed (auto simp: nullProtector_Seal_def nullProtector_Open_def)

lemma Protector_expansion:
  assumes "peerP X s r" "length plain \<le> 16384"
    "Protector_Seal X s rnd seq hdr plain = (Inr frag, s', rnd')"
  shows "length frag \<le> length plain + 2048"
  using assms
proof (cases "(X, s, r)" rule: peerP.cases)
  case (2 Y p q)
  with assms show ?thesis by (auto split: prod.splits dest: cbc_Open_Seal(2) [OF _ _ refl])
next
  case (3 Y p q)
  with assms show ?thesis by (auto dest: aead_Open_Seal(2) [OF _ refl])
next
  case (4 Y p q)
  with assms show ?thesis by (auto dest: chacha_Open_Seal(2) [OF _ refl])
next
  case (5 Y p q)
  with assms show ?thesis by (auto split: prod.splits dest: gost28147_Open_Seal(3) [OF _ refl])
next
  case (6 Y p q)
  with assms have "co_ok X p" "ctrOMACProtector_Seal X p seq hdr plain = Inr frag" by auto
  then show ?thesis using ctrOMAC_Seal_length by (fastforce simp: co_ok_def)
qed (auto simp: nullProtector_Seal_def)

interpretation prot: protector "Protector_Seal X" "Protector_Open X" "peerP X" for X
  by unfold_locales (auto intro: Protector_open_seal Protector_expansion)

section \<open>Writing and reading one record\<close>

definition record_bytes :: "byte \<Rightarrow> bytes \<Rightarrow> bytes" where
  "record_bytes ct frag = [ct, 3, 3] @ put16 (of_nat (length frag)) @ frag"

lemma version_bytes:
  "(ucast (drop_bit 8 tlsVersion) :: byte) = 3" "(ucast (tlsVersion AND 0xFF) :: byte) = 3"
  by (simp_all add: tlsVersion_def)

lemma net_Write_Inr:
  "net_Write b w = (Inr (), w') \<Longrightarrow>
     n_out w' = n_out w @ b \<and> n_in w' = n_in w \<and> n_rand w' = n_rand w"
  by (auto simp: net_Write_def split: list.splits option.splits)

lemma layer_Write_Inr:
  "layer_Write b l = (Inr (), l') \<Longrightarrow>
     \<exists>w. l' = l\<lparr>l_rw := w\<rparr> \<and> n_out w = n_out (l_rw l) @ b \<and> n_in w = n_in (l_rw l) \<and> n_rand w = n_rand (l_rw l)"
  by (auto simp: layer_Write_def dest!: net_Write_Inr split: prod.splits)

lemma WriteRecord_Inr:
  assumes "WriteRecord X ct payload l = (Inr (), l')"
  obtains frag p rnd where
    "isKnownContentType ct" "length payload \<le> 16384" "l_sendSeq l \<noteq> - 1"
    "Protector_Seal X (l_sendProt l) (n_rand (l_rw l)) (l_sendSeq l) [ct, 3, 3, 0, 0] payload = (Inr frag, p, rnd)"
    "n_out (l_rw l') = n_out (l_rw l) @ record_bytes ct frag"
    "n_in (l_rw l') = n_in (l_rw l)" "n_rand (l_rw l') = rnd"
    "l_sendProt l' = p" "l_sendSeq l' = l_sendSeq l + 1"
    "l_recvProt l' = l_recvProt l" "l_recvSeq l' = l_recvSeq l"
proof -
  from assms have known: "isKnownContentType ct" and len: "length payload \<le> 16384"
    and seq: "l_sendSeq l \<noteq> - 1"
    by (auto simp: WriteRecord_def record_const_defs split: if_splits)
  obtain frag p rnd where
    seal: "Protector_Seal X (l_sendProt l) (n_rand (l_rw l)) (l_sendSeq l) [ct, 3, 3, 0, 0] payload = (Inr frag, p, rnd)"
    and wr: "bindS (layer_Write ([ct, 3, 3] @ put16 (of_nat (length frag)))) (\<lambda>_.
              bindS (layer_Write frag) (\<lambda>_. modifyS (\<lambda>l. l\<lparr>l_sendSeq := l_sendSeq l + 1\<rparr>)))
              (l\<lparr>l_sendProt := p, l_rw := (l_rw l)\<lparr>n_rand := rnd\<rparr>\<rparr>) = (Inr (), l')"
    using assms known len seq
    by (auto simp: WriteRecord_def record_const_defs version_bytes [unfolded tlsVersion_def] layer_Seal_def
        bindS_eq_Inr Let_def split: prod.splits)
  from wr show thesis
    by (auto simp: bindS_eq_Inr record_bytes_def dest!: layer_Write_Inr
        intro!: that [OF known len seq seal])
qed

lemma record_bytes_length [simp]: "length (record_bytes ct frag) = length frag + 5"
  by (simp add: record_bytes_def)

lemma accepted_303: "isAcceptedRecordVersion (get16 3 3)"
  by (simp add: isAcceptedRecordVersion_def get16_def tlsVersion_def)

lemma layer_ReadFull_data:
  assumes "r_data (n_in (l_rw l)) = b @ rest" "length b = n"
  shows "layer_ReadFull n l = (Inr b, l\<lparr>l_rw := (l_rw l)\<lparr>n_in := (n_in (l_rw l))\<lparr>r_data := rest\<rparr>\<rparr>\<rparr>)"
  using assms by (simp add: layer_ReadFull_def net_ReadFull_def)

lemma ReadRecord_data:
  assumes data: "r_data (n_in (l_rw l)) = record_bytes ct frag @ rest"
    and "isKnownContentType ct" "length frag \<le> 18432" "l_recvSeq l \<noteq> - 1"
    and op: "Protector_Open X (l_recvProt l) (l_recvSeq l) ([ct, 3, 3] @ put16 (of_nat (length frag))) frag = (Inr plain, p)"
    and len: "length plain \<le> 16384"
  shows "ReadRecord X l =
    (Inr (ct, plain),
     l\<lparr>l_rw := (l_rw l)\<lparr>n_in := (n_in (l_rw l))\<lparr>r_data := rest\<rparr>\<rparr>, l_recvProt := p, l_recvSeq := l_recvSeq l + 1\<rparr>)"
proof -
  let ?hdr = "[ct, 3, 3] @ put16 (of_nat (length frag))"
  let ?l1 = "l\<lparr>l_rw := (l_rw l)\<lparr>n_in := (n_in (l_rw l))\<lparr>r_data := frag @ rest\<rparr>\<rparr>\<rparr>"
  have h: "layer_ReadFull 5 l = (Inr ?hdr, ?l1)"
    using data by (intro layer_ReadFull_data) (simp_all add: record_bytes_def)
  have n: "get16 (?hdr ! 3) (?hdr ! 4) = of_nat (length frag)" by (simp add: put16_def)
  have f: "layer_ReadFull (length frag) ?l1 = (Inr frag, l\<lparr>l_rw := (l_rw l)\<lparr>n_in := (n_in (l_rw l))\<lparr>r_data := rest\<rparr>\<rparr>\<rparr>)"
    by (subst layer_ReadFull_data [of _ frag rest]) simp_all
  show ?thesis
    unfolding ReadRecord_def record_const_defs
    using assms(2-) h n f accepted_303
    by (simp add: Let_def layer_Open_def)
qed

section \<open>What \<open>ReadRecord\<close> returns\<close>

lemma layer_ReadFull_Inr:
  assumes "layer_ReadFull n l = (Inr b, l')"
  shows "length b = n" "r_data (n_in (l_rw l)) = b @ r_data (n_in (l_rw l'))"
    "r_err (n_in (l_rw l')) = r_err (n_in (l_rw l))"
    "l' = l\<lparr>l_rw := (l_rw l)\<lparr>n_in := n_in (l_rw l')\<rparr>\<rparr>"
  using assms by (auto simp: layer_ReadFull_def net_ReadFull_def dest: ReadFull_Inr split: prod.splits)

lemma ReadRecord_Inr:
  assumes "ReadRecord X l = (Inr (ct, plain), l')"
  shows "isKnownContentType ct" "length plain \<le> 16384" "l_recvSeq l \<noteq> - 1"
    "l_recvSeq l' = l_recvSeq l + 1" "l_sendSeq l' = l_sendSeq l" "l_sendProt l' = l_sendProt l"
    "n_out (l_rw l') = n_out (l_rw l)" "n_rand (l_rw l') = n_rand (l_rw l)"
    "length (r_data (n_in (l_rw l'))) + 5 \<le> length (r_data (n_in (l_rw l)))"
proof -
  obtain hdr l1 frag l2 p where seq: "l_recvSeq l \<noteq> - 1"
    and h: "layer_ReadFull 5 l = (Inr hdr, l1)" and k: "isKnownContentType (hdr ! 0)"
    and f: "layer_ReadFull (unat (get16 (hdr ! 3) (hdr ! 4))) l1 = (Inr frag, l2)"
    and o: "Protector_Open X (l_recvProt l2) (l_recvSeq l2) hdr frag = (Inr plain, p)"
    and len: "length plain \<le> 16384"
    and res: "ct = hdr ! 0" "l' = l2\<lparr>l_recvProt := p, l_recvSeq := l_recvSeq l2 + 1\<rparr>"
    using assms
    by (auto simp: ReadRecord_def record_const_defs bindS_eq_Inr Let_def layer_Open_def
        split: if_splits prod.splits)
  note h' = layer_ReadFull_Inr [OF h] and f' = layer_ReadFull_Inr [OF f]
  show "isKnownContentType ct" "length plain \<le> 16384" "l_recvSeq l \<noteq> - 1"
    using k res(1) len seq by simp_all
  obtain i1 where "l1 = l\<lparr>l_rw := (l_rw l)\<lparr>n_in := i1\<rparr>\<rparr>" using h'(4) by blast
  moreover obtain i2 where "l2 = l1\<lparr>l_rw := (l_rw l1)\<lparr>n_in := i2\<rparr>\<rparr>" using f'(4) by blast
  ultimately have l2: "l2 = l\<lparr>l_rw := (l_rw l)\<lparr>n_in := i2\<rparr>\<rparr>" by simp
  show "l_recvSeq l' = l_recvSeq l + 1" "l_sendSeq l' = l_sendSeq l" "l_sendProt l' = l_sendProt l"
    "n_out (l_rw l') = n_out (l_rw l)" "n_rand (l_rw l') = n_rand (l_rw l)"
    unfolding res(2) l2 by simp_all
  show "length (r_data (n_in (l_rw l'))) + 5 \<le> length (r_data (n_in (l_rw l)))"
    using h'(1,2) f'(2) res(2) by simp
qed

section \<open>What an error leaves of the layer\<close>

lemma layer_Write_fields:
  assumes "layer_Write b l = (res, l')"
  shows "l_sendSeq l' = l_sendSeq l \<and> l_recvSeq l' = l_recvSeq l \<and> l_sendProt l' = l_sendProt l \<and>
    l_recvProt l' = l_recvProt l \<and> n_in (l_rw l') = n_in (l_rw l)"
  using assms by (auto simp: layer_Write_def net_Write_def split: prod.splits list.splits option.splits)

lemma layer_Seal_fields:
  assumes "layer_Seal X hdr payload l = (res, l')"
  shows "l_sendSeq l' = l_sendSeq l \<and> l_recvSeq l' = l_recvSeq l \<and> l_recvProt l' = l_recvProt l \<and>
    n_in (l_rw l') = n_in (l_rw l) \<and> n_out (l_rw l') = n_out (l_rw l)"
  using assms by (auto simp: layer_Seal_def split: prod.splits)

lemma WriteRecord_Inl:
  assumes "WriteRecord X ct payload l = (Inl e, l')"
  shows "l_sendSeq l' = l_sendSeq l" "l_recvSeq l' = l_recvSeq l" "l_recvProt l' = l_recvProt l"
    "n_in (l_rw l') = n_in (l_rw l)"
  using assms unfolding WriteRecord_def
  by (auto simp: bindS_eq_Inl Let_def modifyS_def split: if_splits
      dest!: layer_Write_fields layer_Seal_fields)

lemma layer_Write_Inl:
  assumes "layer_Write b l = (Inl e, l')"
  shows "\<exists>k. n_out (l_rw l') = n_out (l_rw l) @ take k b"
  using assms by (auto simp: layer_Write_def net_Write_def split: prod.splits list.splits option.splits)

lemma layer_ReadFull_fields:
  assumes "layer_ReadFull n l = (res, l')"
  shows "l_sendSeq l' = l_sendSeq l \<and> l_recvSeq l' = l_recvSeq l \<and> l_sendProt l' = l_sendProt l \<and>
    l_recvProt l' = l_recvProt l \<and> n_out (l_rw l') = n_out (l_rw l) \<and> n_rand (l_rw l') = n_rand (l_rw l) \<and>
    length (r_data (n_in (l_rw l'))) \<le> length (r_data (n_in (l_rw l)))"
  using assms by (auto simp: layer_ReadFull_def net_ReadFull_def ReadFull_def split: prod.splits if_splits)

lemma layer_Open_fields:
  assumes "layer_Open X hdr frag l = (res, l')"
  shows "l_sendSeq l' = l_sendSeq l \<and> l_recvSeq l' = l_recvSeq l \<and> l_sendProt l' = l_sendProt l \<and> l_rw l' = l_rw l"
  using assms by (auto simp: layer_Open_def split: prod.splits)

lemma ReadRecord_Inl:
  assumes "ReadRecord X l = (Inl e, l')"
  shows "l_recvSeq l' = l_recvSeq l" "l_sendSeq l' = l_sendSeq l" "l_sendProt l' = l_sendProt l"
    "n_out (l_rw l') = n_out (l_rw l)" "length (r_data (n_in (l_rw l'))) \<le> length (r_data (n_in (l_rw l)))"
  using assms unfolding ReadRecord_def
  by (auto simp: bindS_eq_Inl Let_def modifyS_def returnS_def failS_def split: if_splits
      dest!: layer_ReadFull_fields layer_Open_fields)

lemma WriteRecord_TransportErr:
  assumes "WriteRecord X ct payload l = (Inl (TransportErr w), l')"
    and "l_sendProt l = p"
    and "\<And>e q rnd. Protector_Seal X p (n_rand (l_rw l)) (l_sendSeq l) [ct, 3, 3, 0, 0] payload = (Inl e, q, rnd) \<Longrightarrow> e \<noteq> TransportErr w"
  shows "\<exists>frag k q rnd. Protector_Seal X p (n_rand (l_rw l)) (l_sendSeq l) [ct, 3, 3, 0, 0] payload = (Inr frag, q, rnd) \<and>
    l_sendProt l' = q \<and> n_out (l_rw l') = n_out (l_rw l) @ take k (record_bytes ct frag)"
proof -
  from assms(1) have known: "isKnownContentType ct" and len: "length payload \<le> 16384" and seq: "l_sendSeq l \<noteq> - 1"
    by (auto simp: WriteRecord_def record_const_defs fatalRecordError_def split: if_splits)
  let ?seal = "Protector_Seal X p (n_rand (l_rw l)) (l_sendSeq l) [ct, 3, 3, 0, 0] payload"
  obtain frag q rnd where seal: "?seal = (Inr frag, q, rnd)"
    and wr: "bindS (layer_Write ([ct, 3, 3] @ put16 (of_nat (length frag)))) (\<lambda>_.
              bindS (layer_Write frag) (\<lambda>_. modifyS (\<lambda>l. l\<lparr>l_sendSeq := l_sendSeq l + 1\<rparr>)))
              (l\<lparr>l_sendProt := q, l_rw := (l_rw l)\<lparr>n_rand := rnd\<rparr>\<rparr>) = (Inl (TransportErr w), l')"
    using assms known len seq
    by (auto simp: WriteRecord_def record_const_defs version_bytes [unfolded tlsVersion_def] layer_Seal_def
        bindS_eq_Inl Let_def split: prod.splits)
  let ?hdr = "[ct, 3, 3] @ put16 (of_nat (length frag))"
  let ?l = "l\<lparr>l_sendProt := q, l_rw := (l_rw l)\<lparr>n_rand := rnd\<rparr>\<rparr>"
  have "\<exists>k. l_sendProt l' = q \<and> n_out (l_rw l') = n_out (l_rw l) @ take k (?hdr @ frag)"
  proof (cases "layer_Write ?hdr ?l")
    case (Pair r l1)
    show ?thesis
    proof (cases r)
      case (Inl e)
      with wr Pair have "l' = l1" by (simp add: bindS_def)
      with layer_Write_Inl [OF Pair [unfolded Inl]] layer_Write_fields [OF Pair] take_append_prefix(1) [of _ ?hdr frag]
      show ?thesis by auto
    next
      case (Inr u)
      with wr Pair have "layer_Write frag l1 = (Inl (TransportErr w), l')"
        by (auto simp: bindS_def modifyS_def split: prod.splits sum.splits)
      with layer_Write_Inl [OF this] layer_Write_fields [OF this] layer_Write_fields [OF Pair] layer_Write_Inr [of ?hdr ?l l1] Pair Inr
        take_append_prefix(2) [of ?hdr _ frag]
      show ?thesis by auto
    qed
  qed
  with seal show ?thesis by (auto simp: record_bytes_def)
qed

section \<open>A sequence of records\<close>

fun WriteRecords :: "('x) rcrypto_scheme \<Rightarrow> (byte \<times> bytes) list \<Rightarrow> (Layer, unit) sm" where
  "WriteRecords X [] = returnS ()"
| "WriteRecords X ((ct, payload) # rs) = bindS (WriteRecord X ct payload) (\<lambda>_. WriteRecords X rs)"

fun ReadRecords :: "('x) rcrypto_scheme \<Rightarrow> nat \<Rightarrow> (Layer, (byte \<times> bytes) list) sm" where
  "ReadRecords X 0 = returnS []"
| "ReadRecords X (Suc n) = bindS (ReadRecord X) (\<lambda>r. bindS (ReadRecords X n) (\<lambda>rs. returnS (r # rs)))"

lemma WriteRecords_out:
  "WriteRecords X rs s = (Inr (), s') \<Longrightarrow> \<exists>wire. n_out (l_rw s') = n_out (l_rw s) @ wire"
proof (induction rs arbitrary: s)
  case (Cons rc rs)
  obtain ct payload where rc: "rc = (ct, payload)" by (cases rc)
  from Cons.prems rc obtain s1 where w: "WriteRecord X ct payload s = (Inr (), s1)"
    and ws: "WriteRecords X rs s1 = (Inr (), s')"
    by (auto simp: bindS_eq_Inr)
  from w obtain w1 where "n_out (l_rw s1) = n_out (l_rw s) @ w1" by (rule WriteRecord_Inr) auto
  with Cons.IH [OF ws] show ?case by auto
qed simp

text \<open>A sender and a receiver that share keys and position, with the receiver's input starting
  with what the sender is about to write.\<close>

definition in_sync :: "('x) rcrypto_scheme \<Rightarrow> Layer \<Rightarrow> Layer \<Rightarrow> bool" where
  "in_sync X s r \<longleftrightarrow> peerP X (l_sendProt s) (l_recvProt r) \<and> l_recvSeq r = l_sendSeq s"

lemma ReadRecord_WriteRecord:
  assumes sync: "in_sync X s r" and wr: "WriteRecord X ct payload s = (Inr (), s')"
    and wire: "n_out (l_rw s') = n_out (l_rw s) @ wire" and data: "r_data (n_in (l_rw r)) = wire @ rest"
  shows "\<exists>r'. ReadRecord X r = (Inr (ct, payload), r') \<and> in_sync X s' r' \<and> r_data (n_in (l_rw r')) = rest"
  using wr
proof (rule WriteRecord_Inr)
  fix frag p rnd
  assume known: "isKnownContentType ct" and len: "length payload \<le> 16384" and seq: "l_sendSeq s \<noteq> - 1"
    and seal: "Protector_Seal X (l_sendProt s) (n_rand (l_rw s)) (l_sendSeq s) [ct, 3, 3, 0, 0] payload = (Inr frag, p, rnd)"
    and out: "n_out (l_rw s') = n_out (l_rw s) @ record_bytes ct frag"
    and s': "l_sendProt s' = p" "l_sendSeq s' = l_sendSeq s + 1"
  let ?hdr = "[ct, 3, 3] @ put16 (of_nat (length frag))"
  have peer: "peerP X (l_sendProt s) (l_recvProt r)" and sq: "l_recvSeq r = l_sendSeq s"
    using sync by (simp_all add: in_sync_def)
  obtain q where q: "Protector_Open X (l_recvProt r) (l_sendSeq s) ?hdr frag = (Inr payload, q)" "peerP X p q"
    using prot.open_seal [OF peer len _ _ _ seal, of ?hdr] by auto
  have fl: "length frag \<le> 18432" using prot.expansion [OF peer len seal] len by simp
  have "r_data (n_in (l_rw r)) = record_bytes ct frag @ rest" using wire out data by simp
  from ReadRecord_data [OF this known fl _ q(1) [folded sq] len] seq sq q(2) s'
  show ?thesis by (simp add: in_sync_def)
qed

lemma ReadRecords_WriteRecords:
  assumes "in_sync X s r" "WriteRecords X rs s = (Inr (), s')"
    and "n_out (l_rw s') = n_out (l_rw s) @ wire" "r_data (n_in (l_rw r)) = wire @ rest"
  shows "\<exists>r'. ReadRecords X (length rs) r = (Inr rs, r') \<and> in_sync X s' r' \<and> r_data (n_in (l_rw r')) = rest"
  using assms
proof (induction rs arbitrary: s r wire)
  case (Cons rc rs)
  obtain ct payload where rc: "rc = (ct, payload)" by (cases rc)
  from Cons.prems(2) rc obtain s1 where w: "WriteRecord X ct payload s = (Inr (), s1)"
    and ws: "WriteRecords X rs s1 = (Inr (), s')"
    by (auto simp: bindS_eq_Inr)
  obtain w1 where w1: "n_out (l_rw s1) = n_out (l_rw s) @ w1" using w by (rule WriteRecord_Inr) auto
  obtain w2 where w2: "n_out (l_rw s') = n_out (l_rw s1) @ w2" using WriteRecords_out [OF ws] by blast
  have "wire = w1 @ w2" using Cons.prems(3) w1 w2 by simp
  then have d: "r_data (n_in (l_rw r)) = w1 @ (w2 @ rest)" using Cons.prems(4) by simp
  obtain r1 where r1: "ReadRecord X r = (Inr (ct, payload), r1)" "in_sync X s1 r1" "r_data (n_in (l_rw r1)) = w2 @ rest"
    using ReadRecord_WriteRecord [OF Cons.prems(1) w w1 d] by blast
  obtain r' where "ReadRecords X (length rs) r1 = (Inr rs, r')" "in_sync X s' r'" "r_data (n_in (l_rw r')) = rest"
    using Cons.IH [OF r1(2) ws w2 r1(3)] by blast
  with r1(1) rc show ?case by simp
qed simp

end
