(* ===== verification/Suites.thy ===== *)
theory Suites
  imports Crypto
begin

text \<open>
  \<open>internal/suites\<close> and the root's \<open>suites.go\<close>: the cipher-suite registry with its
  32 suites, the TLS 1.2 PRF, and the key schedule.  A \<open>func() hash.Hash\<close> stored in a suite
  is a value of \<open>HashFn\<close>; the argument \<open>H\<close> of the derivation functions gives the hash it
  constructs.  The registry is the state of the two Go maps and the order slice, built by
  running the \<open>init\<close> functions (cmd/go runs them in file-name order: \<open>gost_suites.go\<close>
  before \<open>registry.go\<close>).
\<close>

section \<open>Suites\<close>

datatype KexKind = KexRSA | KexDHE | KexECDHE | KexGOST2001 | KexGOST2012_256 | KexGOST2018_256

datatype AuthKind = AuthRSA | AuthECDSA | AuthAnonymous | AuthGOST2001 | AuthGOST2012_256

datatype HashFn =
    SHA1New | SHA256New | SHA384New
  | NewGOSTR341194CryptoProHash | NewStreebog256Hash | GOST28147IMITHashNew

record CipherSpec =
  c_Name :: string
  c_KeyLen :: nat
  c_FixedIVLen :: nat
  c_ExplicitIVLen :: nat
  c_AEAD :: bool
  c_TagLen :: nat

record MACSpec =
  m_Hash :: "HashFn option"
  m_KeyLen :: nat
  m_MACLen :: nat

record Suite =
  s_ID :: u16
  s_Name :: string
  s_KX :: KexKind
  s_Auth :: AuthKind
  s_Cipher :: CipherSpec
  s_MAC :: MACSpec
  s_PRF :: HashFn

section \<open>The registry\<close>

record Registry =
  reg_registry :: "u16 \<rightharpoonup> Suite"
  reg_nameIndex :: "string \<rightharpoonup> Suite"
  reg_order :: "Suite list"

definition emptyRegistry :: Registry where
  "emptyRegistry = \<lparr>reg_registry = Map.empty, reg_nameIndex = Map.empty, reg_order = []\<rparr>"

definition register :: "Suite \<Rightarrow> Registry \<Rightarrow> Registry res" where
  "register s r =
     (if reg_registry r (s_ID s) \<noteq> None then Inl (Panic ''suites: duplicate suite ID'')
      else if reg_nameIndex r (s_Name s) \<noteq> None then Inl (Panic ''suites: duplicate suite name'')
      else Inr (r\<lparr>reg_registry := (reg_registry r)(s_ID s \<mapsto> s),
                  reg_nameIndex := (reg_nameIndex r)(s_Name s \<mapsto> s),
                  reg_order := reg_order r @ [s]\<rparr>))"

definition Lookup :: "Registry \<Rightarrow> u16 \<Rightarrow> Suite option" where
  "Lookup r i = reg_registry r i"

definition LookupByName :: "Registry \<Rightarrow> string \<Rightarrow> Suite option" where
  "LookupByName r name = reg_nameIndex r name"

definition AllRegistered :: "Registry \<Rightarrow> Suite list" where
  "AllRegistered r = reg_order r"

fun registerAll :: "Suite list \<Rightarrow> Registry \<Rightarrow> Registry res" where
  "registerAll [] r = Inr r"
| "registerAll (s # ss) r = bindR (register s r) (registerAll ss)"

section \<open>The registered suites\<close>

definition suiteECDHEECDSAAES256GCMSHA384 :: u16 where "suiteECDHEECDSAAES256GCMSHA384 = 0xC02C"
definition suiteECDHEECDSACHACHA20POLY1305 :: u16 where "suiteECDHEECDSACHACHA20POLY1305 = 0xCCA9"
definition suiteECDHEECDSAAES128GCMSHA256 :: u16 where "suiteECDHEECDSAAES128GCMSHA256 = 0xC02B"
definition suiteECDHEECDSAAES256SHA384 :: u16 where "suiteECDHEECDSAAES256SHA384 = 0xC024"
definition suiteECDHEECDSAAES128SHA256 :: u16 where "suiteECDHEECDSAAES128SHA256 = 0xC023"
definition suiteECDHEECDSAAES256SHA :: u16 where "suiteECDHEECDSAAES256SHA = 0xC00A"
definition suiteECDHEECDSAAES128SHA :: u16 where "suiteECDHEECDSAAES128SHA = 0xC009"
definition suiteECDHERSAAES256GCMSHA384 :: u16 where "suiteECDHERSAAES256GCMSHA384 = 0xC030"
definition suiteECDHERSACHACHA20POLY1305 :: u16 where "suiteECDHERSACHACHA20POLY1305 = 0xCCA8"
definition suiteECDHERSAAES128GCMSHA256 :: u16 where "suiteECDHERSAAES128GCMSHA256 = 0xC02F"
definition suiteECDHERSAAES256SHA384 :: u16 where "suiteECDHERSAAES256SHA384 = 0xC028"
definition suiteECDHERSAAES128SHA256 :: u16 where "suiteECDHERSAAES128SHA256 = 0xC027"
definition suiteECDHERSAAES256SHA :: u16 where "suiteECDHERSAAES256SHA = 0xC014"
definition suiteECDHERSAAES128SHA :: u16 where "suiteECDHERSAAES128SHA = 0xC013"
definition suiteDHERSAAES256GCMSHA384 :: u16 where "suiteDHERSAAES256GCMSHA384 = 0x009F"
definition suiteDHERSACHACHA20POLY1305 :: u16 where "suiteDHERSACHACHA20POLY1305 = 0xCCAA"
definition suiteDHERSAAES128GCMSHA256 :: u16 where "suiteDHERSAAES128GCMSHA256 = 0x009E"
definition suiteDHERSAAES256SHA256 :: u16 where "suiteDHERSAAES256SHA256 = 0x006B"
definition suiteDHERSAAES128SHA256 :: u16 where "suiteDHERSAAES128SHA256 = 0x0067"
definition suiteDHERSAAES256SHA :: u16 where "suiteDHERSAAES256SHA = 0x0039"
definition suiteDHERSAAES128SHA :: u16 where "suiteDHERSAAES128SHA = 0x0033"
definition suiteRSAAES256GCMSHA384 :: u16 where "suiteRSAAES256GCMSHA384 = 0x009D"
definition suiteRSAAES128GCMSHA256 :: u16 where "suiteRSAAES128GCMSHA256 = 0x009C"
definition suiteRSAAES256SHA256 :: u16 where "suiteRSAAES256SHA256 = 0x003D"
definition suiteRSAAES128SHA256 :: u16 where "suiteRSAAES128SHA256 = 0x003C"
definition suiteRSAAES256SHA :: u16 where "suiteRSAAES256SHA = 0x0035"
definition suiteRSAAES128SHA :: u16 where "suiteRSAAES128SHA = 0x002F"
definition suiteGOST2001 :: u16 where "suiteGOST2001 = 0x0081"
definition suiteGOST2012Primary :: u16 where "suiteGOST2012Primary = 0xFF85"
definition suiteGOST2012IANAAlias :: u16 where "suiteGOST2012IANAAlias = 0xC102"
definition suiteGOSTKuznyechik :: u16 where "suiteGOSTKuznyechik = 0xC100"
definition suiteGOSTMagma :: u16 where "suiteGOSTMagma = 0xC101"

lemmas suite_id_defs = suiteECDHEECDSAAES256GCMSHA384_def
  suiteECDHEECDSACHACHA20POLY1305_def
  suiteECDHEECDSAAES128GCMSHA256_def
  suiteECDHEECDSAAES256SHA384_def
  suiteECDHEECDSAAES128SHA256_def
  suiteECDHEECDSAAES256SHA_def
  suiteECDHEECDSAAES128SHA_def
  suiteECDHERSAAES256GCMSHA384_def
  suiteECDHERSACHACHA20POLY1305_def
  suiteECDHERSAAES128GCMSHA256_def
  suiteECDHERSAAES256SHA384_def
  suiteECDHERSAAES128SHA256_def
  suiteECDHERSAAES256SHA_def
  suiteECDHERSAAES128SHA_def
  suiteDHERSAAES256GCMSHA384_def
  suiteDHERSACHACHA20POLY1305_def
  suiteDHERSAAES128GCMSHA256_def
  suiteDHERSAAES256SHA256_def
  suiteDHERSAAES128SHA256_def
  suiteDHERSAAES256SHA_def
  suiteDHERSAAES128SHA_def
  suiteRSAAES256GCMSHA384_def
  suiteRSAAES128GCMSHA256_def
  suiteRSAAES256SHA256_def
  suiteRSAAES128SHA256_def
  suiteRSAAES256SHA_def
  suiteRSAAES128SHA_def
  suiteGOST2001_def
  suiteGOST2012Primary_def
  suiteGOST2012IANAAlias_def
  suiteGOSTKuznyechik_def
  suiteGOSTMagma_def

definition specAES128GCM :: CipherSpec where
  "specAES128GCM = \<lparr>c_Name = ''AES-128-GCM'', c_KeyLen = 16, c_FixedIVLen = 4,
     c_ExplicitIVLen = 8, c_AEAD = True, c_TagLen = 16\<rparr>"

definition specAES256GCM :: CipherSpec where
  "specAES256GCM = \<lparr>c_Name = ''AES-256-GCM'', c_KeyLen = 32, c_FixedIVLen = 4,
     c_ExplicitIVLen = 8, c_AEAD = True, c_TagLen = 16\<rparr>"

definition specCHACHA20POLY1305 :: CipherSpec where
  "specCHACHA20POLY1305 = \<lparr>c_Name = ''CHACHA20-POLY1305'', c_KeyLen = 32, c_FixedIVLen = 12,
     c_ExplicitIVLen = 0, c_AEAD = True, c_TagLen = 16\<rparr>"

definition specAES256CBC :: CipherSpec where
  "specAES256CBC = \<lparr>c_Name = ''AES-256-CBC'', c_KeyLen = 32, c_FixedIVLen = 16,
     c_ExplicitIVLen = 16, c_AEAD = False, c_TagLen = 0\<rparr>"

definition specAES128CBC :: CipherSpec where
  "specAES128CBC = \<lparr>c_Name = ''AES-128-CBC'', c_KeyLen = 16, c_FixedIVLen = 16,
     c_ExplicitIVLen = 16, c_AEAD = False, c_TagLen = 0\<rparr>"

definition specHMACSHA384 :: MACSpec where
  "specHMACSHA384 = \<lparr>m_Hash = Some SHA384New, m_KeyLen = 48, m_MACLen = 48\<rparr>"

definition specHMACSHA256 :: MACSpec where
  "specHMACSHA256 = \<lparr>m_Hash = Some SHA256New, m_KeyLen = 32, m_MACLen = 32\<rparr>"

definition specHMACSHA1 :: MACSpec where
  "specHMACSHA1 = \<lparr>m_Hash = Some SHA1New, m_KeyLen = 20, m_MACLen = 20\<rparr>"

definition specNoMAC :: MACSpec where
  "specNoMAC = \<lparr>m_Hash = None, m_KeyLen = 0, m_MACLen = 0\<rparr>"

definition specPRFSHA256 :: HashFn where "specPRFSHA256 = SHA256New"
definition specPRFSHA384 :: HashFn where "specPRFSHA384 = SHA384New"

definition specGOST28147CNT :: CipherSpec where
  "specGOST28147CNT = \<lparr>c_Name = ''GOST28147-CNT'', c_KeyLen = 32, c_FixedIVLen = 8,
     c_ExplicitIVLen = 0, c_AEAD = False, c_TagLen = 0\<rparr>"

definition specGOST28147IMIT :: MACSpec where
  "specGOST28147IMIT = \<lparr>m_Hash = Some GOST28147IMITHashNew, m_KeyLen = 32, m_MACLen = 4\<rparr>"

definition specKuznyechikCTROMAC :: CipherSpec where
  "specKuznyechikCTROMAC = \<lparr>c_Name = ''KUZNYECHIK-CTR-OMAC'', c_KeyLen = 32, c_FixedIVLen = 8,
     c_ExplicitIVLen = 0, c_AEAD = False, c_TagLen = 0\<rparr>"

definition specKuznyechikOMAC :: MACSpec where
  "specKuznyechikOMAC = \<lparr>m_Hash = None, m_KeyLen = 32, m_MACLen = 16\<rparr>"

definition specMagmaCTROMAC :: CipherSpec where
  "specMagmaCTROMAC = \<lparr>c_Name = ''MAGMA-CTR-OMAC'', c_KeyLen = 32, c_FixedIVLen = 4,
     c_ExplicitIVLen = 0, c_AEAD = False, c_TagLen = 0\<rparr>"

definition specMagmaOMAC :: MACSpec where
  "specMagmaOMAC = \<lparr>m_Hash = None, m_KeyLen = 32, m_MACLen = 8\<rparr>"

definition specPRFGOSTR341194 :: HashFn where "specPRFGOSTR341194 = NewGOSTR341194CryptoProHash"
definition specPRFStreebog256 :: HashFn where "specPRFStreebog256 = NewStreebog256Hash"

lemmas suite_spec_defs = specAES128GCM_def specAES256GCM_def specCHACHA20POLY1305_def
  specAES256CBC_def specAES128CBC_def specHMACSHA384_def specHMACSHA256_def specHMACSHA1_def
  specNoMAC_def specPRFSHA256_def specPRFSHA384_def specGOST28147CNT_def specGOST28147IMIT_def
  specKuznyechikCTROMAC_def specKuznyechikOMAC_def specMagmaCTROMAC_def specMagmaOMAC_def
  specPRFGOSTR341194_def specPRFStreebog256_def

definition gostSuites :: "Suite list" where
  "gostSuites = [
     \<lparr>s_ID = suiteGOST2001, s_Name = ''GOST2001-GOST89-GOST89'', s_KX = KexGOST2001, s_Auth = AuthGOST2001,
      s_Cipher = specGOST28147CNT, s_MAC = specGOST28147IMIT, s_PRF = specPRFGOSTR341194\<rparr>,
     \<lparr>s_ID = suiteGOST2012Primary, s_Name = ''GOST2012-GOST8912-GOST8912'', s_KX = KexGOST2012_256, s_Auth = AuthGOST2012_256,
      s_Cipher = specGOST28147CNT, s_MAC = specGOST28147IMIT, s_PRF = specPRFStreebog256\<rparr>,
     \<lparr>s_ID = suiteGOST2012IANAAlias, s_Name = ''IANA-GOST2012-GOST8912-GOST8912'', s_KX = KexGOST2012_256, s_Auth = AuthGOST2012_256,
      s_Cipher = specGOST28147CNT, s_MAC = specGOST28147IMIT, s_PRF = specPRFStreebog256\<rparr>,
     \<lparr>s_ID = suiteGOSTKuznyechik, s_Name = ''GOST2012-KUZNYECHIK-KUZNYECHIKOMAC'', s_KX = KexGOST2018_256, s_Auth = AuthGOST2012_256,
      s_Cipher = specKuznyechikCTROMAC, s_MAC = specKuznyechikOMAC, s_PRF = specPRFStreebog256\<rparr>,
     \<lparr>s_ID = suiteGOSTMagma, s_Name = ''GOST2012-MAGMA-MAGMAOMAC'', s_KX = KexGOST2018_256, s_Auth = AuthGOST2012_256,
      s_Cipher = specMagmaCTROMAC, s_MAC = specMagmaOMAC, s_PRF = specPRFStreebog256\<rparr>]"

definition ecdheSuites :: "Suite list" where
  "ecdheSuites = [
     \<lparr>s_ID = suiteECDHEECDSAAES256GCMSHA384, s_Name = ''ECDHE-ECDSA-AES256-GCM-SHA384'', s_KX = KexECDHE, s_Auth = AuthECDSA,
      s_Cipher = specAES256GCM, s_MAC = specNoMAC, s_PRF = specPRFSHA384\<rparr>,
     \<lparr>s_ID = suiteECDHEECDSACHACHA20POLY1305, s_Name = ''ECDHE-ECDSA-CHACHA20-POLY1305'', s_KX = KexECDHE, s_Auth = AuthECDSA,
      s_Cipher = specCHACHA20POLY1305, s_MAC = specNoMAC, s_PRF = specPRFSHA256\<rparr>,
     \<lparr>s_ID = suiteECDHEECDSAAES128GCMSHA256, s_Name = ''ECDHE-ECDSA-AES128-GCM-SHA256'', s_KX = KexECDHE, s_Auth = AuthECDSA,
      s_Cipher = specAES128GCM, s_MAC = specNoMAC, s_PRF = specPRFSHA256\<rparr>,
     \<lparr>s_ID = suiteECDHERSAAES256GCMSHA384, s_Name = ''ECDHE-RSA-AES256-GCM-SHA384'', s_KX = KexECDHE, s_Auth = AuthRSA,
      s_Cipher = specAES256GCM, s_MAC = specNoMAC, s_PRF = specPRFSHA384\<rparr>,
     \<lparr>s_ID = suiteECDHERSACHACHA20POLY1305, s_Name = ''ECDHE-RSA-CHACHA20-POLY1305'', s_KX = KexECDHE, s_Auth = AuthRSA,
      s_Cipher = specCHACHA20POLY1305, s_MAC = specNoMAC, s_PRF = specPRFSHA256\<rparr>,
     \<lparr>s_ID = suiteECDHERSAAES128GCMSHA256, s_Name = ''ECDHE-RSA-AES128-GCM-SHA256'', s_KX = KexECDHE, s_Auth = AuthRSA,
      s_Cipher = specAES128GCM, s_MAC = specNoMAC, s_PRF = specPRFSHA256\<rparr>,
     \<lparr>s_ID = suiteECDHEECDSAAES256SHA384, s_Name = ''ECDHE-ECDSA-AES256-SHA384'', s_KX = KexECDHE, s_Auth = AuthECDSA,
      s_Cipher = specAES256CBC, s_MAC = specHMACSHA384, s_PRF = specPRFSHA384\<rparr>,
     \<lparr>s_ID = suiteECDHEECDSAAES128SHA256, s_Name = ''ECDHE-ECDSA-AES128-SHA256'', s_KX = KexECDHE, s_Auth = AuthECDSA,
      s_Cipher = specAES128CBC, s_MAC = specHMACSHA256, s_PRF = specPRFSHA256\<rparr>,
     \<lparr>s_ID = suiteECDHERSAAES256SHA384, s_Name = ''ECDHE-RSA-AES256-SHA384'', s_KX = KexECDHE, s_Auth = AuthRSA,
      s_Cipher = specAES256CBC, s_MAC = specHMACSHA384, s_PRF = specPRFSHA384\<rparr>,
     \<lparr>s_ID = suiteECDHERSAAES128SHA256, s_Name = ''ECDHE-RSA-AES128-SHA256'', s_KX = KexECDHE, s_Auth = AuthRSA,
      s_Cipher = specAES128CBC, s_MAC = specHMACSHA256, s_PRF = specPRFSHA256\<rparr>,
     \<lparr>s_ID = suiteECDHEECDSAAES256SHA, s_Name = ''ECDHE-ECDSA-AES256-SHA'', s_KX = KexECDHE, s_Auth = AuthECDSA,
      s_Cipher = specAES256CBC, s_MAC = specHMACSHA1, s_PRF = specPRFSHA256\<rparr>,
     \<lparr>s_ID = suiteECDHEECDSAAES128SHA, s_Name = ''ECDHE-ECDSA-AES128-SHA'', s_KX = KexECDHE, s_Auth = AuthECDSA,
      s_Cipher = specAES128CBC, s_MAC = specHMACSHA1, s_PRF = specPRFSHA256\<rparr>,
     \<lparr>s_ID = suiteECDHERSAAES256SHA, s_Name = ''ECDHE-RSA-AES256-SHA'', s_KX = KexECDHE, s_Auth = AuthRSA,
      s_Cipher = specAES256CBC, s_MAC = specHMACSHA1, s_PRF = specPRFSHA256\<rparr>,
     \<lparr>s_ID = suiteECDHERSAAES128SHA, s_Name = ''ECDHE-RSA-AES128-SHA'', s_KX = KexECDHE, s_Auth = AuthRSA,
      s_Cipher = specAES128CBC, s_MAC = specHMACSHA1, s_PRF = specPRFSHA256\<rparr>]"

definition dheRSASuites :: "Suite list" where
  "dheRSASuites = [
     \<lparr>s_ID = suiteDHERSAAES256GCMSHA384, s_Name = ''DHE-RSA-AES256-GCM-SHA384'', s_KX = KexDHE, s_Auth = AuthRSA,
      s_Cipher = specAES256GCM, s_MAC = specNoMAC, s_PRF = specPRFSHA384\<rparr>,
     \<lparr>s_ID = suiteDHERSACHACHA20POLY1305, s_Name = ''DHE-RSA-CHACHA20-POLY1305'', s_KX = KexDHE, s_Auth = AuthRSA,
      s_Cipher = specCHACHA20POLY1305, s_MAC = specNoMAC, s_PRF = specPRFSHA256\<rparr>,
     \<lparr>s_ID = suiteDHERSAAES128GCMSHA256, s_Name = ''DHE-RSA-AES128-GCM-SHA256'', s_KX = KexDHE, s_Auth = AuthRSA,
      s_Cipher = specAES128GCM, s_MAC = specNoMAC, s_PRF = specPRFSHA256\<rparr>,
     \<lparr>s_ID = suiteDHERSAAES256SHA256, s_Name = ''DHE-RSA-AES256-SHA256'', s_KX = KexDHE, s_Auth = AuthRSA,
      s_Cipher = specAES256CBC, s_MAC = specHMACSHA256, s_PRF = specPRFSHA256\<rparr>,
     \<lparr>s_ID = suiteDHERSAAES128SHA256, s_Name = ''DHE-RSA-AES128-SHA256'', s_KX = KexDHE, s_Auth = AuthRSA,
      s_Cipher = specAES128CBC, s_MAC = specHMACSHA256, s_PRF = specPRFSHA256\<rparr>,
     \<lparr>s_ID = suiteDHERSAAES256SHA, s_Name = ''DHE-RSA-AES256-SHA'', s_KX = KexDHE, s_Auth = AuthRSA,
      s_Cipher = specAES256CBC, s_MAC = specHMACSHA1, s_PRF = specPRFSHA256\<rparr>,
     \<lparr>s_ID = suiteDHERSAAES128SHA, s_Name = ''DHE-RSA-AES128-SHA'', s_KX = KexDHE, s_Auth = AuthRSA,
      s_Cipher = specAES128CBC, s_MAC = specHMACSHA1, s_PRF = specPRFSHA256\<rparr>]"

definition rsaKxSuites :: "Suite list" where
  "rsaKxSuites = [
     \<lparr>s_ID = suiteRSAAES256GCMSHA384, s_Name = ''AES256-GCM-SHA384'', s_KX = KexRSA, s_Auth = AuthRSA,
      s_Cipher = specAES256GCM, s_MAC = specNoMAC, s_PRF = specPRFSHA384\<rparr>,
     \<lparr>s_ID = suiteRSAAES128GCMSHA256, s_Name = ''AES128-GCM-SHA256'', s_KX = KexRSA, s_Auth = AuthRSA,
      s_Cipher = specAES128GCM, s_MAC = specNoMAC, s_PRF = specPRFSHA256\<rparr>,
     \<lparr>s_ID = suiteRSAAES256SHA256, s_Name = ''AES256-SHA256'', s_KX = KexRSA, s_Auth = AuthRSA,
      s_Cipher = specAES256CBC, s_MAC = specHMACSHA256, s_PRF = specPRFSHA256\<rparr>,
     \<lparr>s_ID = suiteRSAAES128SHA256, s_Name = ''AES128-SHA256'', s_KX = KexRSA, s_Auth = AuthRSA,
      s_Cipher = specAES128CBC, s_MAC = specHMACSHA256, s_PRF = specPRFSHA256\<rparr>,
     \<lparr>s_ID = suiteRSAAES256SHA, s_Name = ''AES256-SHA'', s_KX = KexRSA, s_Auth = AuthRSA,
      s_Cipher = specAES256CBC, s_MAC = specHMACSHA1, s_PRF = specPRFSHA256\<rparr>,
     \<lparr>s_ID = suiteRSAAES128SHA, s_Name = ''AES128-SHA'', s_KX = KexRSA, s_Auth = AuthRSA,
      s_Cipher = specAES128CBC, s_MAC = specHMACSHA1, s_PRF = specPRFSHA256\<rparr>]"

definition initRegistry :: "Registry res" where
  "initRegistry =
     bindR (registerAll gostSuites emptyRegistry) (\<lambda>r.
     bindR (registerAll ecdheSuites r) (\<lambda>r.
     bindR (registerAll dheRSASuites r) (registerAll rsaKxSuites)))"

text \<open>The exported view of \<open>suites.go\<close>.\<close>

definition AllSuites :: "Registry \<Rightarrow> (u16 \<times> string) list" where
  "AllSuites r = map (\<lambda>s. (s_ID s, s_Name s)) (AllRegistered r)"

definition LookupSuiteByName :: "Registry \<Rightarrow> string \<Rightarrow> u16 \<times> bool" where
  "LookupSuiteByName r name =
     (case LookupByName r name of None \<Rightarrow> (0, False) | Some s \<Rightarrow> (s_ID s, True))"

section \<open>PRF\<close>

partial_function (option) pHash_loop :: "Hash \<Rightarrow> bytes \<Rightarrow> bytes \<Rightarrow> nat \<Rightarrow> bytes \<Rightarrow> bytes \<Rightarrow> bytes option" where
  "pHash_loop h secret seed outLen a out =
     (if length out < outLen then
        let a' = hmac h secret a
        in pHash_loop h secret seed outLen a' (out @ hmac h secret (a' @ seed))
      else Some (take outLen out))"

definition pHash :: "Hash \<Rightarrow> bytes \<Rightarrow> bytes \<Rightarrow> nat \<Rightarrow> bytes option" where
  "pHash h secret seed outLen = pHash_loop h secret seed outLen seed []"

definition PRF :: "Hash \<Rightarrow> bytes \<Rightarrow> bytes \<Rightarrow> bytes \<Rightarrow> nat \<Rightarrow> bytes res" where
  "PRF h secret label seed outLen =
     (if length label = 0 then Inl (Sentinel ''ErrEmptyLabel'')
      else if outLen = 0 then Inl (Sentinel ''ErrZeroLength'')
      else case pHash h secret (label @ seed) outLen of
             None \<Rightarrow> Inl (Panic ''pHash does not return'')
           | Some out \<Rightarrow> Inr out)"

section \<open>Key schedule\<close>

definition MasterSecret :: "(HashFn \<Rightarrow> Hash) \<Rightarrow> Suite \<Rightarrow> bytes \<Rightarrow> bytes \<Rightarrow> bytes \<Rightarrow> bytes res" where
  "MasterSecret H suite preMaster clientRandom serverRandom =
     (if length clientRandom \<noteq> 32 \<or> length serverRandom \<noteq> 32 then Inl (Sentinel ''ErrInvalidRandomLen'')
      else PRF (H (s_PRF suite)) preMaster (bytes_of ''master secret'') (clientRandom @ serverRandom) 48)"

record KeyMaterial =
  km_ClientMACKey :: bytes
  km_ServerMACKey :: bytes
  km_ClientEncKey :: bytes
  km_ServerEncKey :: bytes
  km_ClientIV :: bytes
  km_ServerIV :: bytes

definition keyBlockIVLen :: "Suite \<Rightarrow> nat" where
  "keyBlockIVLen suite =
     (let isCBC = (\<not> c_AEAD (s_Cipher suite) \<and> c_Name (s_Cipher suite) \<noteq> ''GOST28147-CNT''
          \<and> c_Name (s_Cipher suite) \<noteq> ''KUZNYECHIK-CTR-OMAC''
          \<and> c_Name (s_Cipher suite) \<noteq> ''MAGMA-CTR-OMAC'')
      in if isCBC then 0 else c_FixedIVLen (s_Cipher suite))"

text \<open>Cutting the key block, with the running offset of the source.\<close>

definition splitKeyBlock :: "nat \<Rightarrow> nat \<Rightarrow> nat \<Rightarrow> bytes \<Rightarrow> KeyMaterial" where
  "splitKeyBlock macKeyLen encKeyLen ivLen keyBlock =
     (let off = 0;
          (clientMAC, serverMAC, off) =
            (if macKeyLen > 0
             then (slice off (off + macKeyLen) keyBlock,
                   slice (off + macKeyLen) (off + macKeyLen + macKeyLen) keyBlock,
                   off + macKeyLen + macKeyLen)
             else ([], [], off));
          clientEnc = slice off (off + encKeyLen) keyBlock;
          off = off + encKeyLen;
          serverEnc = slice off (off + encKeyLen) keyBlock;
          off = off + encKeyLen;
          (clientIV, serverIV) =
            (if ivLen > 0
             then (slice off (off + ivLen) keyBlock, slice (off + ivLen) (off + ivLen + ivLen) keyBlock)
             else ([], []))
      in \<lparr>km_ClientMACKey = clientMAC, km_ServerMACKey = serverMAC,
          km_ClientEncKey = clientEnc, km_ServerEncKey = serverEnc,
          km_ClientIV = clientIV, km_ServerIV = serverIV\<rparr>)"

definition KeyExpansion :: "(HashFn \<Rightarrow> Hash) \<Rightarrow> Suite \<Rightarrow> bytes \<Rightarrow> bytes \<Rightarrow> bytes \<Rightarrow> KeyMaterial res" where
  "KeyExpansion H suite masterSecret clientRandom serverRandom =
     (if length clientRandom \<noteq> 32 \<or> length serverRandom \<noteq> 32 then Inl (Sentinel ''ErrInvalidRandomLen'')
      else
        let macKeyLen = m_KeyLen (s_MAC suite);
            encKeyLen = c_KeyLen (s_Cipher suite);
            ivLen = keyBlockIVLen suite;
            totalLen = 2 * macKeyLen + 2 * encKeyLen + 2 * ivLen
        in if totalLen = 0 then Inl (Sentinel ''ErrZeroKeyBlock'')
           else bindR (PRF (H (s_PRF suite)) masterSecret (bytes_of ''key expansion'')
                         (serverRandom @ clientRandom) totalLen) (\<lambda>keyBlock.
                Inr (splitKeyBlock macKeyLen encKeyLen ivLen keyBlock)))"

definition FinishedVerifyData :: "(HashFn \<Rightarrow> Hash) \<Rightarrow> Suite \<Rightarrow> bytes \<Rightarrow> string \<Rightarrow> bytes \<Rightarrow> bytes res" where
  "FinishedVerifyData H suite masterSecret label transcriptHash =
     (let vdLen = (if s_KX suite = KexGOST2018_256 then 32 else 12)
      in PRF (H (s_PRF suite)) masterSecret (bytes_of label) transcriptHash vdLen)"

definition EqualVerifyData :: "bytes \<Rightarrow> bytes \<Rightarrow> bool" where
  "EqualVerifyData a b \<longleftrightarrow> ConstantTimeCompare a b = 1"

section \<open>The registry's invariant\<close>

definition reg_inv :: "Registry \<Rightarrow> bool" where
  "reg_inv r \<longleftrightarrow>
     distinct (map s_ID (reg_order r)) \<and> distinct (map s_Name (reg_order r)) \<and>
     (\<forall>i. reg_registry r i = find (\<lambda>s. s_ID s = i) (reg_order r)) \<and>
     (\<forall>n. reg_nameIndex r n = find (\<lambda>s. s_Name s = n) (reg_order r))"

lemma find_append: "find P (xs @ ys) = (case find P xs of None \<Rightarrow> find P ys | Some x \<Rightarrow> Some x)"
  by (induction xs) auto

lemma find_None_key: "find (\<lambda>s. f s = k) xs = None \<longleftrightarrow> k \<notin> f ` set xs"
  by (induction xs) auto

lemma reg_inv_empty: "reg_inv emptyRegistry"
  by (simp add: reg_inv_def emptyRegistry_def)

lemma register_inv:
  assumes "reg_inv r" "register s r = Inr r'"
  shows "reg_inv r' \<and> reg_order r' = reg_order r @ [s]"
proof -
  have new: "s_ID s \<notin> s_ID ` set (reg_order r)" "s_Name s \<notin> s_Name ` set (reg_order r)"
    and r': "r' = r\<lparr>reg_registry := (reg_registry r)(s_ID s \<mapsto> s),
                  reg_nameIndex := (reg_nameIndex r)(s_Name s \<mapsto> s), reg_order := reg_order r @ [s]\<rparr>"
    using assms by (auto simp: register_def reg_inv_def find_None_key split: if_splits)
  have "((reg_registry r)(s_ID s \<mapsto> s)) i = find (\<lambda>s. s_ID s = i) (reg_order r @ [s])" for i
    using assms(1) new(1) find_None_key [of s_ID "s_ID s" "reg_order r"]
    by (cases "i = s_ID s") (auto simp: reg_inv_def find_append split: option.splits)
  moreover have "((reg_nameIndex r)(s_Name s \<mapsto> s)) n = find (\<lambda>s. s_Name s = n) (reg_order r @ [s])" for n
    using assms(1) new(2) find_None_key [of s_Name "s_Name s" "reg_order r"]
    by (cases "n = s_Name s") (auto simp: reg_inv_def find_append split: option.splits)
  ultimately show ?thesis
    using assms(1) new unfolding r' by (simp add: reg_inv_def)
qed

lemma registerAll_ok:
  assumes "reg_inv r" "distinct (map s_ID (reg_order r @ ss))" "distinct (map s_Name (reg_order r @ ss))"
  shows "\<exists>r'. registerAll ss r = Inr r' \<and> reg_inv r' \<and> reg_order r' = reg_order r @ ss"
  using assms
proof (induction ss arbitrary: r)
  case (Cons s ss)
  have "reg_registry r (s_ID s) = None" "reg_nameIndex r (s_Name s) = None"
    using Cons.prems by (auto simp: reg_inv_def find_None_key)
  then obtain r1 where r1: "register s r = Inr r1" by (simp add: register_def)
  from register_inv [OF Cons.prems(1) this] Cons.IH [of r1] Cons.prems(2,3) show ?case
    by (simp add: r1)
qed simp

definition allSuites :: "Suite list" where
  "allSuites = gostSuites @ ecdheSuites @ dheRSASuites @ rsaKxSuites"

lemma allSuites_distinct: "distinct (map s_ID allSuites)" "distinct (map s_Name allSuites)"
  by code_simp+

lemma registerAll_append:
  "registerAll (xs @ ys) r = bindR (registerAll xs r) (registerAll ys)"
proof (induction xs arbitrary: r)
  case (Cons s xs)
  then show ?case by (cases "register s r") simp_all
qed simp

lemma initRegistry_ok:
  "\<exists>r. initRegistry = Inr r \<and> reg_inv r \<and> reg_order r = allSuites"
proof -
  have "initRegistry = registerAll allSuites emptyRegistry"
    by (simp add: initRegistry_def allSuites_def registerAll_append [abs_def])
  moreover have "\<exists>r. registerAll allSuites emptyRegistry = Inr r \<and> reg_inv r \<and> reg_order r = allSuites"
    using registerAll_ok [OF reg_inv_empty, of allSuites] allSuites_distinct by (simp add: emptyRegistry_def)
  ultimately show ?thesis by simp
qed

lemma find_Some_distinct:
  assumes "distinct (map f xs)"
  shows "find (\<lambda>s. f s = k) xs = Some s \<longleftrightarrow> s \<in> set xs \<and> f s = k"
  using assms by (induction xs) (auto simp: rev_image_eqI)

lemma Lookup_iff:
  "reg_inv r \<Longrightarrow> Lookup r i = Some s \<longleftrightarrow> s \<in> set (reg_order r) \<and> s_ID s = i"
  by (simp add: Lookup_def reg_inv_def find_Some_distinct)

lemma LookupByName_iff:
  "reg_inv r \<Longrightarrow> LookupByName r n = Some s \<longleftrightarrow> s \<in> set (reg_order r) \<and> s_Name s = n"
  by (simp add: LookupByName_def reg_inv_def find_Some_distinct)

section \<open>The PRF as RFC 5246 states it\<close>

text \<open>\<open>A(0) = seed\<close>, \<open>A(i) = HMAC(secret, A(i-1))\<close>.\<close>

fun prf_A :: "Hash \<Rightarrow> bytes \<Rightarrow> bytes \<Rightarrow> nat \<Rightarrow> bytes" where
  "prf_A h secret seed 0 = seed"
| "prf_A h secret seed (Suc i) = hmac h secret (prf_A h secret seed i)"

definition prf_blocks :: "Hash \<Rightarrow> bytes \<Rightarrow> bytes \<Rightarrow> nat \<Rightarrow> bytes" where
  "prf_blocks h secret seed n =
     concat (map (\<lambda>i. hmac h secret (prf_A h secret seed (Suc i) @ seed)) [0..<n])"

lemma prf_blocks_Suc:
  "prf_blocks h secret seed (Suc n) =
     prf_blocks h secret seed n @ hmac h secret (prf_A h secret seed (Suc n) @ seed)"
  by (simp add: prf_blocks_def)

lemma length_prf_blocks: "hash_ok h \<Longrightarrow> length (prf_blocks h secret seed n) = n * h_Size h"
  by (induction n) (simp_all add: prf_blocks_Suc length_hmac, simp add: prf_blocks_def)

lemma prf_blocks_take:
  assumes "hash_ok h" "n \<le> m" "outLen \<le> n * h_Size h"
  shows "take outLen (prf_blocks h secret seed m) = take outLen (prf_blocks h secret seed n)"
  using assms(2)
proof (induction rule: dec_induct)
  case (step k)
  have "outLen \<le> k * h_Size h" using assms(3) step.hyps(1) by (meson le_trans mult_le_mono1)
  then show ?case using step assms(1) by (simp add: prf_blocks_Suc length_prf_blocks)
qed simp

lemma pHash_loop_eq:
  assumes "hash_ok h" "0 < h_Size h"
  shows "\<exists>k. outLen \<le> k * h_Size h \<and>
    pHash_loop h secret seed outLen (prf_A h secret seed n) (prf_blocks h secret seed n)
      = Some (take outLen (prf_blocks h secret seed k))"
proof (induction "outLen - n * h_Size h" arbitrary: n rule: less_induct)
  case less
  show ?case
  proof (cases "n * h_Size h < outLen")
    case True
    then have "outLen - Suc n * h_Size h < outLen - n * h_Size h" using assms(2) by simp
    from less.hyps [OF this] True show ?thesis
      by (subst pHash_loop.simps) (simp add: length_prf_blocks [OF assms(1)] Let_def prf_blocks_Suc)
  next
    case False
    then show ?thesis
      by (intro exI [of _ n], subst pHash_loop.simps) (simp add: length_prf_blocks [OF assms(1)])
  qed
qed

lemma pHash_eq:
  assumes "hash_ok h" "0 < h_Size h" "outLen \<le> n * h_Size h"
  shows "pHash h secret seed outLen = Some (take outLen (prf_blocks h secret seed n))"
proof -
  obtain k where k: "outLen \<le> k * h_Size h"
    "pHash h secret seed outLen = Some (take outLen (prf_blocks h secret seed k))"
    using pHash_loop_eq [OF assms(1,2), of outLen secret seed 0] by (auto simp: pHash_def prf_blocks_def)
  have "take outLen (prf_blocks h secret seed k) = take outLen (prf_blocks h secret seed n)"
  proof (cases "n \<le> k")
    case True
    then show ?thesis by (rule prf_blocks_take [OF assms(1) _ assms(3)])
  next
    case False
    then show ?thesis using prf_blocks_take [OF assms(1) _ k(1), of n] by simp
  qed
  with k(2) show ?thesis by simp
qed

lemma PRF_Inr:
  assumes "hash_ok h" "0 < h_Size h" "label \<noteq> []" "0 < outLen"
  shows "\<exists>out. PRF h secret label seed outLen = Inr out \<and> length out = outLen"
proof -
  have "outLen \<le> outLen * h_Size h" using assms(2) by simp
  from pHash_eq [OF assms(1,2) this] show ?thesis
    using assms length_prf_blocks [OF assms(1), of secret "label @ seed" outLen]
    by (simp add: PRF_def)
qed

section \<open>The key block\<close>

lemma slice_append:
  "i \<le> j \<Longrightarrow> j \<le> k \<Longrightarrow> k \<le> length xs \<Longrightarrow> slice i j xs @ slice j k xs = slice i k xs"
  using take_add [of "j - i" "k - j" "drop i xs"] by (simp add: slice_def)

lemma splitKeyBlock_parts:
  assumes "length kb = 2 * m + 2 * e + 2 * i"
  defines "km \<equiv> splitKeyBlock m e i kb"
  shows "km_ClientMACKey km @ km_ServerMACKey km @ km_ClientEncKey km @ km_ServerEncKey km
      @ km_ClientIV km @ km_ServerIV km = kb"
    and "length (km_ClientMACKey km) = m" "length (km_ServerMACKey km) = m"
    and "length (km_ClientEncKey km) = e" "length (km_ServerEncKey km) = e"
    and "length (km_ClientIV km) = i" "length (km_ServerIV km) = i"
proof -
  have km: "km = \<lparr>km_ClientMACKey = slice 0 m kb, km_ServerMACKey = slice m (2 * m) kb,
     km_ClientEncKey = slice (2 * m) (2 * m + e) kb, km_ServerEncKey = slice (2 * m + e) (2 * m + 2 * e) kb,
     km_ClientIV = slice (2 * m + 2 * e) (2 * m + 2 * e + i) kb,
     km_ServerIV = slice (2 * m + 2 * e + i) (2 * m + 2 * e + 2 * i) kb\<rparr>"
    unfolding km_def splitKeyBlock_def Let_def by (simp add: slice_def mult_2 add.assoc)
  show "km_ClientMACKey km @ km_ServerMACKey km @ km_ClientEncKey km @ km_ServerEncKey km
      @ km_ClientIV km @ km_ServerIV km = kb"
    unfolding km using assms(1) by (simp add: slice_append) (simp add: slice_def)
  show "length (km_ClientMACKey km) = m" "length (km_ServerMACKey km) = m"
    "length (km_ClientEncKey km) = e" "length (km_ServerEncKey km) = e"
    "length (km_ClientIV km) = i" "length (km_ServerIV km) = i"
    unfolding km using assms(1) by (simp_all add: slice_def)
qed

end
