(* ===== verification/Keys.thy ===== *)
theory Keys
  imports RecordLayer Suites
begin

text \<open>
  From the negotiated suite and the master secret to the two record protectors:
  \<open>buildProtector\<close> (\<open>internal/handshake/crypto.go\<close>), the GOST builders
  (\<open>protector_gost.go\<close>) and \<open>expandKeysManual\<close> (\<open>client.go\<close>).  The environment record of
  the record layer is extended by the hash constructors.  Shown: the handshake's own key
  expansion computes the key block of \<open>suites.KeyExpansion\<close>, and for every registered suite
  the derived keys build protectors that are peers of each other.
\<close>

record kcrypto = rcrypto +
  newHash :: "HashFn \<Rightarrow> Hash"

section \<open>Protector assembly\<close>

definition buildGOSTProtector ::
  "('x) kcrypto_scheme \<Rightarrow> Suite \<Rightarrow> bytes \<Rightarrow> bytes \<Rightarrow> bytes \<Rightarrow> Protector res" where
  "buildGOSTProtector X suite encKey macKey iv =
     (let sbox = (if s_KX suite = KexGOST2012_256 then SboxTC26Z else SboxCryptoProA)
      in bindR (NewGOST28147Protector X encKey macKey iv sbox) (\<lambda>p. Inr (GOST28147Protector p)))"

definition buildKuznyechikCTROMACProtector ::
  "('x) kcrypto_scheme \<Rightarrow> Suite \<Rightarrow> bytes \<Rightarrow> bytes \<Rightarrow> bytes \<Rightarrow> Protector res" where
  "buildKuznyechikCTROMACProtector X suite encKey macKey iv =
     bindR (NewKuznyechikCTROMACProtector X encKey macKey iv) (\<lambda>p. Inr (CTROMACProtector p))"

definition buildMagmaCTROMACProtector ::
  "('x) kcrypto_scheme \<Rightarrow> Suite \<Rightarrow> bytes \<Rightarrow> bytes \<Rightarrow> bytes \<Rightarrow> Protector res" where
  "buildMagmaCTROMACProtector X suite encKey macKey iv =
     bindR (NewMagmaCTROMACProtector X encKey macKey iv) (\<lambda>p. Inr (CTROMACProtector p))"

text \<open>\<open>record.SHA1Hash\<close>, \<open>record.SHA256Hash\<close> and \<open>record.SHA384Hash\<close>, selected by the
  MAC length, and the CBC construction.\<close>

definition macHashForLen :: "nat \<Rightarrow> HashFn res" where
  "macHashForLen n =
     (if n = 20 then Inr SHA1New
      else if n = 32 then Inr SHA256New
      else if n = 48 then Inr SHA384New
      else Inl (Sentinel ''errUnsupportedMACLen''))"

definition buildProtector ::
  "('x) kcrypto_scheme \<Rightarrow> Suite \<Rightarrow> bytes \<Rightarrow> bytes \<Rightarrow> bytes \<Rightarrow> Protector res" where
  "buildProtector X suite encKey macKey iv =
     (let name = c_Name (s_Cipher suite) in
      if name = ''GOST28147-CNT'' then buildGOSTProtector X suite encKey macKey iv
      else if name = ''KUZNYECHIK-CTR-OMAC'' then buildKuznyechikCTROMACProtector X suite encKey macKey iv
      else if name = ''MAGMA-CTR-OMAC'' then buildMagmaCTROMACProtector X suite encKey macKey iv
      else if c_AEAD (s_Cipher suite) then
        if name = ''AES-128-GCM'' \<or> name = ''AES-256-GCM''
        then bindR (NewAEADProtector X encKey iv) (\<lambda>p. Inr (AEADProtector p))
        else if name = ''CHACHA20-POLY1305''
        then bindR (NewChaCha20Poly1305Protector X encKey iv) (\<lambda>p. Inr (ChaCha20Poly1305Protector p))
        else Inl (Sentinel ''errUnsupportedAEAD'')
      else
        bindR (macHashForLen (m_MACLen (s_MAC suite))) (\<lambda>h.
        if name = ''AES-128-CBC'' \<or> name = ''AES-256-CBC''
        then bindR (NewCBCHMACProtector (aes_NewCipher X) (newHash X h) encKey macKey)
               (\<lambda>p. Inr (CBCHMACProtector p))
        else Inl (Sentinel ''errUnsupportedCBCCipher'')))"

section \<open>Key expansion in the handshake\<close>

text \<open>\<open>copy(seed[a:a+n], src)\<close> into a zeroed buffer.\<close>

definition copyInto :: "nat \<Rightarrow> bytes \<Rightarrow> bytes" where
  "copyInto n src = take n src @ replicate (n - length src) 0"

definition expandKeysManual ::
  "('x) kcrypto_scheme \<Rightarrow> Suite \<Rightarrow> bytes \<Rightarrow> bytes \<Rightarrow> bytes \<Rightarrow> nat \<Rightarrow> KeyMaterial res" where
  "expandKeysManual X suite masterSecret clientRandom serverRandom ivLen =
     (let seed = copyInto 32 serverRandom @ copyInto 32 clientRandom;
          macKeyLen = m_KeyLen (s_MAC suite);
          encKeyLen = c_KeyLen (s_Cipher suite);
          totalLen = 2 * macKeyLen + 2 * encKeyLen + 2 * ivLen
      in if totalLen = 0 then Inl (Sentinel ''errKeyExpansionZeroLocal'')
         else bindR (PRF (newHash X (s_PRF suite)) masterSecret (bytes_of ''key expansion'') seed totalLen)
                (\<lambda>keyBlock. Inr (splitKeyBlock macKeyLen encKeyLen ivLen keyBlock)))"

text \<open>The key-block IV length \<open>ClientState.expandKeys\<close> computes.\<close>

definition expandKeysIVLen :: "Suite \<Rightarrow> nat" where
  "expandKeysIVLen suite =
     (let ivLen = c_FixedIVLen (s_Cipher suite);
          isCBC = (\<not> c_AEAD (s_Cipher suite) \<and> c_Name (s_Cipher suite) \<noteq> ''GOST28147-CNT''
            \<and> c_Name (s_Cipher suite) \<noteq> ''KUZNYECHIK-CTR-OMAC''
            \<and> c_Name (s_Cipher suite) \<noteq> ''MAGMA-CTR-OMAC'')
      in if isCBC then 0 else ivLen)"

definition buildProtectors ::
  "('x) kcrypto_scheme \<Rightarrow> Suite \<Rightarrow> KeyMaterial \<Rightarrow> (Protector \<times> Protector) res" where
  "buildProtectors X suite km =
     bindR (buildProtector X suite (km_ClientEncKey km) (km_ClientMACKey km) (km_ClientIV km)) (\<lambda>sendProt.
     bindR (buildProtector X suite (km_ServerEncKey km) (km_ServerMACKey km) (km_ServerIV km)) (\<lambda>recvProt.
     Inr (sendProt, recvProt)))"

section \<open>The two key expansions agree\<close>

lemma copyInto_exact [simp]: "length src = n \<Longrightarrow> copyInto n src = src"
  by (simp add: copyInto_def)

lemma expandKeysIVLen_eq: "expandKeysIVLen suite = keyBlockIVLen suite"
  by (simp add: expandKeysIVLen_def keyBlockIVLen_def Let_def)

lemma expandKeysManual_KeyExpansion:
  assumes "length clientRandom = 32" "length serverRandom = 32" "0 < c_KeyLen (s_Cipher suite)"
  shows "expandKeysManual X suite ms clientRandom serverRandom (expandKeysIVLen suite) =
    KeyExpansion (newHash X) suite ms clientRandom serverRandom"
  using assms by (simp add: expandKeysManual_def KeyExpansion_def expandKeysIVLen_eq Let_def)

section \<open>Every registered suite yields working protectors\<close>

text \<open>What the primitives document: AES takes keys of 16, 24 or 32 bytes and has 16-byte blocks,
  GCM accepts such a cipher, ChaCha20-Poly1305 takes a 32-byte key, an OMAC of the block
  cipher's size and a CTR-ACPKM stream of its block size can be built.\<close>

definition omac_ok :: "('x) rcrypto_scheme \<Rightarrow> (bytes \<Rightarrow> Block) \<Rightarrow> nat \<Rightarrow> bool" where
  "omac_ok X newBlock n \<longleftrightarrow>
     (\<forall>k. case NewOMAC X (newBlock k) n of Inl _ \<Rightarrow> False | Inr f \<Rightarrow> (\<forall>m. length (f m) = n))"

definition ctr_acpkm_ok :: "('x) rcrypto_scheme \<Rightarrow> (bytes \<Rightarrow> Block) \<Rightarrow> nat \<Rightarrow> nat \<Rightarrow> bool" where
  "ctr_acpkm_ok X newBlock n section \<longleftrightarrow>
     (\<forall>k iv. length iv = n \<longrightarrow>
        (case NewCTRACPKM X newBlock k iv section of Inl _ \<Rightarrow> False | Inr f \<Rightarrow> stream_ok f))"

definition rcrypto_ok :: "('x) rcrypto_scheme \<Rightarrow> bool" where
  "rcrypto_ok X \<longleftrightarrow>
     (\<forall>k. length k \<in> {16, 24, 32} \<longrightarrow>
        (case aes_NewCipher X k of Inl _ \<Rightarrow> False | Inr b \<Rightarrow> blk_ok b \<and> blk_BlockSize b = 16)) \<and>
     (\<forall>b. blk_BlockSize b = 16 \<longrightarrow> (case cipher_NewGCM X b of Inl _ \<Rightarrow> False | Inr a \<Rightarrow> aead_ok a)) \<and>
     (\<forall>k. length k = 32 \<longrightarrow> (case chacha20poly1305_New X k of Inl _ \<Rightarrow> False | Inr a \<Rightarrow> aead_ok a)) \<and>
     gost_ok X \<and>
     omac_ok X (NewKuznyechikCipher X) 16 \<and> omac_ok X (NewMagmaCipher X) 8 \<and>
     ctr_acpkm_ok X (NewKuznyechikCipher X) 16 kuznyechikACPKMSection \<and>
     ctr_acpkm_ok X (NewMagmaCipher X) 8 magmaACPKMSection"

fun hashFnSize :: "HashFn \<Rightarrow> nat" where
  "hashFnSize SHA1New = 20"
| "hashFnSize SHA256New = 32"
| "hashFnSize SHA384New = 48"
| "hashFnSize NewGOSTR341194CryptoProHash = 32"
| "hashFnSize NewStreebog256Hash = 32"
| "hashFnSize GOST28147IMITHashNew = 4"

definition hashes_ok :: "(HashFn \<Rightarrow> Hash) \<Rightarrow> bool" where
  "hashes_ok H \<longleftrightarrow> (\<forall>f. hash_ok (H f) \<and> h_Size (H f) = hashFnSize f)"

lemma case_res_ok:
  "(case r of Inl _ \<Rightarrow> False | Inr x \<Rightarrow> P x) \<longleftrightarrow> (\<exists>x. r = Inr x \<and> P x)"
  by (cases r) auto

lemma hashFnSize_pos: "0 < hashFnSize f"
  by (cases f) simp_all

lemma build_aead_ok:
  assumes "rcrypto_ok X" "length key \<in> {16, 24, 32}" "length iv = 4"
  shows "\<exists>p. NewAEADProtector X key iv = Inr p \<and> aead_ok (ap_aead p)"
proof -
  obtain b where b: "aes_NewCipher X key = Inr b" "blk_BlockSize b = 16"
    using assms(1,2) by (fastforce simp: rcrypto_ok_def case_res_ok)
  obtain a where a: "cipher_NewGCM X b = Inr a" "aead_ok a"
    using assms(1) b(2) by (fastforce simp: rcrypto_ok_def case_res_ok)
  show ?thesis using assms(3) a b(1) by (simp add: NewAEADProtector_def aeadSaltLen_def)
qed

lemma build_chacha_ok:
  assumes "rcrypto_ok X" "length key = 32" "length iv = 12"
  shows "\<exists>p. NewChaCha20Poly1305Protector X key iv = Inr p \<and> aead_ok (cp_aead p)"
proof -
  obtain a where "chacha20poly1305_New X key = Inr a" "aead_ok a"
    using assms(1,2) by (fastforce simp: rcrypto_ok_def case_res_ok)
  then show ?thesis using assms by (simp add: NewChaCha20Poly1305Protector_def)
qed

lemma build_cbc_ok:
  assumes "rcrypto_ok X" "length key \<in> {16, 24, 32}" "hash_ok h" "h_Size h \<le> 1024"
  shows "\<exists>p. NewCBCHMACProtector (aes_NewCipher X) h key macKey = Inr p \<and> cbc_ok p"
proof -
  obtain b where "aes_NewCipher X key = Inr b" "blk_ok b" "blk_BlockSize b = 16"
    using assms(1,2) by (fastforce simp: rcrypto_ok_def case_res_ok)
  then show ?thesis using assms by (simp add: NewCBCHMACProtector_def cbc_ok_def)
qed

lemma build_kuznyechik_ok:
  assumes "rcrypto_ok X" "length key = 32" "length macKey = 32" "length iv = 8"
  shows "\<exists>p. NewKuznyechikCTROMACProtector X key macKey iv = Inr p \<and> co_ok X p"
  using assms
  by (simp add: NewKuznyechikCTROMACProtector_def co_ok_def co_shape_def rcrypto_ok_def omac_ok_def
      ctr_acpkm_ok_def case_res_ok kuznyechikIVLen_def)

lemma build_magma_ok:
  assumes "rcrypto_ok X" "length key = 32" "length macKey = 32" "length iv = 4"
  shows "\<exists>p. NewMagmaCTROMACProtector X key macKey iv = Inr p \<and> co_ok X p"
  using assms
  by (simp add: NewMagmaCTROMACProtector_def co_ok_def co_shape_def rcrypto_ok_def omac_ok_def
      ctr_acpkm_ok_def case_res_ok magmaIVLen_def)

lemma build_gost_ok:
  assumes "rcrypto_ok X" "length key = 32" "length macKey = 32" "length iv = 8"
  shows "\<exists>p. NewGOST28147Protector X key macKey iv sbox = Inr p \<and> gp_ok X p"
proof -
  have "\<exists>p. NewGOST28147Protector X key macKey iv sbox = Inr p"
    using assms by (simp add: NewGOST28147Protector_def gost_size_defs)
  then show ?thesis using assms(1) by (auto simp: rcrypto_ok_def intro: NewGOST28147Protector_ok)
qed

text \<open>The cipher and MAC parameters of the registered suites, case by case.\<close>

definition suite_params_ok :: "Suite \<Rightarrow> bool" where
  "suite_params_ok s \<longleftrightarrow>
     (s_Cipher s = specAES128GCM \<or> s_Cipher s = specAES256GCM \<or> s_Cipher s = specCHACHA20POLY1305) \<and> s_MAC s = specNoMAC
   \<or> (s_Cipher s = specAES128CBC \<or> s_Cipher s = specAES256CBC)
       \<and> (s_MAC s = specHMACSHA1 \<or> s_MAC s = specHMACSHA256 \<or> s_MAC s = specHMACSHA384)
   \<or> s_Cipher s = specGOST28147CNT \<and> s_MAC s = specGOST28147IMIT
   \<or> s_Cipher s = specKuznyechikCTROMAC \<and> s_MAC s = specKuznyechikOMAC
   \<or> s_Cipher s = specMagmaCTROMAC \<and> s_MAC s = specMagmaOMAC"

lemma allSuites_params: "s \<in> set allSuites \<Longrightarrow> suite_params_ok s"
  unfolding allSuites_def gostSuites_def ecdheSuites_def dheRSASuites_def rsaKxSuites_def
  by (simp only: set_append set_simps Un_iff insert_iff empty_iff)
     (elim disjE; simp add: suite_params_ok_def)

lemma buildProtector_ok:
  assumes X: "rcrypto_ok X" and H: "hashes_ok (newHash X)" and s: "suite_params_ok s"
    and len: "length encKey = c_KeyLen (s_Cipher s)" "length macKey = m_KeyLen (s_MAC s)"
      "length iv = keyBlockIVLen s"
  shows "\<exists>p. buildProtector X s encKey macKey iv = Inr p \<and> peerP X p p"
proof -
  have h: "hash_ok (newHash X f)" "h_Size (newHash X f) \<le> 1024" for f
    using H by (cases f; simp add: hashes_ok_def)+
  have aead: ?thesis if "c_AEAD (s_Cipher s)" "c_Name (s_Cipher s) = ''AES-128-GCM'' \<or> c_Name (s_Cipher s) = ''AES-256-GCM''"
      "length encKey \<in> {16, 24, 32}" "length iv = 4"
    using build_aead_ok [OF X that(3,4)] that(1,2) by (auto simp: buildProtector_def Let_def)
  have chacha: ?thesis if "c_AEAD (s_Cipher s)" "c_Name (s_Cipher s) = ''CHACHA20-POLY1305''"
      "length encKey = 32" "length iv = 12"
    using build_chacha_ok [OF X that(3,4)] that(1,2) by (auto simp: buildProtector_def Let_def)
  have cbc: ?thesis if "\<not> c_AEAD (s_Cipher s)" "c_Name (s_Cipher s) = ''AES-128-CBC'' \<or> c_Name (s_Cipher s) = ''AES-256-CBC''"
      "length encKey \<in> {16, 24, 32}" "m_MACLen (s_MAC s) \<in> {20, 32, 48}"
  proof -
    note c = that
    obtain f where f: "macHashForLen (m_MACLen (s_MAC s)) = Inr f"
      using c(4) by (auto simp: macHashForLen_def)
    from build_cbc_ok [OF X c(3) h(1) h(2), of f macKey] obtain p where
      "NewCBCHMACProtector (aes_NewCipher X) (newHash X f) encKey macKey = Inr p" "cbc_ok p" by blast
    then show ?thesis using c(1,2) f by (auto simp: buildProtector_def Let_def)
  qed
  have gost: ?thesis if "c_Name (s_Cipher s) = ''GOST28147-CNT''"
      "length encKey = 32" "length macKey = 32" "length iv = 8"
    using build_gost_ok [OF X that(2-4), of "if s_KX s = KexGOST2012_256 then SboxTC26Z else SboxCryptoProA"] that(1)
    by (auto simp: buildProtector_def buildGOSTProtector_def Let_def)
  have kuz: ?thesis if "c_Name (s_Cipher s) = ''KUZNYECHIK-CTR-OMAC''"
      "length encKey = 32" "length macKey = 32" "length iv = 8"
    using build_kuznyechik_ok [OF X that(2-4)] that(1)
    by (auto simp: buildProtector_def buildKuznyechikCTROMACProtector_def Let_def)
  have magma: ?thesis if "c_Name (s_Cipher s) = ''MAGMA-CTR-OMAC''"
      "length encKey = 32" "length macKey = 32" "length iv = 4"
    using build_magma_ok [OF X that(2-4)] that(1)
    by (auto simp: buildProtector_def buildMagmaCTROMACProtector_def Let_def)
  from s len aead chacha cbc gost kuz magma show ?thesis
    unfolding suite_params_ok_def by (elim disjE conjE) (simp_all add: suite_spec_defs keyBlockIVLen_def)
qed

lemma suite_keys_pos: "suite_params_ok s \<Longrightarrow> 0 < c_KeyLen (s_Cipher s)"
  by (auto simp: suite_params_ok_def suite_spec_defs)

lemma expandKeys_ok:
  assumes H: "hashes_ok (newHash X)" and pos: "0 < c_KeyLen (s_Cipher s)"
  shows "\<exists>km. expandKeysManual X s ms cr sr i = Inr km
    \<and> length (km_ClientMACKey km) = m_KeyLen (s_MAC s) \<and> length (km_ServerMACKey km) = m_KeyLen (s_MAC s)
    \<and> length (km_ClientEncKey km) = c_KeyLen (s_Cipher s) \<and> length (km_ServerEncKey km) = c_KeyLen (s_Cipher s)
    \<and> length (km_ClientIV km) = i \<and> length (km_ServerIV km) = i"
proof -
  let ?n = "2 * m_KeyLen (s_MAC s) + 2 * c_KeyLen (s_Cipher s) + 2 * i"
  have h: "hash_ok (newHash X (s_PRF s))" "0 < h_Size (newHash X (s_PRF s))"
    using H hashFnSize_pos by (auto simp: hashes_ok_def)
  obtain kb where kb: "PRF (newHash X (s_PRF s)) ms (bytes_of ''key expansion'') (copyInto 32 sr @ copyInto 32 cr) ?n = Inr kb"
    "length kb = ?n"
    using PRF_Inr [OF h, of "bytes_of ''key expansion''" ?n] pos by (auto simp: bytes_of_def)
  have "expandKeysManual X s ms cr sr i = Inr (splitKeyBlock (m_KeyLen (s_MAC s)) (c_KeyLen (s_Cipher s)) i kb)"
    using kb(1) pos by (simp add: expandKeysManual_def Let_def)
  with splitKeyBlock_parts [OF kb(2)] show ?thesis by blast
qed

lemma buildProtectors_ok:
  assumes "rcrypto_ok X" "hashes_ok (newHash X)" "suite_params_ok s"
  shows "\<exists>km p q. expandKeysManual X s ms cr sr (expandKeysIVLen s) = Inr km \<and>
    buildProtectors X s km = Inr (p, q) \<and> peerP X p p \<and> peerP X q q"
proof -
  from expandKeys_ok [OF assms(2) suite_keys_pos [OF assms(3)], of ms cr sr "expandKeysIVLen s"]
  obtain km where km: "expandKeysManual X s ms cr sr (expandKeysIVLen s) = Inr km"
    and l: "length (km_ClientMACKey km) = m_KeyLen (s_MAC s)" "length (km_ServerMACKey km) = m_KeyLen (s_MAC s)"
      "length (km_ClientEncKey km) = c_KeyLen (s_Cipher s)" "length (km_ServerEncKey km) = c_KeyLen (s_Cipher s)"
      "length (km_ClientIV km) = keyBlockIVLen s" "length (km_ServerIV km) = keyBlockIVLen s"
    by (auto simp: expandKeysIVLen_eq)
  note b = buildProtector_ok [OF assms]
  from b [OF l(3,1,5)] b [OF l(4,2,6)] km show ?thesis by (auto simp: buildProtectors_def)
qed

end
