(* ===== verification/Kex.thy ===== *)
theory Kex
  imports Keys
begin

text \<open>
  \<open>internal/ke\<close>, the key exchanges with a ServerKeyExchange or an RSA certificate: ECDHE
  (\<open>ecdhe.go\<close>, \<open>rand_inject.go\<close>), finite-field DHE (\<open>dhe.go\<close>) and RSA (\<open>rsa.go\<close>).
  An exchange is a computation over the random source it reads.  \<open>crypto/ecdh\<close>,
  \<open>crypto/rsa\<close> and \<open>filippo.io/bigmod\<close> are fields of the environment record.  Shown: the
  exact validation DHE performs, and, through the locale \<open>key_agreement\<close>, that a server
  which follows the protocol derives the client's pre-master secret.
\<close>

datatype EcdhCurve = P256 | P384 | P521 | X25519

record rsaPublicKey =
  rsa_N :: int
  rsa_E :: int

text \<open>Keys of \<open>crypto/ecdh\<close> are represented by their byte encodings, a \<open>bigmod.Modulus\<close> and
  a \<open>bigmod.Nat\<close> by the number they hold.\<close>

record xcrypto = kcrypto +
  ecdh_NewPublicKey :: "EcdhCurve \<Rightarrow> bytes \<Rightarrow> bytes res"
  ecdh_NewPrivateKey :: "EcdhCurve \<Rightarrow> bytes \<Rightarrow> bytes res"
  ecdh_GenerateKey :: "EcdhCurve \<Rightarrow> (reader, bytes) sm"
  ecdh_PublicKey :: "EcdhCurve \<Rightarrow> bytes \<Rightarrow> bytes"
  ecdh_ECDH :: "EcdhCurve \<Rightarrow> bytes \<Rightarrow> bytes \<Rightarrow> bytes res"
  rsa_EncryptPKCS1v15 :: "rsaPublicKey \<Rightarrow> bytes \<Rightarrow> (reader, bytes) sm"
  bigmod_NewModulus :: "bytes \<Rightarrow> nat res"
  bigmod_SetBytes :: "bytes \<Rightarrow> nat \<Rightarrow> nat res"
  bigmod_SetOverflowingBytes :: "bytes \<Rightarrow> nat \<Rightarrow> nat res"
  bigmod_Exp :: "nat \<Rightarrow> bytes \<Rightarrow> nat \<Rightarrow> nat"
  bigmod_Bytes :: "nat \<Rightarrow> nat \<Rightarrow> bytes"

section \<open>ECDHE\<close>

definition namedCurveP256 :: u16 where "namedCurveP256 = 0x0017"
definition namedCurveP384 :: u16 where "namedCurveP384 = 0x0018"
definition namedCurveP521 :: u16 where "namedCurveP521 = 0x0019"
definition namedCurveX25519 :: u16 where "namedCurveX25519 = 0x001D"
definition ecdheCurveTypeNamed :: byte where "ecdheCurveTypeNamed = 3"
definition ecdheServerParamsMinLen :: nat where "ecdheServerParamsMinLen = 4"
definition ecdheHeaderLen :: nat where "ecdheHeaderLen = 4"

lemmas ecdhe_const_defs = namedCurveP256_def namedCurveP384_def namedCurveP521_def
  namedCurveX25519_def ecdheCurveTypeNamed_def ecdheServerParamsMinLen_def ecdheHeaderLen_def

definition curveByID :: "u16 \<Rightarrow> EcdhCurve res" where
  "curveByID i =
     (if i = namedCurveP256 then Inr P256
      else if i = namedCurveP384 then Inr P384
      else if i = namedCurveP521 then Inr P521
      else if i = namedCurveX25519 then Inr X25519
      else Inl (Sentinel ''errECDHEUnsupportedCurve''))"

definition ecdhExchangeWithRand_ClientKeyExchange ::
  "('x) xcrypto_scheme \<Rightarrow> bytes \<Rightarrow> (reader, bytes \<times> bytes) sm" where
  "ecdhExchangeWithRand_ClientKeyExchange X serverParams =
     (if length serverParams < ecdheServerParamsMinLen
      then failS (Sentinel ''errECDHEServerParamsTooShort'')
      else if serverParams ! 0 \<noteq> ecdheCurveTypeNamed
      then failS (Sentinel ''errECDHEUnsupportedCurveType'')
      else
        let namedCurve = push_bit 8 (ucast (serverParams ! 1)) OR ucast (serverParams ! 2)
        in bindS (liftS (curveByID namedCurve)) (\<lambda>curve.
           let pointLen = unat (serverParams ! 3)
           in if length serverParams < ecdheHeaderLen + pointLen
              then failS (Sentinel ''errECDHEServerParamsTruncated'')
              else
                let serverPubBytes = slice ecdheHeaderLen (ecdheHeaderLen + pointLen) serverParams
                in bindS (liftS (ecdh_NewPublicKey X curve serverPubBytes)) (\<lambda>serverPub.
                   bindS (ecdh_GenerateKey X curve) (\<lambda>clientPriv.
                   bindS (liftS (ecdh_ECDH X curve clientPriv serverPub)) (\<lambda>preMaster.
                   let clientPubBytes = ecdh_PublicKey X curve clientPriv;
                       cke = of_nat (length clientPubBytes) # clientPubBytes
                   in returnS (cke, preMaster))))))"

text \<open>\<open>ECDHEExchange.ClientKeyExchange\<close> is the same code on \<open>crypto/rand.Reader\<close>.\<close>

definition ECDHEExchange_ClientKeyExchange ::
  "('x) xcrypto_scheme \<Rightarrow> bytes \<Rightarrow> (reader, bytes \<times> bytes) sm" where
  "ECDHEExchange_ClientKeyExchange X serverParams =
     (if length serverParams < ecdheServerParamsMinLen
      then failS (Sentinel ''errECDHEServerParamsTooShort'')
      else if serverParams ! 0 \<noteq> ecdheCurveTypeNamed
      then failS (Sentinel ''errECDHEUnsupportedCurveType'')
      else
        let namedCurve = push_bit 8 (ucast (serverParams ! 1)) OR ucast (serverParams ! 2)
        in bindS (liftS (curveByID namedCurve)) (\<lambda>curve.
           let pointLen = unat (serverParams ! 3)
           in if length serverParams < ecdheHeaderLen + pointLen
              then failS (Sentinel ''errECDHEServerParamsTruncated'')
              else
                let serverPubBytes = slice ecdheHeaderLen (ecdheHeaderLen + pointLen) serverParams
                in bindS (liftS (ecdh_NewPublicKey X curve serverPubBytes)) (\<lambda>serverPub.
                   bindS (ecdh_GenerateKey X curve) (\<lambda>clientPriv.
                   bindS (liftS (ecdh_ECDH X curve clientPriv serverPub)) (\<lambda>preMaster.
                   let clientPubBytes = ecdh_PublicKey X curve clientPriv;
                       cke = of_nat (length clientPubBytes) # clientPubBytes
                   in returnS (cke, preMaster))))))"

definition ECDHGeneratePublic :: "('x) xcrypto_scheme \<Rightarrow> bytes \<Rightarrow> (bytes \<times> bytes) res" where
  "ECDHGeneratePublic X seed =
     bindR (ecdh_NewPrivateKey X P256 seed) (\<lambda>priv. Inr (priv, ecdh_PublicKey X P256 priv))"

section \<open>RSA\<close>

definition rsaPreMasterLen :: nat where "rsaPreMasterLen = 48"
definition rsaCKELenPrefixSize :: nat where "rsaCKELenPrefixSize = 2"

definition rsaExchangeWithRand_ClientKeyExchange ::
  "('x) xcrypto_scheme \<Rightarrow> rsaPublicKey \<Rightarrow> bytes \<Rightarrow> (reader, bytes \<times> bytes) sm" where
  "rsaExchangeWithRand_ClientKeyExchange X pub serverParams =
     bindS (ReadFull (rsaPreMasterLen - rsaCKELenPrefixSize)) (\<lambda>rnd.
     let preMaster = [0x03, 0x03] @ rnd
     in bindS (rsa_EncryptPKCS1v15 X pub preMaster) (\<lambda>ciphertext.
        let cke = put16 (of_nat (length ciphertext)) @ ciphertext
        in returnS (cke, preMaster)))"

definition RSAExchange_ClientKeyExchange ::
  "('x) xcrypto_scheme \<Rightarrow> rsaPublicKey \<Rightarrow> bytes \<Rightarrow> (reader, bytes \<times> bytes) sm" where
  "RSAExchange_ClientKeyExchange X pub serverParams =
     bindS (ReadFull (rsaPreMasterLen - rsaCKELenPrefixSize)) (\<lambda>rnd.
     let preMaster = [0x03, 0x03] @ rnd
     in bindS (rsa_EncryptPKCS1v15 X pub preMaster) (\<lambda>ciphertext.
        let cke = put16 (of_nat (length ciphertext)) @ ciphertext
        in returnS (cke, preMaster)))"

text \<open>The constructors refuse a \<open>nil\<close> key by panicking.\<close>

definition NewRSAExchange :: "rsaPublicKey option \<Rightarrow> rsaPublicKey res" where
  "NewRSAExchange pub =
     (case pub of None \<Rightarrow> Inl (Panic ''ke: NewRSAExchange: nil public key'') | Some k \<Rightarrow> Inr k)"

definition NewRSAExchangeWithRand :: "rsaPublicKey option \<Rightarrow> rsaPublicKey res" where
  "NewRSAExchangeWithRand pub =
     (case pub of None \<Rightarrow> Inl (Panic ''ke: NewRSAExchangeWithRand: nil public key'') | Some k \<Rightarrow> Inr k)"

section \<open>DHE\<close>

definition dheMinPBits :: nat where "dheMinPBits = 2048"
definition dheU16PrefixLen :: nat where "dheU16PrefixLen = 2"
definition dheMinG :: nat where "dheMinG = 2"
definition bitsPerByte :: nat where "bitsPerByte = 8"

lemmas dhe_const_defs = dheMinPBits_def dheU16PrefixLen_def dheMinG_def bitsPerByte_def

definition readU16LenPrefixed :: "bytes \<Rightarrow> (bytes \<times> bytes) res" where
  "readU16LenPrefixed b =
     guardR (length b < dheU16PrefixLen) (Sentinel ''errDHETooShort'') (
     let n = unat (get16 (b ! 0) (b ! 1));
         b = drop dheU16PrefixLen b
     in guardR (length b < n) (Sentinel ''errDHETruncated'') (Inr (take n b, drop n b)))"

definition parseDHEServerParams :: "bytes \<Rightarrow> (bytes \<times> bytes \<times> bytes) res" where
  "parseDHEServerParams params =
     bindR (readU16LenPrefixed params) (\<lambda>(p, rest).
     bindR (readU16LenPrefixed rest) (\<lambda>(g, rest).
     bindR (readU16LenPrefixed rest) (\<lambda>(Ys, rest).
     guardR (length rest \<noteq> 0) (Sentinel ''errDHETrailingBytes'') (Inr (p, g, Ys)))))"

definition validateDHEParams :: "bytes \<Rightarrow> bytes \<Rightarrow> bytes \<Rightarrow> unit res" where
  "validateDHEParams pBytes gBytes YsBytes =
     (let pBits = length pBytes * bitsPerByte in
      guardR (pBits < dheMinPBits) (Sentinel ''errDHEPTooShort'') (
      guardR (length pBytes = 0 \<or> (pBytes ! (length pBytes - 1)) AND 1 = 0) (Sentinel ''errDHEPEven'') (
      guardR (be_val gBytes < dheMinG) (Sentinel ''errDHEGTooSmall'') (
      let pBig = int (be_val pBytes); YsBig = int (be_val YsBytes) in
      guardR (YsBig \<le> 1) (Sentinel ''errDHEYsLow'') (
      guardR (YsBig \<ge> pBig - 1) (Sentinel ''errDHEYsHigh'') (
      Inr ()))))))"

definition modExp :: "('x) xcrypto_scheme \<Rightarrow> bytes \<Rightarrow> bytes \<Rightarrow> nat \<Rightarrow> bytes res" where
  "modExp X baseBytes expBytes m =
     bindR (case bigmod_SetBytes X baseBytes m of
              Inr base \<Rightarrow> Inr base
            | Inl _ \<Rightarrow> bigmod_SetOverflowingBytes X baseBytes m) (\<lambda>base.
     Inr (bigmod_Bytes X (bigmod_Exp X base expBytes m) m))"

definition leftPad :: "bytes \<Rightarrow> nat \<Rightarrow> bytes" where
  "leftPad b n = (if length b \<ge> n then b else replicate (n - length b) 0 @ b)"

text \<open>\<open>privateX\<close> is the optional fixed exponent of \<open>NewDHEExchange\<close>.\<close>

definition DHEExchange_ClientKeyExchange ::
  "('x) xcrypto_scheme \<Rightarrow> bytes option \<Rightarrow> bytes \<Rightarrow> (reader, bytes \<times> bytes) sm" where
  "DHEExchange_ClientKeyExchange X privateX serverParams =
     bindS (liftS (parseDHEServerParams serverParams)) (\<lambda>(pBytes, gBytes, YsBytes).
     bindS (liftS (validateDHEParams pBytes gBytes YsBytes)) (\<lambda>_.
     bindS (liftS (bigmod_NewModulus X pBytes)) (\<lambda>m.
     bindS (case privateX of Some x \<Rightarrow> returnS x | None \<Rightarrow> ReadFull (length pBytes)) (\<lambda>xBytes.
     bindS (liftS (modExp X gBytes xBytes m)) (\<lambda>Yc.
     bindS (liftS (modExp X YsBytes xBytes m)) (\<lambda>Z.
     let preMaster = leftPad Z (length pBytes);
         YcPadded = leftPad Yc (length pBytes);
         cke = put16 (of_nat (length YcPadded)) @ YcPadded
     in returnS (cke, preMaster)))))))"

definition DHEComputePublic :: "('x) xcrypto_scheme \<Rightarrow> bytes \<Rightarrow> bytes \<Rightarrow> bytes \<Rightarrow> bytes res" where
  "DHEComputePublic X pBytes baseBytes exponentBytes =
     bindR (bigmod_NewModulus X pBytes) (\<lambda>m.
     bindR (modExp X baseBytes exponentBytes m) (\<lambda>result.
     Inr (leftPad result (length pBytes))))"

section \<open>DHE parameters: parsing and validation\<close>

lemma readU16LenPrefixed_Inr:
  assumes "readU16LenPrefixed b = Inr (d, rest)"
  shows "b = put16 (of_nat (length d)) @ d @ rest" "length d < 65536"
proof -
  obtain x y b' where b: "b = x # y # b'"
    using assms by (auto simp: readU16LenPrefixed_def dheU16PrefixLen_def neq_Nil_conv Suc_le_length_iff
        numeral_2_eq_2 not_less)
  let ?n = "unat (get16 x y)"
  have n: "?n \<le> length b'" "d = take ?n b'" "rest = drop ?n b'"
    using assms b by (auto simp: readU16LenPrefixed_def dheU16PrefixLen_def Let_def)
  then have "length d = ?n" by simp
  then show "b = put16 (of_nat (length d)) @ d @ rest" using b n by (simp add: put16_get16)
  show "length d < 65536" using \<open>length d = ?n\<close> by simp
qed

lemma readU16LenPrefixed_put [wire_simps]:
  "length d < 65536 \<Longrightarrow> readU16LenPrefixed (put16 (of_nat (length d)) @ d @ rest) = Inr (d, rest)"
  by (simp add: readU16LenPrefixed_def dheU16PrefixLen_def put16_def)

lemma readU16LenPrefixed_iff:
  "readU16LenPrefixed b = Inr (d, rest) \<longleftrightarrow>
     length d < 65536 \<and> b = put16 (of_nat (length d)) @ d @ rest"
  using readU16LenPrefixed_Inr readU16LenPrefixed_put by auto

lemma parseDHEServerParams_iff:
  "parseDHEServerParams params = Inr (p, g, Ys) \<longleftrightarrow>
     length p < 65536 \<and> length g < 65536 \<and> length Ys < 65536 \<and>
     params = put16 (of_nat (length p)) @ p @ put16 (of_nat (length g)) @ g @ put16 (of_nat (length Ys)) @ Ys"
  by (auto simp: parseDHEServerParams_def bindR_eq_Inr readU16LenPrefixed_iff)

lemma even_byte: "(b :: byte) AND 1 = 0 \<longleftrightarrow> even (unat b)"
proof -
  have "odd (unat b) \<longleftrightarrow> odd b" by (simp add: bit_0 [symmetric] bit_unsigned_iff)
  then have "even (unat b) \<longleftrightarrow> even b" by blast
  then show ?thesis by (simp only: and_one_eq even_iff_mod_2_eq_zero)
qed

lemma even_be_val: "xs \<noteq> [] \<Longrightarrow> even (be_val xs) \<longleftrightarrow> even (unat (last xs))"
  by (induction xs rule: rev_induct) (simp_all add: be_val_append)

lemma validateDHEParams_Inr:
  "validateDHEParams p g Ys = Inr () \<longleftrightarrow>
     256 \<le> length p \<and> odd (be_val p) \<and> 2 \<le> be_val g \<and> 1 < be_val Ys \<and> be_val Ys + 1 < be_val p"
proof (cases "256 \<le> length p")
  case True
  then have ne: "p \<noteq> []" by auto
  have "p ! (length p - 1) AND 1 = 0 \<longleftrightarrow> even (be_val p)"
    unfolding even_byte even_be_val [OF ne] last_conv_nth [OF ne] ..
  with True ne show ?thesis
    unfolding validateDHEParams_def Let_def dhe_const_defs by (auto simp: not_le not_less)
qed (simp add: validateDHEParams_def dhe_const_defs)

section \<open>Modular exponentiation\<close>

fun byteSize :: "nat \<Rightarrow> nat" where
  "byteSize m = (if m = 0 then 0 else Suc (byteSize (m div 256)))"

declare byteSize.simps [simp del]

lemma byteSize_le: "m < 256 ^ n \<Longrightarrow> byteSize m \<le> n"
proof (induction n arbitrary: m)
  case (Suc n)
  then have "m div 256 < 256 ^ n" by (simp add: div_less_iff_less_mult mult.commute)
  from Suc.IH [OF this] show ?case by (subst byteSize.simps) simp
qed (subst byteSize.simps, simp)

text \<open>What \<open>filippo.io/bigmod\<close> documents of the operations the code uses.\<close>

definition bigmod_ok :: "('x) xcrypto_scheme \<Rightarrow> bool" where
  "bigmod_ok X \<longleftrightarrow>
     (\<forall>b. odd (be_val b) \<and> 1 < be_val b \<longrightarrow> bigmod_NewModulus X b = Inr (be_val b)) \<and>
     (\<forall>b m. be_val b < m \<longrightarrow> bigmod_SetBytes X b m = Inr (be_val b)) \<and>
     (\<forall>b m. m \<le> be_val b \<longrightarrow> (\<exists>e. bigmod_SetBytes X b m = Inl e)) \<and>
     (\<forall>b m x. bigmod_SetOverflowingBytes X b m = Inr x \<longrightarrow> x = be_val b mod m) \<and>
     (\<forall>x e m. x < m \<longrightarrow> bigmod_Exp X x e m = x ^ be_val e mod m) \<and>
     (\<forall>x m. x < m \<longrightarrow> be_val (bigmod_Bytes X x m) = x \<and> length (bigmod_Bytes X x m) = byteSize m)"

lemma bigmod_okD:
  assumes "bigmod_ok X"
  shows "odd (be_val b) \<Longrightarrow> 1 < be_val b \<Longrightarrow> bigmod_NewModulus X b = Inr (be_val b)"
    and "be_val b < m \<Longrightarrow> bigmod_SetBytes X b m = Inr (be_val b)"
    and "m \<le> be_val b \<Longrightarrow> \<exists>e. bigmod_SetBytes X b m = Inl e"
    and "bigmod_SetOverflowingBytes X b m = Inr x \<Longrightarrow> x = be_val b mod m"
    and "x < m \<Longrightarrow> bigmod_Exp X x e m = x ^ be_val e mod m"
    and "x < m \<Longrightarrow> be_val (bigmod_Bytes X x m) = x"
    and "x < m \<Longrightarrow> length (bigmod_Bytes X x m) = byteSize m"
  using assms unfolding bigmod_ok_def by simp_all

lemma modExp_Inr:
  assumes ok: "bigmod_ok X" and m: "0 < m" and r: "modExp X base e m = Inr out"
  shows "be_val out = be_val base ^ be_val e mod m" "length out = byteSize m"
proof -
  have "\<exists>x. x = be_val base mod m \<and> out = bigmod_Bytes X (bigmod_Exp X x e m) m"
  proof (cases "be_val base < m")
    case True
    then show ?thesis using r bigmod_okD(2) [OF ok True] by (simp add: modExp_def)
  next
    case False
    then obtain er where "bigmod_SetBytes X base m = Inl er" using bigmod_okD(3) [OF ok] by force
    then show ?thesis using r bigmod_okD(4) [OF ok] by (auto simp: modExp_def bindR_eq_Inr)
  qed
  then have out: "out = bigmod_Bytes X (be_val base ^ be_val e mod m) m"
    using m by (auto simp: bigmod_okD(5) [OF ok] power_mod)
  show "be_val out = be_val base ^ be_val e mod m" "length out = byteSize m"
    unfolding out using m by (simp_all add: bigmod_okD(6,7) [OF ok])
qed

lemma modExp_total:
  assumes "bigmod_ok X" "be_val base < m"
  shows "\<exists>out. modExp X base e m = Inr out"
  using bigmod_okD(2) [OF assms] by (simp add: modExp_def)

lemma leftPad_props:
  "length b \<le> n \<Longrightarrow> length (leftPad b n) = n" "be_val (leftPad b n) = be_val b"
  by (auto simp: leftPad_def be_val_append)

lemma DHE_Inr:
  assumes ok: "bigmod_ok X"
    and r: "DHEExchange_ClientKeyExchange X privateX params r = (Inr (cke, pm), r')"
  obtains p g Ys x where
    "parseDHEServerParams params = Inr (p, g, Ys)" "validateDHEParams p g Ys = Inr ()"
    "privateX = None \<Longrightarrow> length x = length p \<and> r_data r = x @ r_data r'"
    "\<And>y. privateX = Some y \<Longrightarrow> x = y"
    "length pm = length p" "be_val pm = be_val Ys ^ be_val x mod be_val p"
    "\<exists>Yc. cke = put16 (of_nat (length Yc)) @ Yc \<and> length Yc = length p \<and> be_val Yc = be_val g ^ be_val x mod be_val p"
proof -
  obtain p g Ys m x Yc Z r1 where
    p: "parseDHEServerParams params = Inr (p, g, Ys)" "validateDHEParams p g Ys = Inr ()"
    and m: "bigmod_NewModulus X p = Inr m"
    and x: "(case privateX of Some x \<Rightarrow> returnS x | None \<Rightarrow> ReadFull (length p)) r = (Inr x, r')"
    and Yc: "modExp X g x m = Inr Yc" and Z: "modExp X Ys x m = Inr Z"
    and out: "pm = leftPad Z (length p)" "cke = put16 (of_nat (length (leftPad Yc (length p)))) @ leftPad Yc (length p)"
    using r by (auto simp: DHEExchange_ClientKeyExchange_def bindS_eq_Inr Let_def)
  have v: "odd (be_val p)" "1 < be_val p" using p(2) by (auto simp: validateDHEParams_Inr)
  have m': "m = be_val p" using m bigmod_okD(1) [OF ok v] by simp
  have sz: "byteSize m \<le> length p" unfolding m' by (rule byteSize_le) (rule be_val_lt)
  have pos: "0 < m" using v m' by simp
  note e = modExp_Inr [OF ok pos Yc] modExp_Inr [OF ok pos Z]
  show thesis
  proof (rule that [OF p])
    show "privateX = None \<Longrightarrow> length x = length p \<and> r_data r = x @ r_data r'"
      using x by (auto dest: ReadFull_Inr)
    show "\<And>y. privateX = Some y \<Longrightarrow> x = y" using x by simp
    show "length pm = length p" "be_val pm = be_val Ys ^ be_val x mod be_val p"
      using e sz out(1) m' by (simp_all add: leftPad_props)
    show "\<exists>Yc. cke = put16 (of_nat (length Yc)) @ Yc \<and> length Yc = length p \<and> be_val Yc = be_val g ^ be_val x mod be_val p"
      using e sz out(2) m' by (intro exI [of _ "leftPad Yc (length p)"]) (simp add: leftPad_props)
  qed
qed

section \<open>The two sides agree\<close>

text \<open>The contract of \<open>ke.Exchange\<close>: a server holding the secret behind the parameters it
  published computes, from the ClientKeyExchange body, the client's pre-master secret.\<close>

locale key_agreement =
  fixes client :: "bytes \<Rightarrow> (reader, bytes \<times> bytes) sm"
    and server :: "'k \<Rightarrow> bytes \<Rightarrow> bytes \<Rightarrow> bytes option"
    and offers :: "'k \<Rightarrow> bytes \<Rightarrow> bool"
  assumes agree: "offers k params \<Longrightarrow> client params r = (Inr (cke, pm), r') \<Longrightarrow>
    server k params cke = Some pm"
begin

lemma same_key_block:
  assumes "offers k params" "client params r = (Inr (cke, pm), r')"
    and "MasterSecret H suite pm cr sr = Inr ms"
  shows "\<exists>pm'. server k params cke = Some pm' \<and>
    bindR (MasterSecret H suite pm' cr sr) (\<lambda>ms'. KeyExpansion H suite ms' cr sr) = KeyExpansion H suite ms cr sr"
  using agree [OF assms(1,2)] assms(3) by simp

end

subsection \<open>ECDHE\<close>

text \<open>Documented by \<open>crypto/ecdh\<close>: a generated key is a private key of its curve, the encoding
  of its public key is accepted back, and the shared secret does not depend on the side.\<close>

definition ecdh_ok :: "('x) xcrypto_scheme \<Rightarrow> bool" where
  "ecdh_ok X \<longleftrightarrow>
     (\<forall>c r a r'. ecdh_GenerateKey X c r = (Inr a, r') \<longrightarrow> ecdh_NewPrivateKey X c a = Inr a) \<and>
     (\<forall>c a. ecdh_NewPrivateKey X c a = Inr a \<longrightarrow>
        length (ecdh_PublicKey X c a) < 256 \<and>
        ecdh_NewPublicKey X c (ecdh_PublicKey X c a) = Inr (ecdh_PublicKey X c a)) \<and>
     (\<forall>c a b. ecdh_NewPrivateKey X c a = Inr a \<longrightarrow> ecdh_NewPrivateKey X c b = Inr b \<longrightarrow>
        ecdh_ECDH X c a (ecdh_PublicKey X c b) = ecdh_ECDH X c b (ecdh_PublicKey X c a))"

definition ecdhe_params :: "u16 \<Rightarrow> bytes \<Rightarrow> bytes" where
  "ecdhe_params named point = [ecdheCurveTypeNamed] @ put16 named @ [of_nat (length point)] @ point"

fun ecdhe_offers :: "('x) xcrypto_scheme \<Rightarrow> EcdhCurve \<times> bytes \<Rightarrow> bytes \<Rightarrow> bool" where
  "ecdhe_offers X (c, b) params \<longleftrightarrow> ecdh_ok X \<and> ecdh_NewPrivateKey X c b = Inr b \<and>
     (\<exists>named. curveByID named = Inr c \<and> params = ecdhe_params named (ecdh_PublicKey X c b))"

fun ecdhe_server :: "('x) xcrypto_scheme \<Rightarrow> EcdhCurve \<times> bytes \<Rightarrow> bytes \<Rightarrow> bytes \<Rightarrow> bytes option" where
  "ecdhe_server X (c, b) params [] = None"
| "ecdhe_server X (c, b) params (n # point) =
     (if length point \<noteq> unat n then None
      else case ecdh_NewPublicKey X c point of
             Inl _ \<Rightarrow> None
           | Inr pub \<Rightarrow> (case ecdh_ECDH X c b pub of Inl _ \<Rightarrow> None | Inr s \<Rightarrow> Some s))"

lemma ECDHE_same_code: "ECDHEExchange_ClientKeyExchange X = ecdhExchangeWithRand_ClientKeyExchange X"
  by (simp add: fun_eq_iff ECDHEExchange_ClientKeyExchange_def ecdhExchangeWithRand_ClientKeyExchange_def)

lemma ecdhe_client_params:
  assumes "curveByID named = Inr c" "length point < 256"
  shows "ecdhExchangeWithRand_ClientKeyExchange X (ecdhe_params named point) =
    bindS (liftS (ecdh_NewPublicKey X c point)) (\<lambda>serverPub.
    bindS (ecdh_GenerateKey X c) (\<lambda>clientPriv.
    bindS (liftS (ecdh_ECDH X c clientPriv serverPub)) (\<lambda>preMaster.
    returnS (of_nat (length (ecdh_PublicKey X c clientPriv)) # ecdh_PublicKey X c clientPriv, preMaster))))"
proof -
  have "push_bit 8 (ucast (ecdhe_params named point ! 1)) OR ucast (ecdhe_params named point ! 2) = named"
    using get16_put16 [of named] by (simp add: ecdhe_params_def put16_def get16_def)
  moreover have "ecdhe_params named point ! 0 = 3" "ecdhe_params named point ! 3 = of_nat (length point)"
    "slice 4 (4 + length point) (ecdhe_params named point) = point"
    "length (ecdhe_params named point) = 4 + length point"
    by (simp_all add: ecdhe_params_def put16_def ecdheCurveTypeNamed_def slice_def)
  ultimately show ?thesis
    unfolding ecdhExchangeWithRand_ClientKeyExchange_def
    using assms by (simp add: ecdhe_const_defs(5-7) Let_def fun_eq_iff)
qed

lemma ecdhe_agree:
  assumes "ecdhe_offers X k params"
    and "ecdhExchangeWithRand_ClientKeyExchange X params r = (Inr (cke, pm), r')"
  shows "ecdhe_server X k params cke = Some pm"
proof -
  obtain c b named where k: "k = (c, b)" and ok: "ecdh_ok X" and b: "ecdh_NewPrivateKey X c b = Inr b"
    and n: "curveByID named = Inr c" and params: "params = ecdhe_params named (ecdh_PublicKey X c b)"
    using assms(1) by (cases k) auto
  have pub: "length (ecdh_PublicKey X c x) < 256" "ecdh_NewPublicKey X c (ecdh_PublicKey X c x) = Inr (ecdh_PublicKey X c x)"
    if "ecdh_NewPrivateKey X c x = Inr x" for x
    using ok that unfolding ecdh_ok_def by blast+
  obtain a r1 where a: "ecdh_GenerateKey X c r = (Inr a, r1)"
    and s: "ecdh_ECDH X c a (ecdh_PublicKey X c b) = Inr pm"
    and cke: "cke = of_nat (length (ecdh_PublicKey X c a)) # ecdh_PublicKey X c a"
    using assms(2) unfolding params ecdhe_client_params [OF n pub(1) [OF b]]
    by (auto simp: bindS_eq_Inr pub(2) [OF b])
  have a': "ecdh_NewPrivateKey X c a = Inr a" using ok a unfolding ecdh_ok_def by blast
  have "ecdh_ECDH X c b (ecdh_PublicKey X c a) = Inr pm"
    using ok a' b s unfolding ecdh_ok_def by metis
  then show ?thesis using pub [OF a'] by (simp add: k cke)
qed

interpretation ecdhe: key_agreement "ecdhExchangeWithRand_ClientKeyExchange X" "ecdhe_server X" "ecdhe_offers X" for X
  by unfold_locales (rule ecdhe_agree)

subsection \<open>RSA\<close>

text \<open>The server's \<open>DecryptPKCS1v15\<close> inverts \<open>EncryptPKCS1v15\<close> under its public key, and
  a ciphertext is as long as the modulus.\<close>

definition rsa_offers :: "('x) xcrypto_scheme \<Rightarrow> rsaPublicKey \<Rightarrow> (bytes \<Rightarrow> bytes option) \<Rightarrow> bytes \<Rightarrow> bool" where
  "rsa_offers X pub dec params \<longleftrightarrow>
     (\<forall>m r c r'. rsa_EncryptPKCS1v15 X pub m r = (Inr c, r') \<longrightarrow> dec c = Some m \<and> length c < 65536)"

definition rsa_server :: "(bytes \<Rightarrow> bytes option) \<Rightarrow> bytes \<Rightarrow> bytes \<Rightarrow> bytes option" where
  "rsa_server dec params cke =
     (case readU16LenPrefixed cke of
        Inr (c, []) \<Rightarrow> (case dec c of
            Some pm \<Rightarrow> if length pm = 48 \<and> take 2 pm = [3, 3] then Some pm else None
          | None \<Rightarrow> None)
      | _ \<Rightarrow> None)"

lemma RSA_same_code: "RSAExchange_ClientKeyExchange X = rsaExchangeWithRand_ClientKeyExchange X"
  by (simp add: fun_eq_iff RSAExchange_ClientKeyExchange_def rsaExchangeWithRand_ClientKeyExchange_def)

lemma rsa_agree:
  assumes "rsa_offers X pub dec params"
    and "rsaExchangeWithRand_ClientKeyExchange X pub params r = (Inr (cke, pm), r')"
  shows "rsa_server dec params cke = Some pm"
proof -
  obtain rnd c r1 where rnd: "ReadFull 46 r = (Inr rnd, r1)" and pm: "pm = [3, 3] @ rnd"
    and c: "rsa_EncryptPKCS1v15 X pub pm r1 = (Inr c, r')" and cke: "cke = put16 (of_nat (length c)) @ c"
    using assms(2)
    by (auto simp: rsaExchangeWithRand_ClientKeyExchange_def bindS_eq_Inr rsaPreMasterLen_def
        rsaCKELenPrefixSize_def Let_def)
  have "dec c = Some pm" "length c < 65536" using assms(1) c unfolding rsa_offers_def by blast+
  moreover have "length rnd = 46" using ReadFull_Inr [OF rnd] by simp
  ultimately show ?thesis
    using readU16LenPrefixed_put [of c "[]"] by (simp add: rsa_server_def cke pm)
qed

interpretation rsakx: key_agreement "rsaExchangeWithRand_ClientKeyExchange X pub" rsa_server "rsa_offers X pub" for X pub
  by unfold_locales (rule rsa_agree)

subsection \<open>DHE\<close>

fun be_bytes :: "nat \<Rightarrow> nat \<Rightarrow> bytes" where
  "be_bytes 0 v = []"
| "be_bytes (Suc n) v = of_nat (v div 256 ^ n mod 256) # be_bytes n v"

lemma length_be_bytes [simp]: "length (be_bytes n v) = n"
  by (induction n) simp_all

lemma be_val_be_bytes: "be_val (be_bytes n v) = v mod 256 ^ n"
proof (induction n)
  case (Suc n)
  have "v mod 256 ^ Suc n = 256 ^ n * (v div 256 ^ n mod 256) + v mod 256 ^ n"
    using mod_mult2_eq [of v "256 ^ n" 256] by (simp add: mult.commute)
  then show ?case using Suc by simp
qed simp

definition dhe_offers :: "('x) xcrypto_scheme \<Rightarrow> nat \<Rightarrow> bytes \<Rightarrow> bool" where
  "dhe_offers X y params \<longleftrightarrow> bigmod_ok X \<and>
     (\<exists>p g Ys. parseDHEServerParams params = Inr (p, g, Ys) \<and> be_val Ys = be_val g ^ y mod be_val p)"

definition dhe_server :: "nat \<Rightarrow> bytes \<Rightarrow> bytes \<Rightarrow> bytes option" where
  "dhe_server y params cke =
     (case parseDHEServerParams params of
        Inl _ \<Rightarrow> None
      | Inr (p, g, Ys) \<Rightarrow>
          (case readU16LenPrefixed cke of
             Inr (Yc, []) \<Rightarrow> Some (be_bytes (length p) (be_val Yc ^ y mod be_val p))
           | _ \<Rightarrow> None))"

lemma dhe_exponents: "((g::nat) ^ x mod p) ^ y mod p = (g ^ y mod p) ^ x mod p"
  by (simp add: power_mod power_mult [symmetric] mult.commute)

lemma dhe_agree:
  assumes "dhe_offers X y params"
    and "DHEExchange_ClientKeyExchange X privateX params r = (Inr (cke, pm), r')"
  shows "dhe_server y params cke = Some pm"
proof -
  from assms(1) obtain p g Ys where ok: "bigmod_ok X" and ps: "parseDHEServerParams params = Inr (p, g, Ys)"
    and Ys: "be_val Ys = be_val g ^ y mod be_val p" by (auto simp: dhe_offers_def)
  from DHE_Inr [OF ok assms(2)] ps obtain x Yc where pm: "length pm = length p"
    "be_val pm = be_val Ys ^ be_val x mod be_val p"
    and Yc: "cke = put16 (of_nat (length Yc)) @ Yc" "length Yc = length p" "be_val Yc = be_val g ^ be_val x mod be_val p"
    and v: "validateDHEParams p g Ys = Inr ()"
    by (metis (no_types, lifting) Inr_inject prod.inject)
  have pos: "0 < be_val p" using v by (auto simp: validateDHEParams_Inr)
  have "length p < 65536" using ps by (simp add: parseDHEServerParams_iff)
  then have rd: "readU16LenPrefixed cke = Inr (Yc, [])"
    using readU16LenPrefixed_put [of Yc "[]"] Yc by simp
  let ?Z = "be_val Yc ^ y mod be_val p"
  have Z: "?Z = be_val pm" unfolding pm(2) Ys Yc(3) by (rule dhe_exponents)
  have "?Z < 256 ^ length p" using pos be_val_lt [of p] by (meson less_trans mod_less_divisor)
  then have "be_bytes (length p) ?Z = pm"
    using Z pm(1) by (intro be_val_inj) (simp_all add: be_val_be_bytes)
  then show ?thesis using ps rd by (simp add: dhe_server_def)
qed

text \<open>The exchange succeeds on every validated offer with a base below the modulus.\<close>

lemma DHE_total:
  assumes ok: "bigmod_ok X" and ps: "parseDHEServerParams params = Inr (p, g, Ys)" and v: "validateDHEParams p g Ys = Inr ()"
    and g: "be_val g < be_val p" and r: "length p \<le> length (r_data r)"
  shows "\<exists>cke pm r'. DHEExchange_ClientKeyExchange X None params r = (Inr (cke, pm), r')"
proof -
  have w: "odd (be_val p)" "1 < be_val p" "be_val Ys < be_val p" using v by (auto simp: validateDHEParams_Inr)
  let ?x = "take (length p) (r_data r)"
  obtain Yc where "modExp X g ?x (be_val p) = Inr Yc" using modExp_total [OF ok g] by blast
  moreover obtain Z where "modExp X Ys ?x (be_val p) = Inr Z" using modExp_total [OF ok w(3)] by blast
  ultimately show ?thesis
    unfolding DHEExchange_ClientKeyExchange_def using ps v r bigmod_okD(1) [OF ok w(1,2)] by (simp add: bindS_def ReadFull_def Let_def)
qed

interpretation dhe: key_agreement "DHEExchange_ClientKeyExchange X privateX" dhe_server "dhe_offers X" for X privateX
  by unfold_locales (rule dhe_agree)

end
