(* ===== verification/Asn1.thy ===== *)
theory Asn1
  imports Prelude
begin

text \<open>
  What the code uses of \<open>encoding/asn1\<close>: the tag-and-length header in both directions,
  \<open>Marshal\<close> for byte strings, bit strings, object identifiers, raw values and structures, and
  \<open>Unmarshal\<close> into an AlgorithmIdentifier and into a pair of integers (the ECDSA
  signature).  Every check and error of the library's parser on those paths is a branch here.
\<close>

definition asn1SyntaxError :: err where "asn1SyntaxError = Sentinel ''asn1.SyntaxError''"
definition asn1StructuralError :: err where "asn1StructuralError = Sentinel ''asn1.StructuralError''"

section \<open>Marshalling\<close>

fun lengthLength :: "nat \<Rightarrow> nat" where
  "lengthLength i = (if i > 255 then Suc (lengthLength (i div 256)) else 1)"

declare lengthLength.simps [simp del]

fun appendLength_loop :: "nat \<Rightarrow> nat \<Rightarrow> bytes" where
  "appendLength_loop 0 i = []"
| "appendLength_loop (Suc n) i = of_nat (i div 256 ^ n) # appendLength_loop n i"

definition derLength :: "nat \<Rightarrow> bytes" where
  "derLength n =
     (if n \<ge> 128 then (0x80 OR of_nat (lengthLength n)) # appendLength_loop (lengthLength n) n
      else [of_nat n])"

text \<open>An element whose identifier octet is \<open>tag\<close> (every tag number used is below 31).\<close>

definition derElem :: "byte \<Rightarrow> bytes \<Rightarrow> bytes" where
  "derElem tag body = tag # derLength (length body) @ body"

definition tagOctetString :: byte where "tagOctetString = 0x04"
definition tagBitString :: byte where "tagBitString = 0x03"
definition tagOID :: byte where "tagOID = 0x06"
definition tagSequence :: byte where "tagSequence = 0x30"
definition tagContext0 :: byte where "tagContext0 = 0xA0"

lemmas der_tag_defs = tagOctetString_def tagBitString_def tagOID_def tagSequence_def tagContext0_def

definition derOctetString :: "bytes \<Rightarrow> bytes" where
  "derOctetString b = derElem tagOctetString b"

definition derBitString :: "bytes \<Rightarrow> nat \<Rightarrow> bytes" where
  "derBitString b bitLength = derElem tagBitString (of_nat ((8 - bitLength mod 8) mod 8) # b)"

fun base128_tail :: "nat \<Rightarrow> bytes" where
  "base128_tail n = (if n = 0 then [] else base128_tail (n div 128) @ [0x80 OR of_nat (n mod 128)])"

declare base128_tail.simps [simp del]

definition appendBase128Int :: "nat \<Rightarrow> bytes" where
  "appendBase128Int n = base128_tail (n div 128) @ [of_nat (n mod 128)]"

definition derOID :: "nat list \<Rightarrow> bytes res" where
  "derOID oid =
     (case oid of
        a # b # rest \<Rightarrow>
          if a > 2 \<or> (a < 2 \<and> b \<ge> 40) then Inl asn1StructuralError
          else Inr (derElem tagOID (appendBase128Int (a * 40 + b) @ concat (map appendBase128Int rest)))
      | _ \<Rightarrow> Inl asn1StructuralError)"

text \<open>A \<open>RawValue\<close>; its zero value is the default of an optional field.\<close>

record RawValue =
  rv_Class :: nat
  rv_Tag :: nat
  rv_IsCompound :: bool
  rv_Bytes :: bytes
  rv_FullBytes :: bytes

definition zeroRawValue :: RawValue where
  "zeroRawValue = \<lparr>rv_Class = 0, rv_Tag = 0, rv_IsCompound = False, rv_Bytes = [], rv_FullBytes = []\<rparr>"

definition derRawValue :: "RawValue \<Rightarrow> bytes" where
  "derRawValue rv =
     (if rv_FullBytes rv \<noteq> [] then rv_FullBytes rv
      else derElem (push_bit 6 (of_nat (rv_Class rv)) OR (if rv_IsCompound rv then 0x20 else 0)
                    OR of_nat (rv_Tag rv)) (rv_Bytes rv))"

section \<open>Unmarshalling\<close>

text \<open>The header of an element: class, tag number, the compound bit and the length.\<close>

record tagAndLength =
  tl_class :: nat
  tl_tag :: nat
  tl_length :: nat
  tl_isCompound :: bool

fun parseBase128Int_loop :: "nat \<Rightarrow> nat \<Rightarrow> bytes \<Rightarrow> (nat \<times> bytes) res" where
  "parseBase128Int_loop shifted acc [] = Inl asn1SyntaxError"
| "parseBase128Int_loop shifted acc (b # bs) =
     (if shifted = 5 then Inl asn1StructuralError
      else if shifted = 0 \<and> b = 0x80 then Inl asn1SyntaxError
      else let acc = acc * 128 + unat (b AND 0x7f)
           in if b AND 0x80 = 0 then
                (if acc > 2147483647 then Inl asn1StructuralError else Inr (acc, bs))
              else parseBase128Int_loop (Suc shifted) acc bs)"

definition parseBase128Int :: "bytes \<Rightarrow> (nat \<times> bytes) res" where
  "parseBase128Int bs = parseBase128Int_loop 0 0 bs"

fun parseLongLength :: "nat \<Rightarrow> nat \<Rightarrow> bytes \<Rightarrow> (nat \<times> bytes) res" where
  "parseLongLength 0 acc bs = (if acc < 0x80 then Inl asn1StructuralError else Inr (acc, bs))"
| "parseLongLength (Suc n) acc [] = Inl asn1SyntaxError"
| "parseLongLength (Suc n) acc (b # bs) =
     (if acc \<ge> 2 ^ 23 then Inl asn1StructuralError
      else let acc = acc * 256 + unat b
           in if acc = 0 then Inl asn1StructuralError else parseLongLength n acc bs)"

definition parseLength :: "bytes \<Rightarrow> (nat \<times> bytes) res" where
  "parseLength bs =
     (case bs of
        [] \<Rightarrow> Inl asn1SyntaxError
      | b # bs \<Rightarrow>
          if b AND 0x80 = 0 then Inr (unat (b AND 0x7f), bs)
          else let numBytes = unat (b AND 0x7f)
               in if numBytes = 0 then Inl asn1SyntaxError else parseLongLength numBytes 0 bs)"

definition parseTagAndLength :: "bytes \<Rightarrow> (tagAndLength \<times> bytes) res" where
  "parseTagAndLength bs =
     (case bs of
        [] \<Rightarrow> Inl (Sentinel ''asn1: internal error in parseTagAndLength'')
      | b # bs \<Rightarrow>
          bindR (if unat (b AND 0x1f) = 0x1f
                 then bindR (parseBase128Int bs) (\<lambda>(t, bs).
                        guardR (t < 0x1f) asn1SyntaxError (Inr (t, bs)))
                 else Inr (unat (b AND 0x1f), bs)) (\<lambda>(t, bs).
          bindR (parseLength bs) (\<lambda>(len, bs).
          Inr (\<lparr>tl_class = unat (drop_bit 6 b), tl_tag = t, tl_length = len,
                tl_isCompound = (b AND 0x20 = 0x20)\<rparr>, bs))))"

text \<open>An element of a universal type: the header must carry the given tag and compound bit, and
  the contents must be there.\<close>

definition parseElem :: "nat \<Rightarrow> bool \<Rightarrow> bytes \<Rightarrow> (bytes \<times> bytes) res" where
  "parseElem tag compound bs =
     guardR (bs = []) asn1SyntaxError (
     bindR (parseTagAndLength bs) (\<lambda>(t, rest).
     guardR (tl_class t \<noteq> 0 \<or> tl_tag t \<noteq> tag \<or> tl_isCompound t \<noteq> compound) asn1StructuralError (
     guardR (length rest < tl_length t) asn1SyntaxError (
     Inr (take (tl_length t) rest, drop (tl_length t) rest)))))"

definition parseRawValue :: "bytes \<Rightarrow> (RawValue \<times> bytes) res" where
  "parseRawValue bs =
     bindR (parseTagAndLength bs) (\<lambda>(t, rest).
     guardR (length rest < tl_length t) asn1SyntaxError (
     Inr (\<lparr>rv_Class = tl_class t, rv_Tag = tl_tag t, rv_IsCompound = tl_isCompound t,
           rv_Bytes = take (tl_length t) rest,
           rv_FullBytes = take (length bs - length (drop (tl_length t) rest)) bs\<rparr>,
          drop (tl_length t) rest)))"

lemma parseBase128Int_loop_shrinks:
  "parseBase128Int_loop k acc bs = Inr (v, bs') \<Longrightarrow> length bs' < length bs"
  by (induction k acc bs rule: parseBase128Int_loop.induct) (auto simp: Let_def split: if_splits)

function parseOIDTail :: "bytes \<Rightarrow> nat list res" where
  "parseOIDTail bs =
     (if bs = [] then Inr []
      else bindR (parseBase128Int bs) (\<lambda>(v, bs). bindR (parseOIDTail bs) (\<lambda>vs. Inr (v # vs))))"
  by pat_completeness auto
termination
  by (relation "measure length") (auto simp: parseBase128Int_def dest: parseBase128Int_loop_shrinks)

declare parseOIDTail.simps [simp del]

definition parseObjectIdentifier :: "bytes \<Rightarrow> nat list res" where
  "parseObjectIdentifier bs =
     guardR (length bs = 0) asn1SyntaxError (
     bindR (parseBase128Int bs) (\<lambda>(v, bs).
     bindR (parseOIDTail bs) (\<lambda>vs.
     Inr ((if v < 80 then [v div 40, v mod 40] else [2, v - 80]) @ vs))))"

text \<open>\<open>INTEGER\<close> contents: minimal two's complement.\<close>

definition checkInteger :: "bytes \<Rightarrow> bool" where
  "checkInteger b \<longleftrightarrow>
     (case b of
        [] \<Rightarrow> False
      | [x] \<Rightarrow> True
      | x # y # _ \<Rightarrow> \<not> (x = 0 \<and> y AND 0x80 = 0) \<and> \<not> (x = 0xff \<and> y AND 0x80 = 0x80))"

definition parseBigInt :: "bytes \<Rightarrow> int res" where
  "parseBigInt b =
     guardR (\<not> checkInteger b) asn1StructuralError (
     Inr (if hd b AND 0x80 = 0x80 then int (be_val b) - 256 ^ length b else int (be_val b)))"

text \<open>\<open>asn1.Unmarshal(b, &struct{R, S *big.Int})\<close>, with the bytes left over.\<close>

definition unmarshalECDSASig :: "bytes \<Rightarrow> (int \<times> int \<times> bytes) res" where
  "unmarshalECDSASig b =
     bindR (parseElem 16 True b) (\<lambda>(inner, rest).
     bindR (parseElem 2 False inner) (\<lambda>(r, inner).
     bindR (parseBigInt r) (\<lambda>R.
     bindR (parseElem 2 False inner) (\<lambda>(s, inner).
     bindR (parseBigInt s) (\<lambda>S.
     Inr (R, S, rest))))))"

section \<open>Headers are read back\<close>

lemma lengthLength_bounds:
  "0 < n \<Longrightarrow> 256 ^ (lengthLength n - 1) \<le> n \<and> n < 256 ^ lengthLength n \<and> 0 < lengthLength n"
proof (induction n rule: lengthLength.induct)
  case (1 n)
  show ?case
  proof (cases "n > 255")
    case True
    then have pos: "0 < n div 256" by simp
    have ih: "256 ^ (lengthLength (n div 256) - 1) \<le> n div 256" "n div 256 < 256 ^ lengthLength (n div 256)"
      "0 < lengthLength (n div 256)" using "1.IH" [OF True pos] by blast+
    have l: "lengthLength n = Suc (lengthLength (n div 256))" using True by (subst lengthLength.simps) simp
    have "256 ^ lengthLength (n div 256) = 256 * 256 ^ (lengthLength (n div 256) - 1)"
      using ih(3) by (simp add: power_eq_if)
    also have "\<dots> \<le> 256 * (n div 256)" using ih(1) by simp
    also have "\<dots> \<le> n" by simp
    finally have lo: "256 ^ lengthLength (n div 256) \<le> n" .
    have "n < 256 * 256 ^ lengthLength (n div 256)"
      using ih(2) by (simp add: div_less_iff_less_mult mult.commute)
    then show ?thesis using l lo by simp
  next
    case False
    then have "lengthLength n = 1" by (subst lengthLength.simps) simp
    then show ?thesis using False "1.prems" by simp
  qed
qed

lemma length_appendLength_loop [simp]: "length (appendLength_loop n i) = n"
  by (induction n) simp_all

lemma be_val_appendLength_loop: "be_val (appendLength_loop n i) = i mod 256 ^ n"
proof (induction n)
  case (Suc n)
  have "i mod 256 ^ Suc n = 256 ^ n * (i div 256 ^ n mod 256) + i mod 256 ^ n"
    using mod_mult2_eq [of i "256 ^ n" 256] by (simp add: mult.commute)
  then show ?case using Suc by (simp add: unat_of_nat)
qed simp

lemma parseLongLength_value:
  assumes "length xs = n" "acc * 256 ^ n + be_val xs < 2 ^ 31" "128 \<le> acc * 256 ^ n + be_val xs"
    "acc = 0 \<Longrightarrow> xs \<noteq> [] \<and> hd xs \<noteq> 0"
  shows "parseLongLength n acc (xs @ rest) = Inr (acc * 256 ^ n + be_val xs, rest)"
  using assms
proof (induction n arbitrary: acc xs)
  case (Suc n)
  obtain b ys where xs: "xs = b # ys" using Suc.prems(1) by (cases xs) auto
  have ly: "length ys = n" using Suc.prems(1) xs by simp
  have eq: "acc * 256 ^ Suc n + be_val xs = (acc * 256 + unat b) * 256 ^ n + be_val ys"
    using ly by (simp add: xs algebra_simps)
  have "acc * 256 \<le> acc * 256 ^ Suc n" by simp
  then have "acc * 256 < 2 ^ 31" using Suc.prems(2) by linarith
  then have lt: "acc < 2 ^ 23" by simp
  have nz: "acc * 256 + unat b \<noteq> 0"
    using Suc.prems(4) xs by (auto simp: unat_eq_0)
  have "parseLongLength n (acc * 256 + unat b) (ys @ rest) = Inr ((acc * 256 + unat b) * 256 ^ n + be_val ys, rest)"
    using Suc.prems(2,3) nz unfolding eq by (intro Suc.IH [OF ly]) simp_all
  then show ?case using lt nz unfolding eq by (simp add: xs Let_def)
qed simp

lemma long_form_byte:
  assumes "k < 5"
  shows "(0x80 OR of_nat k :: byte) AND 0x80 \<noteq> 0" "unat ((0x80 OR of_nat k :: byte) AND 0x7f) = k"
proof -
  have "k = 0 \<or> k = 1 \<or> k = 2 \<or> k = 3 \<or> k = 4" using assms by linarith
  then show "(0x80 OR of_nat k :: byte) AND 0x80 \<noteq> 0" "unat ((0x80 OR of_nat k :: byte) AND 0x7f) = k"
    by auto
qed

lemma lengthLength_small: "n < 2 ^ 31 \<Longrightarrow> 0 < n \<Longrightarrow> lengthLength n < 5"
proof -
  assume n: "n < 2 ^ 31" "0 < n"
  have "(256::nat) ^ (lengthLength n - 1) < 256 ^ 4" using lengthLength_bounds [OF n(2)] n(1) by simp
  then have "lengthLength n - 1 < 4" by (rule power_less_imp_less_exp [rotated]) simp
  then show ?thesis by simp
qed

lemma short_form_byte:
  assumes "n < 128"
  shows "(of_nat n :: byte) AND 0x80 = 0" "(of_nat n :: byte) AND 0x7f = of_nat n"
proof -
  have tb: "take_bit 7 n = n" using assms by (simp add: take_bit_nat_eq_self)
  have "n AND 128 = take_bit 7 n AND push_bit 7 1" by (simp add: tb)
  also have "\<dots> = 0" by (rule bit_eqI) (simp only: bit_and_iff bit_take_bit_iff bit_push_bit_iff bit_0_eq, auto)
  finally have z: "n AND 128 = 0" .
  have m: "n AND 127 = n" using tb by (simp add: take_bit_eq_mask mask_eq_exp_minus_1)
  have u: "unat (of_nat n :: byte) = n" using assms by simp
  show "(of_nat n :: byte) AND 0x80 = 0" "(of_nat n :: byte) AND 0x7f = of_nat n"
    using z m u by (simp_all only: word_unat_eq_iff unsigned_and_eq) simp_all
qed

lemma parseLength_derLength:
  assumes "n < 2 ^ 31"
  shows "parseLength (derLength n @ rest) = Inr (n, rest)"
proof (cases "n < 128")
  case True
  then show ?thesis using short_form_byte [OF True] by (simp add: parseLength_def derLength_def)
next
  case False
  let ?k = "lengthLength n"
  have b: "256 ^ (?k - 1) \<le> n" "n < 256 ^ ?k" "0 < ?k" using lengthLength_bounds [of n] False by simp_all
  note k = lengthLength_small [OF assms]
  have k5: "?k < 5" using k False by simp
  have v: "be_val (appendLength_loop ?k n) = n" using b by (simp add: be_val_appendLength_loop)
  have "hd (appendLength_loop ?k n) \<noteq> 0"
  proof -
    obtain j where j: "?k = Suc j" using b(3) by (cases ?k) auto
    have "n div 256 ^ j < 256" using b(2) j by (simp add: div_less_iff_less_mult mult.commute)
    moreover have "0 < n div 256 ^ j" using b(1) j by (simp add: div_greater_zero_iff)
    ultimately show ?thesis by (simp add: j unat_eq_0 [symmetric])
  qed
  moreover have "appendLength_loop ?k n \<noteq> []" using b(3) by (cases ?k) auto
  ultimately have "parseLongLength ?k 0 (appendLength_loop ?k n @ rest) = Inr (n, rest)"
    using parseLongLength_value [of "appendLength_loop ?k n" ?k 0 rest] v assms False by simp
  then show ?thesis
    using False long_form_byte [OF k5] b(3) by (simp add: parseLength_def derLength_def Let_def)
qed

lemma parseElem_derElem:
  assumes "length body < 2 ^ 31" "unat (tag AND 0x1f) \<noteq> 31"
  shows "parseElem (unat (tag AND 0x1f)) (tag AND 0x20 = 0x20) (derElem tag body @ rest) =
    (if drop_bit 6 tag = 0 then Inr (body, rest) else Inl asn1StructuralError)"
  using assms(2) parseLength_derLength [OF assms(1), of "body @ rest"]
  by (auto simp: parseElem_def parseTagAndLength_def derElem_def unat_eq_0 guardR_def)

section \<open>The parser accepts only canonical encodings\<close>

lemma high_bit_split:
  fixes b :: byte
  shows "b AND 0x80 \<noteq> 0 \<Longrightarrow> 0x80 OR (b AND 0x7f) = b" "b AND 0x80 = 0 \<Longrightarrow> b AND 0x7f = b"
    "unat (b AND 0x7f) < 128"
proof -
  have u: "(0x80 OR 0x7f :: byte) = - 1" by simp
  have all: "b AND 0x80 OR b AND 0x7f = b"
    by (simp only: bit.conj_disj_distrib [symmetric] u bit.conj_one_right)
  show "b AND 0x80 = 0 \<Longrightarrow> b AND 0x7f = b" using all by simp
  have seven: "n = 7" if "7 \<le> n" "n < 8" for n :: nat using that by simp
  have "(b AND 0x80 = 0x80) \<or> b AND 0x80 = 0"
  proof (cases "bit b 7")
    case True
    have "b AND push_bit 7 1 = push_bit 7 1"
      by (rule bit_eqI) (use True in \<open>simp only: bit_and_iff bit_push_bit_iff, auto dest: seven\<close>)
    then show ?thesis by simp
  next
    case False
    have "b AND push_bit 7 1 = 0"
      by (rule bit_eqI) (use False in \<open>simp only: bit_and_iff bit_push_bit_iff, auto dest: seven\<close>)
    then show ?thesis by simp
  qed
  then show "b AND 0x80 \<noteq> 0 \<Longrightarrow> 0x80 OR (b AND 0x7f) = b" using all by auto
  have "b AND 0x7f = take_bit 7 b" by (simp add: take_bit_eq_mask mask_eq_exp_minus_1)
  then show "unat (b AND 0x7f) < 128" by (simp add: unsigned_take_bit_eq take_bit_nat_less_exp [of 7, simplified])
qed

lemma of_nat_low7: "(of_nat (unat (b AND 0x7f)) :: byte) = b AND 0x7f"
  by simp

lemma base128_tail_step:
  assumes "acc * 128 + d \<noteq> 0" "d < 128"
  shows "base128_tail (acc * 128 + d) = base128_tail acc @ [0x80 OR of_nat d]"
  using assms by (subst base128_tail.simps) simp

lemma parseBase128Int_loop_canonical:
  assumes "parseBase128Int_loop k acc bs = Inr (v, rest)" "k = 0 \<longleftrightarrow> acc = 0"
  shows "base128_tail acc @ bs = appendBase128Int v @ rest"
  using assms
proof (induction bs arbitrary: k acc)
  case (Cons b bs)
  let ?d = "unat (b AND 0x7f)" and ?acc = "acc * 128 + unat (b AND 0x7f)"
  note d = high_bit_split(3) [of b]
  show ?case
  proof (cases "b AND 0x80 = 0")
    case True
    then have "v = ?acc" "rest = bs" using Cons.prems(1) by (auto simp: Let_def split: if_splits)
    then show ?thesis using d high_bit_split(2) [OF True] by (simp add: appendBase128Int_def)
  next
    case False
    then have rec: "parseBase128Int_loop (Suc k) ?acc bs = Inr (v, rest)" and nz: "\<not> (k = 0 \<and> b = 0x80)"
      using Cons.prems(1) by (auto simp: Let_def split: if_splits)
    have "?acc \<noteq> 0"
    proof
      assume "?acc = 0"
      then have "k = 0" "b AND 0x7f = 0" using Cons.prems(2) by (auto simp: unat_eq_0)
      moreover have "b = 0x80" using high_bit_split(1) [OF False] \<open>b AND 0x7f = 0\<close>
        by (metis or.right_neutral False high_bit_split(2))
      ultimately show False using nz by blast
    qed
    then have "base128_tail ?acc = base128_tail acc @ [b]"
      using base128_tail_step [OF _ d, of acc] high_bit_split(1) [OF False] by simp
    then show ?thesis using Cons.IH [OF rec] \<open>?acc \<noteq> 0\<close> by simp
  qed
qed simp

lemma parseBase128Int_canonical:
  "parseBase128Int bs = Inr (v, rest) \<Longrightarrow> bs = appendBase128Int v @ rest"
  using parseBase128Int_loop_canonical [of 0 0 bs v rest]
  by (simp add: parseBase128Int_def base128_tail.simps)

lemma parseOIDTail_canonical:
  "parseOIDTail bs = Inr vs \<Longrightarrow> bs = concat (map appendBase128Int vs)"
proof (induction "length bs" arbitrary: bs vs rule: less_induct)
  case less
  show ?case
  proof (cases "bs = []")
    case True
    then show ?thesis using less.prems by (simp add: parseOIDTail.simps)
  next
    case False
    then obtain v bs' vs' where p: "parseBase128Int bs = Inr (v, bs')" "parseOIDTail bs' = Inr vs'" "vs = v # vs'"
      using less.prems by (subst (asm) parseOIDTail.simps) (auto simp: bindR_eq_Inr)
    have "length bs' < length bs" using p(1) parseBase128Int_loop_shrinks by (simp add: parseBase128Int_def)
    from less.hyps [OF this p(2)] parseBase128Int_canonical [OF p(1)] p(3) show ?thesis by simp
  qed
qed

lemma parseObjectIdentifier_canonical:
  assumes "parseObjectIdentifier bs = Inr oid"
  shows "derOID oid = Inr (derElem tagOID bs)"
proof -
  obtain v bs' vs where p: "parseBase128Int bs = Inr (v, bs')" "parseOIDTail bs' = Inr vs"
    "oid = (if v < 80 then [v div 40, v mod 40] else [2, v - 80]) @ vs"
    using assms by (auto simp: parseObjectIdentifier_def bindR_eq_Inr)
  have bs: "bs = appendBase128Int v @ concat (map appendBase128Int vs)"
    using parseBase128Int_canonical [OF p(1)] parseOIDTail_canonical [OF p(2)] by simp
  show ?thesis
  proof (cases "v < 80")
    case True
    then have "v div 40 < 2" by (simp add: div_less_iff_less_mult)
    then show ?thesis using True unfolding bs p(3) by (simp add: derOID_def)
  next
    case False
    then show ?thesis unfolding bs p(3) by (simp add: derOID_def)
  qed
qed

lemma parseLongLength_Inr:
  assumes "parseLongLength n acc bs = Inr (v, rest)"
  shows "\<exists>xs. bs = xs @ rest \<and> length xs = n \<and> v = acc * 256 ^ n + be_val xs \<and> 128 \<le> v
    \<and> (acc = 0 \<longrightarrow> xs \<noteq> [] \<and> hd xs \<noteq> 0)"
  using assms
proof (induction n acc bs rule: parseLongLength.induct)
  case (1 acc bs)
  then show ?case by (auto split: if_splits)
next
  case (3 n acc b bs)
  let ?acc = "acc * 256 + unat b"
  have nz: "?acc \<noteq> 0" "\<not> acc \<ge> 2 ^ 23" "parseLongLength n ?acc bs = Inr (v, rest)"
    using "3.prems" by (auto simp: Let_def split: if_splits)
  obtain xs where xs: "bs = xs @ rest" "length xs = n" "v = ?acc * 256 ^ n + be_val xs" "128 \<le> v"
    using "3.IH" [OF nz(2) refl nz(1) nz(3)] by blast
  show ?case
    by (rule exI [of _ "b # xs"]) (use xs nz(1) in \<open>auto simp: algebra_simps\<close>)
qed simp

lemma lengthLength_unique:
  assumes "256 ^ j \<le> n" "n < 256 ^ Suc j"
  shows "lengthLength n = Suc j"
proof -
  have "0 < n" using assms(1) by (metis gr0I not_one_le_zero one_le_numeral one_le_power le_trans)
  note b = lengthLength_bounds [OF this]
  have "(256::nat) ^ (lengthLength n - 1) < 256 ^ Suc j" "(256::nat) ^ j < 256 ^ lengthLength n"
    using assms b by linarith+
  then have "lengthLength n - 1 < Suc j" "j < lengthLength n"
    by (auto intro: power_less_imp_less_exp [rotated])
  then show ?thesis by simp
qed

lemma parseLength_canonical:
  assumes "parseLength bs = Inr (n, rest)"
  shows "bs = derLength n @ rest"
proof -
  obtain b bs' where bs: "bs = b # bs'" using assms by (cases bs) (auto simp: parseLength_def)
  show ?thesis
  proof (cases "b AND 0x80 = 0")
    case True
    then have "n = unat b" "rest = bs'" using assms bs high_bit_split(2) [OF True] by (auto simp: parseLength_def)
    then show ?thesis using bs high_bit_split(3) [of b] high_bit_split(2) [OF True] by (simp add: derLength_def)
  next
    case False
    let ?k = "unat (b AND 0x7f)"
    have p: "?k \<noteq> 0" "parseLongLength ?k 0 bs' = Inr (n, rest)"
      using assms bs False by (auto simp: parseLength_def Let_def split: if_splits)
    from parseLongLength_Inr [OF p(2)] obtain xs where
      xs: "bs' = xs @ rest" "length xs = ?k" "n = be_val xs" "128 \<le> n" "xs \<noteq> []" "hd xs \<noteq> 0" by auto
    obtain x ys where x: "xs = x # ys" using xs(5) by (cases xs) auto
    have k: "?k = Suc (length ys)" using xs(2) x by simp
    have "1 * 256 ^ length ys \<le> unat x * 256 ^ length ys"
      using xs(6) x by (intro mult_right_mono) (simp_all add: Suc_le_eq unat_gt_0)
    then have "256 ^ length ys \<le> n" using xs(3) x by (simp only: be_val.simps)
    moreover have "n < 256 ^ Suc (length ys)" using be_val_lt [of xs] xs(3) x by simp
    ultimately have "lengthLength n = Suc (length ys)" by (rule lengthLength_unique)
    with k have ll: "lengthLength n = ?k" by simp
    have "appendLength_loop ?k n = xs"
      using xs(2,3) be_val_lt [of xs] by (intro be_val_inj) (simp_all add: be_val_appendLength_loop)
    then show ?thesis using xs(1,4) bs ll high_bit_split(1) [OF False] by (simp add: derLength_def)
  qed
qed

lemma parseElem_canonical:
  assumes "parseElem tag compound bs = Inr (body, rest)" "tag < 31"
  shows "\<exists>b. bs = derElem b body @ rest \<and> unat (b AND 0x1f) = tag \<and> (b AND 0x20 = 0x20) = compound \<and> drop_bit 6 b = 0"
proof -
  obtain b bs1 where bs: "bs = b # bs1" using assms by (cases bs) (auto simp: parseElem_def)
  obtain t rest0 where t: "parseTagAndLength bs = Inr (t, rest0)" "tl_class t = 0" "tl_tag t = tag"
    "tl_isCompound t = compound" "tl_length t \<le> length rest0" "body = take (tl_length t) rest0" "rest = drop (tl_length t) rest0"
    using assms(1) bs by (auto simp: parseElem_def bindR_eq_Inr)
  have sm: "unat (b AND 0x1f) \<noteq> 31"
    using t(1,3) assms(2) bs by (auto simp: parseTagAndLength_def bindR_eq_Inr split: if_splits)
  then have l: "parseLength bs1 = Inr (tl_length t, rest0)" "tl_tag t = unat (b AND 0x1f)"
    "tl_class t = unat (drop_bit 6 b)" "tl_isCompound t = (b AND 0x20 = 0x20)"
    using t(1) bs by (auto simp: parseTagAndLength_def bindR_eq_Inr)
  have "bs = derElem b body @ rest"
    using parseLength_canonical [OF l(1)] t(5-7) bs by (simp add: derElem_def)
  then show ?thesis using l(2-4) t(2-4) by (auto simp: unat_eq_0)
qed

end
