(* ===== verification/KexGost.thy ===== *)
theory KexGost
  imports Kex Asn1
begin

text \<open>
  \<open>internal/ke\<close>, the GOST key exchanges: VKO 2001 and VKO 2012 (\<open>vkogost.go\<close>), the key
  transport of RFC 9367 (\<open>gost2018.go\<close>) and their two DER envelopes
  (\<open>gost_keytransport.go\<close>, \<open>pskeytransport_gost.go\<close>).  The primitives of
  \<open>gostcrypto\<close> are fields of the environment record.  A slice whose being \<open>nil\<close> matters is
  an option.  Shown: the envelopes are the DER encodings of the documented ASN.1 structures, and
  a server holding the certificate key recovers the client's pre-master secret from them.
\<close>

datatype gostCurve = GostCurve "nat list"

datatype KexpVariant = KexpKuznyechik | KexpMagma

record gcrypto = xcrypto +
  gost_CurveByOID :: "nat list \<Rightarrow> gostCurve res"
  gost_GenerateEphemeralKey :: "gostCurve \<Rightarrow> (reader, bytes \<times> bytes) sm"
  gost_VKO2001OnCurve :: "gostCurve \<Rightarrow> bytes \<Rightarrow> bytes \<Rightarrow> bytes \<Rightarrow> bytes res"
  gost_VKO2012_256OnCurve :: "gostCurve \<Rightarrow> bytes \<Rightarrow> bytes \<Rightarrow> bytes \<Rightarrow> bytes res"
  gost_VKO2001TestCurve :: "bytes \<Rightarrow> bytes \<Rightarrow> bytes \<Rightarrow> bytes res"
  gost_PublicKeyRawFromPrivate2001Test :: "bytes \<Rightarrow> bytes res"
  gost_KeyWrapCryptoPro :: "Sbox \<Rightarrow> bytes \<Rightarrow> bytes \<Rightarrow> bytes \<Rightarrow> bytes res"
  gost_Streebog256 :: "bytes \<Rightarrow> bytes"
  gost_KEG2012_256 :: "gostCurve \<Rightarrow> bytes \<Rightarrow> bytes \<Rightarrow> bytes \<Rightarrow> bytes res"
  gost_Kexp15 :: "KexpVariant \<Rightarrow> bytes \<Rightarrow> bytes \<Rightarrow> bytes \<Rightarrow> bytes \<Rightarrow> bytes res"

section \<open>The GOST\_KEY\_TRANSPORT envelope\<close>

record keAlgorithmIdentifier =
  alg_Algorithm :: "nat list"
  alg_Parameters :: RawValue

definition unmarshalAlgorithmIdentifier :: "bytes \<Rightarrow> keAlgorithmIdentifier res" where
  "unmarshalAlgorithmIdentifier b =
     bindR (parseElem 16 True b) (\<lambda>(inner, _).
     bindR (parseElem 6 False inner) (\<lambda>(o1, inner).
     bindR (parseObjectIdentifier o1) (\<lambda>oid.
     bindR (if inner = [] then Inr zeroRawValue
            else bindR (parseRawValue inner) (\<lambda>(rv, _). Inr rv)) (\<lambda>params.
     Inr \<lparr>alg_Algorithm = oid, alg_Parameters = params\<rparr>))))"

definition marshalAlgorithmIdentifier :: "keAlgorithmIdentifier \<Rightarrow> bytes res" where
  "marshalAlgorithmIdentifier a =
     bindR (derOID (alg_Algorithm a)) (\<lambda>oid.
     Inr (derElem tagSequence
       (oid @ (if alg_Parameters a = zeroRawValue then [] else derRawValue (alg_Parameters a)))))"

record keSPKI =
  spki_Algorithm :: keAlgorithmIdentifier
  spki_SubjectPublicKey :: "bytes \<times> nat"  \<comment> \<open>\<open>asn1.BitString\<close>: bytes, bit length\<close>

definition marshalSPKI :: "keSPKI \<Rightarrow> bytes res" where
  "marshalSPKI s =
     bindR (marshalAlgorithmIdentifier (spki_Algorithm s)) (\<lambda>alg.
     Inr (derElem tagSequence
       (alg @ derBitString (fst (spki_SubjectPublicKey s)) (snd (spki_SubjectPublicKey s)))))"

definition derLongFormMask :: byte where "derLongFormMask = 0x80"
definition derLengthBytesMask :: byte where "derLengthBytesMask = 0x7f"

definition lengthOfLength :: "byte \<Rightarrow> nat" where
  "lengthOfLength first =
     (if first AND derLongFormMask = 0 then 0 else unat (first AND derLengthBytesMask))"

definition marshalGOSTKeyTransport ::
  "bytes \<Rightarrow> bytes \<Rightarrow> bytes \<Rightarrow> bytes \<Rightarrow> nat list \<Rightarrow> bytes \<Rightarrow> bytes res" where
  "marshalGOSTKeyTransport spkiAlgo ephemPubRaw encryptedKey imit cipherOID ephIV =
     bindR (unmarshalAlgorithmIdentifier spkiAlgo) (\<lambda>algID.
     let octet = derOctetString ephemPubRaw;
         spki = \<lparr>spki_Algorithm = algID, spki_SubjectPublicKey = (octet, length octet * bitsPerByte)\<rparr>
     in bindR (marshalSPKI spki) (\<lambda>spkiDER.
        let ephemRaw = \<lparr>rv_Class = 2, rv_Tag = 0, rv_IsCompound = True,
                        rv_Bytes = drop (2 + lengthOfLength (spkiDER ! 1)) spkiDER, rv_FullBytes = []\<rparr>
        in bindR (derOID cipherOID) (\<lambda>cipher.
           let keyInfo = derElem tagSequence (derOctetString encryptedKey @ derOctetString imit);
               keyAgreementInfo = derElem tagContext0 (cipher @ derRawValue ephemRaw @ derOctetString ephIV);
               gkt = derElem tagSequence (keyInfo @ keyAgreementInfo)
           in Inr (derElem tagSequence gkt))))"

text \<open>\<open>ukm\<close> is \<open>None\<close> for a \<open>nil\<close> slice, which \<open>encoding/asn1\<close> omits.\<close>

definition marshalPSKeyTransport :: "bytes \<Rightarrow> bytes \<Rightarrow> bytes \<Rightarrow> bytes option \<Rightarrow> bytes res" where
  "marshalPSKeyTransport psexp ephemSPKIAlgo ephemPubRaw ukm =
     bindR (unmarshalAlgorithmIdentifier ephemSPKIAlgo) (\<lambda>algID.
     let octet = derOctetString ephemPubRaw;
         spki = \<lparr>spki_Algorithm = algID, spki_SubjectPublicKey = (octet, length octet * bitsPerByte)\<rparr>
     in bindR (marshalSPKI spki) (\<lambda>spkiDER.
        Inr (derElem tagSequence
          (derOctetString psexp @ spkiDER @ (case ukm of None \<Rightarrow> [] | Some u \<Rightarrow> derOctetString u)))))"

section \<open>VKO 2001 and VKO 2012\<close>

definition vkoUKMMinLen :: nat where "vkoUKMMinLen = 8"
definition vkoPreMasterLen :: nat where "vkoPreMasterLen = 32"
definition vkoKEKLen :: nat where "vkoKEKLen = 32"
definition cryptoProWrapEncKeyOff :: nat where "cryptoProWrapEncKeyOff = 8"
definition cryptoProWrapEncKeyEnd :: nat where "cryptoProWrapEncKeyEnd = 40"
definition cryptoProWrapIMITEnd :: nat where "cryptoProWrapIMITEnd = 44"

lemmas vko_const_defs = vkoUKMMinLen_def vkoPreMasterLen_def vkoKEKLen_def
  cryptoProWrapEncKeyOff_def cryptoProWrapEncKeyEnd_def cryptoProWrapIMITEnd_def

definition oidTc26Gost28147ParamZ :: "nat list" where
  "oidTc26Gost28147ParamZ = [1, 2, 643, 7, 1, 2, 5, 1, 1]"
definition oidGost28147CryptoProA :: "nat list" where
  "oidGost28147CryptoProA = [1, 2, 643, 2, 2, 31, 1]"

record VKOGost2001Exchange =
  v1_curve :: gostCurve
  v1_spkiAlgo :: bytes
  v1_prvRaw :: bytes
  v1_ephemPubRaw :: bytes
  v1_pubRaw :: bytes
  v1_ukm :: bytes

definition NewVKOGost2001Exchange ::
  "('x) gcrypto_scheme \<Rightarrow> gostCurve option \<Rightarrow> bytes \<Rightarrow> bytes \<Rightarrow> bytes \<Rightarrow> (reader, VKOGost2001Exchange) sm" where
  "NewVKOGost2001Exchange X curve spkiAlgo pubRaw ukm =
     (case curve of
        None \<Rightarrow> failS (Sentinel ''errVKO2001CurveRequired'')
      | Some curve \<Rightarrow>
          if length spkiAlgo = 0 then failS (Sentinel ''errVKO2001SpkiRequired'')
          else if length ukm < vkoUKMMinLen then failS (Sentinel ''errVKO2001UKMTooShort'')
          else bindS (gost_GenerateEphemeralKey X curve) (\<lambda>(prvRaw, ephemPubRaw).
               returnS \<lparr>v1_curve = curve, v1_spkiAlgo = spkiAlgo, v1_prvRaw = prvRaw,
                        v1_ephemPubRaw = ephemPubRaw, v1_pubRaw = pubRaw, v1_ukm = take vkoUKMMinLen ukm\<rparr>))"

definition VKOGost2001Exchange_ClientKeyExchange ::
  "('x) gcrypto_scheme \<Rightarrow> VKOGost2001Exchange \<Rightarrow> bytes \<Rightarrow> (reader, bytes \<times> bytes) sm" where
  "VKOGost2001Exchange_ClientKeyExchange X e serverParams =
     bindS (ReadFull vkoPreMasterLen) (\<lambda>preMaster.
     bindS (liftS (gost_VKO2001OnCurve X (v1_curve e) (v1_prvRaw e) (v1_pubRaw e) (v1_ukm e))) (\<lambda>kek.
     if length kek \<noteq> vkoKEKLen then failS (Sentinel ''errVKO2001BadKEKLen'')
     else
       bindS (liftS (gost_KeyWrapCryptoPro X SboxCryptoProA kek (v1_ukm e) preMaster)) (\<lambda>wrapped.
       if length wrapped < cryptoProWrapIMITEnd then failS (Sentinel ''errVKO2001BadKEKLen'')
       else
         bindS (liftS (marshalGOSTKeyTransport (v1_spkiAlgo e) (v1_ephemPubRaw e)
                  (slice cryptoProWrapEncKeyOff cryptoProWrapEncKeyEnd wrapped)
                  (slice cryptoProWrapEncKeyEnd cryptoProWrapIMITEnd wrapped)
                  oidGost28147CryptoProA (v1_ukm e))) (\<lambda>cke.
         returnS (cke, preMaster)))))"

record VKOGost2012_256Exchange =
  v2_curve :: gostCurve
  v2_spkiAlgo :: bytes
  v2_prvRaw :: bytes
  v2_ephemPubRaw :: bytes
  v2_pubRaw :: bytes
  v2_ukm :: bytes

definition NewVKOGost2012_256Exchange ::
  "('x) gcrypto_scheme \<Rightarrow> gostCurve option \<Rightarrow> bytes \<Rightarrow> bytes \<Rightarrow> bytes \<Rightarrow> (reader, VKOGost2012_256Exchange) sm" where
  "NewVKOGost2012_256Exchange X curve spkiAlgo pubRaw ukm =
     (case curve of
        None \<Rightarrow> failS (Sentinel ''errVKO2012CurveRequired'')
      | Some curve \<Rightarrow>
          if length spkiAlgo = 0 then failS (Sentinel ''errVKO2012SpkiRequired'')
          else if length ukm < vkoUKMMinLen then failS (Sentinel ''errVKO2012UKMTooShort'')
          else bindS (gost_GenerateEphemeralKey X curve) (\<lambda>(prvRaw, ephemPubRaw).
               returnS \<lparr>v2_curve = curve, v2_spkiAlgo = spkiAlgo, v2_prvRaw = prvRaw,
                        v2_ephemPubRaw = ephemPubRaw, v2_pubRaw = pubRaw, v2_ukm = take vkoUKMMinLen ukm\<rparr>))"

definition VKOGost2012_256Exchange_ClientKeyExchange ::
  "('x) gcrypto_scheme \<Rightarrow> VKOGost2012_256Exchange \<Rightarrow> bytes \<Rightarrow> (reader, bytes \<times> bytes) sm" where
  "VKOGost2012_256Exchange_ClientKeyExchange X e serverParams =
     bindS (ReadFull vkoPreMasterLen) (\<lambda>preMaster.
     bindS (liftS (gost_VKO2012_256OnCurve X (v2_curve e) (v2_prvRaw e) (v2_pubRaw e) (v2_ukm e))) (\<lambda>kek.
     if length kek \<noteq> vkoKEKLen then failS (Sentinel ''errVKO2001BadKEKLen'')
     else
       bindS (liftS (gost_KeyWrapCryptoPro X SboxTC26Z kek (v2_ukm e) preMaster)) (\<lambda>wrapped.
       if length wrapped < cryptoProWrapIMITEnd then failS (Sentinel ''errVKO2001BadKEKLen'')
       else
         bindS (liftS (marshalGOSTKeyTransport (v2_spkiAlgo e) (v2_ephemPubRaw e)
                  (slice cryptoProWrapEncKeyOff cryptoProWrapEncKeyEnd wrapped)
                  (slice cryptoProWrapEncKeyEnd cryptoProWrapIMITEnd wrapped)
                  oidTc26Gost28147ParamZ (v2_ukm e))) (\<lambda>cke.
         returnS (cke, preMaster)))))"

text \<open>The variant on the test curve.\<close>

record vkoGost2001TestCurveExchange =
  vt_prvRaw :: bytes
  vt_pubRaw :: bytes
  vt_ukm :: bytes

definition vkoGost2001TestCurveExchange_ClientKeyExchange ::
  "('x) gcrypto_scheme \<Rightarrow> vkoGost2001TestCurveExchange \<Rightarrow> bytes \<Rightarrow> (bytes \<times> bytes) res" where
  "vkoGost2001TestCurveExchange_ClientKeyExchange X e serverParams =
     bindR (gost_VKO2001TestCurve X (vt_prvRaw e) (vt_pubRaw e) (vt_ukm e)) (\<lambda>preMaster.
     guardR (length preMaster \<noteq> vkoPreMasterLen) (Sentinel ''errVKO2001BadPreMasterLen'') (
     bindR (gost_PublicKeyRawFromPrivate2001Test X (vt_prvRaw e)) (\<lambda>cke.
     Inr (cke, preMaster))))"

section \<open>GOST 2018 key transport\<close>

datatype Gost2018Variant = Variant2018Kuznyechik | Variant2018Magma

fun kexpVariant :: "Gost2018Variant \<Rightarrow> KexpVariant" where
  "kexpVariant Variant2018Kuznyechik = KexpKuznyechik"
| "kexpVariant Variant2018Magma = KexpMagma"

fun ivLen :: "Gost2018Variant \<Rightarrow> nat" where
  "ivLen Variant2018Kuznyechik = 8"
| "ivLen Variant2018Magma = 4"

definition gost2018RandomsLen :: nat where "gost2018RandomsLen = 64"
definition gost2018Streebog256Len :: nat where "gost2018Streebog256Len = 32"
definition gost2018UKMLen :: nat where "gost2018UKMLen = 32"
definition gost2018PreMasterLen :: nat where "gost2018PreMasterLen = 32"
definition gost2018UKMIVOffset :: nat where "gost2018UKMIVOffset = 24"

lemmas gost2018_const_defs = gost2018RandomsLen_def gost2018Streebog256Len_def gost2018UKMLen_def
  gost2018PreMasterLen_def gost2018UKMIVOffset_def

record Gost2018Exchange =
  g_curve :: gostCurve
  g_spkiAlgo :: bytes
  g_serverPubRaw :: bytes
  g_variant :: Gost2018Variant
  g_randoms :: "bytes option"

definition NewGost2018Exchange ::
  "gostCurve option \<Rightarrow> bytes \<Rightarrow> bytes \<Rightarrow> Gost2018Variant \<Rightarrow> bytes option \<Rightarrow> Gost2018Exchange res" where
  "NewGost2018Exchange curve spkiAlgo serverPubRaw variant randoms =
     (case curve of
        None \<Rightarrow> Inl (Sentinel ''errGost2018CurveRequired'')
      | Some curve \<Rightarrow>
          guardR (length spkiAlgo = 0) (Sentinel ''errGost2018SpkiAlgoRequired'') (
          guardR (length serverPubRaw = 0) (Sentinel ''errGost2018ServerPubRequired'') (
          guardR (case randoms of None \<Rightarrow> False | Some r \<Rightarrow> length r \<noteq> gost2018RandomsLen)
            (Sentinel ''errGost2018RandomsLen'') (
          Inr \<lparr>g_curve = curve, g_spkiAlgo = spkiAlgo, g_serverPubRaw = serverPubRaw,
               g_variant = variant, g_randoms = randoms\<rparr>))))"

text \<open>The UKM of step 1: the hash of both randoms, or 32 random bytes.\<close>

definition Gost2018Exchange_ukm :: "('x) gcrypto_scheme \<Rightarrow> Gost2018Exchange \<Rightarrow> (reader, bytes) sm" where
  "Gost2018Exchange_ukm X e =
     (let randoms = (case g_randoms e of None \<Rightarrow> [] | Some r \<Rightarrow> r)
      in if length randoms = gost2018RandomsLen then
           let d = gost_Streebog256 X randoms
           in if length d \<noteq> gost2018Streebog256Len then failS (Sentinel ''errGost2018Streebog256Len'')
              else returnS d
         else ReadFull gost2018UKMLen)"

definition Gost2018Exchange_ClientKeyExchange ::
  "('x) gcrypto_scheme \<Rightarrow> Gost2018Exchange \<Rightarrow> bytes \<Rightarrow> (reader, bytes \<times> bytes) sm" where
  "Gost2018Exchange_ClientKeyExchange X e serverParams =
     bindS (Gost2018Exchange_ukm X e) (\<lambda>ukm.
     bindS (ReadFull gost2018PreMasterLen) (\<lambda>preMaster.
     bindS (gost_GenerateEphemeralKey X (g_curve e)) (\<lambda>(clientPrivRaw, clientPubRaw).
     bindS (liftS (gost_KEG2012_256 X (g_curve e) (g_serverPubRaw e) clientPrivRaw ukm)) (\<lambda>expkeys.
     let iv = slice gost2018UKMIVOffset (gost2018UKMIVOffset + ivLen (g_variant e)) ukm
     in if length expkeys < 32 then failS (Panic ''slice bounds out of range'')
        else
          bindS (liftS (gost_Kexp15 X (kexpVariant (g_variant e)) preMaster (drop 32 expkeys) (take 32 expkeys) iv)) (\<lambda>wrapped.
          bindS (liftS (marshalPSKeyTransport wrapped (g_spkiAlgo e) clientPubRaw (Some ukm))) (\<lambda>cke.
          returnS (cke, preMaster)))))))"

section \<open>The AlgorithmIdentifier is carried over unchanged\<close>

lemma and_bit_iff: "b AND push_bit n 1 = push_bit n 1 \<longleftrightarrow> bit b n" if "n < 8" for b :: byte
proof
  assume "b AND push_bit n 1 = push_bit n 1"
  then have "bit (b AND push_bit n 1) n = bit (push_bit n 1 :: byte) n" by simp
  then show "bit b n" using that by (simp only: bit_and_iff bit_push_bit_iff) simp
next
  assume "bit b n"
  moreover have "i = n" if "bit (push_bit n 1 :: byte) i" for i
    using that by (simp only: bit_push_bit_iff) (simp add: bit_1_iff)
  ultimately show "b AND push_bit n 1 = push_bit n 1"
    by (intro bit_eqI) (auto simp only: bit_and_iff)
qed

lemma tag_octet:
  fixes b :: byte
  assumes t: "unat (b AND 0x1f) = t" and c: "(b AND 0x20 = 0x20) = c" and cls: "drop_bit 6 b = 0"
  shows "b = (if c then 0x20 else 0) OR of_nat t"
proof -
  have "drop_bit 6 (unat b) = 0" by (simp only: unat_drop_bit_eq [symmetric] cls) simp
  then have "unat b div 64 = 0" by (simp add: drop_bit_eq_div)
  then have lt: "unat b < 64" by simp
  have "b AND 0x1f = take_bit 5 b" by (simp add: take_bit_eq_mask mask_eq_exp_minus_1)
  then have "t = take_bit 5 (unat b)" using t by (simp only: unsigned_take_bit_eq)
  then have low: "t = unat b mod 32" by (simp add: take_bit_eq_mod)
  have "bit b 5 = c" using c and_bit_iff [of 5 b] by simp
  moreover have "bit b 5 \<longleftrightarrow> odd (unat b div 32)"
  proof -
    have "bit (unat b) 5 = bit b 5" by (simp add: bit_unsigned_iff)
    then show ?thesis by (simp add: bit_iff_odd [of "unat b"])
  qed
  moreover have "unat b div 32 < 2" using lt by (simp add: div_less_iff_less_mult)
  ultimately have hi: "unat b div 32 = (if c then 1 else 0)"
    by (cases "unat b div 32 = 0") (auto simp: less_2_cases_iff)
  have t32: "t < 32" using low by simp
  have "unat ((if c then 0x20 else 0) OR of_nat t :: byte) = (if c then 32 else 0) + t"
    using or_push_add [of t 5 1] t32 by (simp add: unsigned_or_eq)
  also have "\<dots> = unat b" using hi low div_mult_mod_eq [of "unat b" 32] by (auto split: if_splits)
  finally show ?thesis by (simp only: word_unat_eq_iff)
qed

lemma parseElem_universal:
  assumes "parseElem tag compound bs = Inr (body, rest)" "tag < 31"
  shows "bs = derElem ((if compound then 0x20 else 0) OR of_nat tag) body @ rest"
proof -
  obtain b where "bs = derElem b body @ rest" and b: "unat (b AND 0x1f) = tag" "(b AND 0x20 = 0x20) = compound" "drop_bit 6 b = 0"
    using parseElem_canonical [OF assms] by blast
  then show ?thesis using tag_octet [OF b] by simp
qed

lemma parseRawValue_Inr:
  assumes "parseRawValue bs = Inr (rv, rest)"
  shows "bs = rv_FullBytes rv @ rest" "rv_FullBytes rv \<noteq> []"
proof -
  obtain t r0 where t: "parseTagAndLength bs = Inr (t, r0)" "tl_length t \<le> length r0"
    "rest = drop (tl_length t) r0" "rv_FullBytes rv = take (length bs - length rest) bs"
    using assms by (auto simp: parseRawValue_def bindR_eq_Inr)
  obtain b bs1 where bs: "bs = b # bs1" using t(1) by (cases bs) (auto simp: parseTagAndLength_def)
  have "\<exists>bs2. parseLength bs2 = Inr (tl_length t, r0) \<and> (bs2 = bs1 \<or> (\<exists>tg. parseBase128Int bs1 = Inr (tg, bs2)))"
    using t(1) bs by (auto simp: parseTagAndLength_def bindR_eq_Inr split: if_splits)
  then obtain bs2 where b2: "parseLength bs2 = Inr (tl_length t, r0)"
    "bs2 = bs1 \<or> (\<exists>tg. parseBase128Int bs1 = Inr (tg, bs2))" by blast
  have pre: "\<exists>p. bs1 = p @ bs2" using b2(2) parseBase128Int_canonical by auto
  have "\<exists>p. bs = b # p @ rest" using pre parseLength_canonical [OF b2(1)] t(3) bs
    by (metis append.assoc append_take_drop_id append_Cons)
  then obtain p where "bs = b # p @ rest" by blast
  with t(4) show "bs = rv_FullBytes rv @ rest" "rv_FullBytes rv \<noteq> []" by simp_all
qed

text \<open>Parsing the certificate's AlgorithmIdentifier and marshalling the result gives back its
  bytes, up to bytes the parser skips: elements after the parameters and bytes after the
  structure.\<close>

lemma unmarshalAlgorithmIdentifier_canonical:
  assumes "unmarshalAlgorithmIdentifier der = Inr a"
  shows "\<exists>inner extra trail. der = derElem tagSequence (inner @ extra) @ trail \<and>
    marshalAlgorithmIdentifier a = Inr (derElem tagSequence inner)"
proof -
  obtain seq trail o1 rest where p: "parseElem 16 True der = Inr (seq, trail)"
    "parseElem 6 False seq = Inr (o1, rest)" "parseObjectIdentifier o1 = Inr (alg_Algorithm a)"
    and prm: "rest = [] \<and> alg_Parameters a = zeroRawValue \<or>
      rest \<noteq> [] \<and> (\<exists>tl. parseRawValue rest = Inr (alg_Parameters a, tl))"
    using assms by (auto simp: unmarshalAlgorithmIdentifier_def bindR_eq_Inr split: if_splits)
  have d: "der = derElem tagSequence seq @ trail" using parseElem_universal [OF p(1)] by (simp add: tagSequence_def)
  have s: "seq = derElem tagOID o1 @ rest" using parseElem_universal [OF p(2)] by (simp add: tagOID_def)
  note o = parseObjectIdentifier_canonical [OF p(3)]
  from prm show ?thesis
  proof
    assume "rest = [] \<and> alg_Parameters a = zeroRawValue"
    then show ?thesis using d s o by (intro exI [of _ seq] exI [of _ "[]"] exI [of _ trail]) (simp add: marshalAlgorithmIdentifier_def)
  next
    assume "rest \<noteq> [] \<and> (\<exists>tl. parseRawValue rest = Inr (alg_Parameters a, tl))"
    then obtain tl where rv: "rest = rv_FullBytes (alg_Parameters a) @ tl" "rv_FullBytes (alg_Parameters a) \<noteq> []"
      using parseRawValue_Inr by blast
    then have "alg_Parameters a \<noteq> zeroRawValue" by (auto simp: zeroRawValue_def)
    then have "marshalAlgorithmIdentifier a = Inr (derElem tagSequence (derElem tagOID o1 @ rv_FullBytes (alg_Parameters a)))"
      using o rv(2) by (simp add: marshalAlgorithmIdentifier_def derRawValue_def)
    then show ?thesis using d s rv(1)
      by (intro exI [of _ "derElem tagOID o1 @ rv_FullBytes (alg_Parameters a)"] exI [of _ tl] exI [of _ trail]) simp
  qed
qed

section \<open>The envelopes are DER of the documented structures\<close>

datatype der = DPrim byte bytes | DCons byte "der list" | DRaw bytes

fun der_enc :: "der \<Rightarrow> bytes" where
  "der_enc (DPrim tag body) = derElem tag body"
| "der_enc (DCons tag ds) = derElem tag (concat (map der_enc ds))"
| "der_enc (DRaw b) = b"

lemma lengthOfLength_derElem:
  assumes "length body < 2 ^ 31"
  shows "drop (2 + lengthOfLength (derElem tag body ! 1)) (derElem tag body) = body"
proof (cases "length body < 128")
  case True
  then show ?thesis using short_form_byte [OF True]
    by (simp add: derElem_def derLength_def lengthOfLength_def derLongFormMask_def)
next
  case False
  then have "0 < length body" by linarith
  then have k: "lengthLength (length body) < 5" by (rule lengthLength_small [OF assms])
  show ?thesis using False long_form_byte [OF k]
    by (simp add: derElem_def derLength_def lengthOfLength_def derLongFormMask_def derLengthBytesMask_def)
qed

definition spki_der :: "bytes \<Rightarrow> bytes \<Rightarrow> der list" where
  "spki_der alg pub = [DRaw alg, DPrim tagBitString (0 # derElem tagOctetString pub)]"

definition gkt_der :: "bytes \<Rightarrow> bytes \<Rightarrow> bytes \<Rightarrow> bytes \<Rightarrow> bytes \<Rightarrow> bytes \<Rightarrow> der" where
  "gkt_der alg pub encryptedKey imit cipher ephIV =
     DCons tagSequence [DCons tagSequence
       [DCons tagSequence [DPrim tagOctetString encryptedKey, DPrim tagOctetString imit],
        DCons tagContext0 [DRaw cipher, DCons tagContext0 (spki_der alg pub), DPrim tagOctetString ephIV]]]"

definition pskt_der :: "bytes \<Rightarrow> bytes \<Rightarrow> bytes \<Rightarrow> bytes option \<Rightarrow> der" where
  "pskt_der psexp alg pub ukm =
     DCons tagSequence ([DPrim tagOctetString psexp, DCons tagSequence (spki_der alg pub)]
       @ (case ukm of None \<Rightarrow> [] | Some u \<Rightarrow> [DPrim tagOctetString u]))"

lemma marshalGOSTKeyTransport_der:
  assumes a: "unmarshalAlgorithmIdentifier spkiAlgo = Inr algID" "marshalAlgorithmIdentifier algID = Inr alg"
    and c: "derOID cipherOID = Inr cipher"
    and len: "length (concat (map der_enc (spki_der alg pub))) < 2 ^ 31"
  shows "marshalGOSTKeyTransport spkiAlgo pub encKey imit cipherOID ephIV =
    Inr (der_enc (gkt_der alg pub encKey imit cipher ephIV))"
  using lengthOfLength_derElem [OF len, of tagSequence] a c
  by (simp add: marshalGOSTKeyTransport_def marshalSPKI_def derBitString_def derOctetString_def derRawValue_def
      bitsPerByte_def gkt_der_def spki_der_def Let_def der_tag_defs)

lemma marshalPSKeyTransport_der:
  assumes "unmarshalAlgorithmIdentifier spkiAlgo = Inr algID" "marshalAlgorithmIdentifier algID = Inr alg"
  shows "marshalPSKeyTransport psexp spkiAlgo pub ukm = Inr (der_enc (pskt_der psexp alg pub ukm))"
  using assms
  by (simp add: marshalPSKeyTransport_def marshalSPKI_def derBitString_def derOctetString_def
      bitsPerByte_def pskt_der_def spki_der_def Let_def split: option.split)

section \<open>The server's side of the envelopes\<close>

text \<open>A reference decoder: the body of the leading element with the given identifier octet.\<close>

definition takeElem :: "byte \<Rightarrow> bytes \<Rightarrow> (bytes \<times> bytes) res" where
  "takeElem tag bs =
     (case bs of
        [] \<Rightarrow> Inl asn1SyntaxError
      | b # bs \<Rightarrow>
          guardR (b \<noteq> tag) asn1StructuralError (
          bindR (parseLength bs) (\<lambda>(n, bs).
          guardR (length bs < n) asn1SyntaxError (Inr (take n bs, drop n bs)))))"

lemma takeElem_derElem: "length body < 2 ^ 31 \<Longrightarrow> takeElem tag (derElem tag body @ rest) = Inr (body, rest)"
  by (simp add: takeElem_def derElem_def parseLength_derLength)

lemma takeElem_single: "length body < 2 ^ 31 \<Longrightarrow> takeElem tag (derElem tag body) = Inr (body, [])"
  using takeElem_derElem [of body tag "[]"] by simp

lemma derElem_length_ge: "length body \<le> length (derElem tag body)"
  by (simp add: derElem_def)

definition spki_pub :: "bytes \<Rightarrow> bytes res" where
  "spki_pub spki =
     bindR (takeElem tagSequence spki) (\<lambda>(_, r).
     bindR (takeElem tagBitString r) (\<lambda>(bits, _).
     bindR (takeElem tagOctetString (drop 1 bits)) (\<lambda>(pub, _). Inr pub)))"

definition gkt_decode :: "bytes \<Rightarrow> (bytes \<times> bytes \<times> bytes \<times> bytes) res" where
  "gkt_decode cke =
     bindR (takeElem tagSequence cke) (\<lambda>(gkt, _).
     bindR (takeElem tagSequence gkt) (\<lambda>(body, _).
     bindR (takeElem tagSequence body) (\<lambda>(keyInfo, r).
     bindR (takeElem tagOctetString keyInfo) (\<lambda>(enc, k2).
     bindR (takeElem tagOctetString k2) (\<lambda>(imit, _).
     bindR (takeElem tagContext0 r) (\<lambda>(agr, _).
     bindR (takeElem tagOID agr) (\<lambda>(_, a2).
     bindR (takeElem tagContext0 a2) (\<lambda>(spki, a3).
     bindR (takeElem tagOctetString a3) (\<lambda>(ukm, _).
     bindR (spki_pub spki) (\<lambda>pub.
     Inr (pub, enc, imit, ukm)))))))))))"

definition pskt_decode :: "bytes \<Rightarrow> (bytes \<times> bytes) res" where
  "pskt_decode cke =
     bindR (takeElem tagSequence cke) (\<lambda>(body, _).
     bindR (takeElem tagOctetString body) (\<lambda>(psexp, r).
     bindR (takeElem tagSequence r) (\<lambda>(spki, _).
     bindR (spki_pub spki) (\<lambda>pub.
     Inr (pub, psexp)))))"

lemma derLength_le: "n < 2 ^ 31 \<Longrightarrow> length (derLength n) \<le> 5"
  using lengthLength_small [of n] by (auto simp: derLength_def)

lemma derElem_length_le: "length body < 2 ^ 31 \<Longrightarrow> length (derElem tag body) \<le> length body + 6"
  using derLength_le [of "length body"] by (simp add: derElem_def)

lemma spki_pub_der:
  assumes "length pub < 2 ^ 29" "length alg < 2 ^ 30"
  shows "spki_pub (concat (map der_enc (spki_der (derElem tagSequence alg) pub))) = Inr pub"
    and "length (concat (map der_enc (spki_der (derElem tagSequence alg) pub))) \<le> length alg + length pub + 19"
proof -
  have o: "length (derElem tagOctetString pub) \<le> length pub + 6" using assms by (intro derElem_length_le) simp
  have b: "length (derElem tagBitString (0 # derElem tagOctetString pub)) \<le> length pub + 13"
    using o assms derElem_length_le [of "0 # derElem tagOctetString pub" tagBitString] by simp
  have a: "length (derElem tagSequence alg) \<le> length alg + 6" using assms by (intro derElem_length_le) simp
  show "length (concat (map der_enc (spki_der (derElem tagSequence alg) pub))) \<le> length alg + length pub + 19"
    using a b by (simp add: spki_der_def)
  have "length (0 # derElem tagOctetString pub :: bytes) < 2 ^ 31" using o assms by simp
  then show "spki_pub (concat (map der_enc (spki_der (derElem tagSequence alg) pub))) = Inr pub"
    using assms by (simp add: spki_pub_def spki_der_def takeElem_derElem takeElem_single)
qed

lemma gkt_decode_der:
  assumes l: "length pub < 2 ^ 29" "length alg < 2 ^ 29" "length enc < 2 ^ 20" "length imit < 2 ^ 20"
    "length cipher < 2 ^ 20" "length ukm < 2 ^ 20"
  shows "gkt_decode (der_enc (gkt_der (derElem tagSequence alg) pub enc imit (derElem tagOID cipher) ukm)) =
    Inr (pub, enc, imit, ukm)"
proof -
  let ?spki = "concat (map der_enc (spki_der (derElem tagSequence alg) pub))"
  let ?ki = "derElem tagOctetString enc @ derElem tagOctetString imit"
  let ?ag = "derElem tagOID cipher @ derElem tagContext0 ?spki @ derElem tagOctetString ukm"
  let ?b = "derElem tagSequence ?ki @ derElem tagContext0 ?ag"
  have s: "spki_pub ?spki = Inr pub" "length ?spki \<le> length alg + length pub + 19"
    using l by (intro spki_pub_der; simp)+
  have e: "length (derElem tagOctetString enc) \<le> length enc + 6" "length (derElem tagOctetString imit) \<le> length imit + 6"
    "length (derElem tagOID cipher) \<le> length cipher + 6" "length (derElem tagOctetString ukm) \<le> length ukm + 6"
    "length (derElem tagContext0 ?spki) \<le> length ?spki + 6"
    using l s(2) by (auto intro!: derElem_length_le)
  have ki: "length ?ki < 2 ^ 22" and ag: "length ?ag < 2 ^ 30 + 2 ^ 23" using e l s(2) by simp_all
  have lt: "length ?ki < 2 ^ 31" "length ?ag < 2 ^ 31" using ki ag by simp_all
  note kia = derElem_length_le [OF lt(1), of tagSequence] derElem_length_le [OF lt(2), of tagContext0]
  have b: "length ?b < 2 ^ 30 + 2 ^ 24" using kia ki ag by simp
  have b2: "length (derElem tagSequence ?b) < 2 ^ 31" using derElem_length_le [of ?b tagSequence] b by simp
  have sp: "length ?spki < 2 ^ 31" using s(2) l by simp
  show ?thesis
    unfolding gkt_decode_def gkt_der_def der_enc.simps list.map concat.simps append_Nil2
    using lt b b2 sp s(1) l
    by (simp add: takeElem_derElem takeElem_single)
qed

lemma pskt_decode_der:
  assumes l: "length pub < 2 ^ 29" "length alg < 2 ^ 29" "length psexp < 2 ^ 20" "length ukm < 2 ^ 20"
  shows "pskt_decode (der_enc (pskt_der psexp (derElem tagSequence alg) pub (Some ukm))) = Inr (pub, psexp)"
proof -
  let ?spki = "concat (map der_enc (spki_der (derElem tagSequence alg) pub))"
  let ?b = "derElem tagOctetString psexp @ derElem tagSequence ?spki @ derElem tagOctetString ukm"
  have s: "spki_pub ?spki = Inr pub" "length ?spki \<le> length alg + length pub + 19"
    using l by (intro spki_pub_der; simp)+
  have e: "length (derElem tagOctetString psexp) \<le> length psexp + 6" "length (derElem tagOctetString ukm) \<le> length ukm + 6"
    "length (derElem tagSequence ?spki) \<le> length ?spki + 6"
    using l s(2) by (auto intro!: derElem_length_le)
  have b: "length ?b < 2 ^ 31" and sp: "length ?spki < 2 ^ 31" using e s(2) l by simp_all
  show ?thesis
    unfolding pskt_decode_def pskt_der_def der_enc.simps
    using b sp s(1) l by (simp add: takeElem_derElem takeElem_single)
qed

lemma inner_length_le:
  assumes "der = derElem tagSequence (inner @ extra) @ trail"
  shows "length inner \<le> length der"
  using derElem_length_ge [of "inner @ extra" tagSequence] assms by simp

lemma marshalGOSTKeyTransport_Inr:
  assumes m: "marshalGOSTKeyTransport spkiAlgo pub encKey imit cipherOID ephIV = Inr cke"
    and c: "derOID cipherOID = Inr cipher" and l: "length pub < 2 ^ 29" "length spkiAlgo < 2 ^ 29"
  shows "\<exists>inner. length inner < 2 ^ 29 \<and>
    cke = der_enc (gkt_der (derElem tagSequence inner) pub encKey imit cipher ephIV)"
proof -
  obtain algID where a: "unmarshalAlgorithmIdentifier spkiAlgo = Inr algID"
    using m by (auto simp: marshalGOSTKeyTransport_def bindR_eq_Inr)
  obtain inner extra trail where i: "spkiAlgo = derElem tagSequence (inner @ extra) @ trail"
    "marshalAlgorithmIdentifier algID = Inr (derElem tagSequence inner)"
    using unmarshalAlgorithmIdentifier_canonical [OF a] by blast
  have li: "length inner < 2 ^ 29" using inner_length_le [OF i(1)] l(2) by simp
  have "length (concat (map der_enc (spki_der (derElem tagSequence inner) pub))) < 2 ^ 31"
    using spki_pub_der(2) [OF l(1), of inner] li l(1) by simp
  from marshalGOSTKeyTransport_der [OF a i(2) c this] m li show ?thesis by auto
qed

lemma marshalPSKeyTransport_Inr:
  assumes m: "marshalPSKeyTransport psexp spkiAlgo pub ukm = Inr cke" and l: "length spkiAlgo < 2 ^ 29"
  shows "\<exists>inner. length inner < 2 ^ 29 \<and> cke = der_enc (pskt_der psexp (derElem tagSequence inner) pub ukm)"
proof -
  obtain algID where a: "unmarshalAlgorithmIdentifier spkiAlgo = Inr algID"
    using m by (auto simp: marshalPSKeyTransport_def bindR_eq_Inr)
  obtain inner extra trail where i: "spkiAlgo = derElem tagSequence (inner @ extra) @ trail"
    "marshalAlgorithmIdentifier algID = Inr (derElem tagSequence inner)"
    using unmarshalAlgorithmIdentifier_canonical [OF a] by blast
  from marshalPSKeyTransport_der [OF a i(2)] m inner_length_le [OF i(1)] l show ?thesis
    by (intro exI [of _ inner]) auto
qed

section \<open>The GOST exchanges agree\<close>

text \<open>What \<open>gostcrypto\<close> documents: the key agreement does not depend on the side, the CryptoPro
  wrap is UKM, encrypted key and MAC in 44 bytes and is undone by its unwrap, and the key
  export of RFC 9189 is undone by its import.\<close>

definition gost_pair :: "('x) gcrypto_scheme \<Rightarrow> gostCurve \<Rightarrow> bytes \<Rightarrow> bytes \<Rightarrow> bool" where
  "gost_pair X c prv pub \<longleftrightarrow> (\<exists>r r'. gost_GenerateEphemeralKey X c r = (Inr (prv, pub), r'))"

definition gost_keys_ok :: "('x) gcrypto_scheme \<Rightarrow> bool" where
  "gost_keys_ok X \<longleftrightarrow>
     (\<forall>c a A. gost_pair X c a A \<longrightarrow> length A < 2 ^ 29) \<and>
     (\<forall>c a A b B ukm. gost_pair X c a A \<longrightarrow> gost_pair X c b B \<longrightarrow>
        gost_VKO2001OnCurve X c a B ukm = gost_VKO2001OnCurve X c b A ukm \<and>
        gost_VKO2012_256OnCurve X c a B ukm = gost_VKO2012_256OnCurve X c b A ukm \<and>
        gost_KEG2012_256 X c B a ukm = gost_KEG2012_256 X c A b ukm)"

definition wrap_ok :: "('x) gcrypto_scheme \<Rightarrow> (Sbox \<Rightarrow> bytes \<Rightarrow> bytes \<Rightarrow> bytes option) \<Rightarrow> bool" where
  "wrap_ok X unwrap \<longleftrightarrow>
     (\<forall>sbox kek ukm pm w. gost_KeyWrapCryptoPro X sbox kek ukm pm = Inr w \<longrightarrow> length ukm = 8 \<longrightarrow>
        length w = 44 \<and> take 8 w = ukm \<and> unwrap sbox kek w = Some pm)"

definition kexp_ok ::
  "('x) gcrypto_scheme \<Rightarrow> (KexpVariant \<Rightarrow> bytes \<Rightarrow> bytes \<Rightarrow> bytes \<Rightarrow> bytes \<Rightarrow> bytes option) \<Rightarrow> bool" where
  "kexp_ok X kimp \<longleftrightarrow>
     (\<forall>v pm ck mk iv w. gost_Kexp15 X v pm ck mk iv = Inr w \<longrightarrow> length w < 2 ^ 20 \<and> kimp v w ck mk iv = Some pm)"

definition vko2001_client :: "('x) gcrypto_scheme \<Rightarrow> gostCurve \<Rightarrow> bytes \<Rightarrow> bytes \<Rightarrow> bytes \<Rightarrow> bytes \<Rightarrow> (reader, bytes \<times> bytes) sm" where
  "vko2001_client X c spkiAlgo pubRaw ukm params =
     bindS (NewVKOGost2001Exchange X (Some c) spkiAlgo pubRaw ukm) (\<lambda>e. VKOGost2001Exchange_ClientKeyExchange X e params)"

definition vko2012_client :: "('x) gcrypto_scheme \<Rightarrow> gostCurve \<Rightarrow> bytes \<Rightarrow> bytes \<Rightarrow> bytes \<Rightarrow> bytes \<Rightarrow> (reader, bytes \<times> bytes) sm" where
  "vko2012_client X c spkiAlgo pubRaw ukm params =
     bindS (NewVKOGost2012_256Exchange X (Some c) spkiAlgo pubRaw ukm) (\<lambda>e. VKOGost2012_256Exchange_ClientKeyExchange X e params)"

definition gost2018_client :: "('x) gcrypto_scheme \<Rightarrow> gostCurve \<Rightarrow> bytes \<Rightarrow> bytes \<Rightarrow> Gost2018Variant \<Rightarrow> bytes \<Rightarrow> bytes \<Rightarrow> (reader, bytes \<times> bytes) sm" where
  "gost2018_client X c spkiAlgo pubRaw v randoms params =
     bindS (liftS (NewGost2018Exchange (Some c) spkiAlgo pubRaw v (Some randoms))) (\<lambda>e. Gost2018Exchange_ClientKeyExchange X e params)"

definition vko_offers :: "('x) gcrypto_scheme \<Rightarrow> gostCurve \<Rightarrow> bytes \<Rightarrow> bytes \<Rightarrow>
    bytes \<times> (Sbox \<Rightarrow> bytes \<Rightarrow> bytes \<Rightarrow> bytes option) \<Rightarrow> bytes \<Rightarrow> bool" where
  "vko_offers X c spkiAlgo pubRaw k params \<longleftrightarrow>
     gost_keys_ok X \<and> gost_pair X c (fst k) pubRaw \<and> wrap_ok X (snd k) \<and> length spkiAlgo < 2 ^ 29"

definition vko_server :: "(gostCurve \<Rightarrow> bytes \<Rightarrow> bytes \<Rightarrow> bytes \<Rightarrow> bytes res) \<Rightarrow> gostCurve \<Rightarrow> Sbox \<Rightarrow>
    bytes \<times> (Sbox \<Rightarrow> bytes \<Rightarrow> bytes \<Rightarrow> bytes option) \<Rightarrow> bytes \<Rightarrow> bytes \<Rightarrow> bytes option" where
  "vko_server vko c sbox k params cke =
     (case bindR (gkt_decode cke) (\<lambda>(pub, enc, imit, ukm).
             bindR (vko c (fst k) pub ukm) (\<lambda>kek. Inr (kek, ukm @ enc @ imit))) of
        Inl _ \<Rightarrow> None
      | Inr (kek, w) \<Rightarrow> snd k sbox kek w)"

lemma wrap_parts:
  assumes "length w = 44" "take 8 w = ukm"
  shows "ukm @ slice 8 40 w @ slice 40 44 w = w" "length (slice 8 40 w) = 32" "length (slice 40 44 w) = 4"
proof -
  have "w = take 8 w @ take 32 (drop 8 w) @ drop 40 w"
    using append_take_drop_id [of 8 w] append_take_drop_id [of 32 "drop 8 w"] by simp
  then show "ukm @ slice 8 40 w @ slice 40 44 w = w" using assms by (simp add: slice_def)
  show "length (slice 8 40 w) = 32" "length (slice 40 44 w) = 4" using assms by (simp_all add: slice_def)
qed

text \<open>The common end of both VKO exchanges.\<close>

lemma vko_recover:
  assumes off: "vko_offers X c spkiAlgo pubRaw k params" and eph: "length pub < 2 ^ 29"
    and kek: "vko c (fst k) pub ukm = Inr kek" and ukm: "length ukm = 8"
    and w: "gost_KeyWrapCryptoPro X sbox kek ukm pm = Inr w"
    and m: "marshalGOSTKeyTransport spkiAlgo pub (slice 8 40 w) (slice 40 44 w) oid ukm = Inr cke"
    and oid: "derOID oid = Inr (derElem tagOID cipher)" "length cipher < 2 ^ 20"
  shows "vko_server vko c sbox k params cke = Some pm"
proof -
  have ok: "wrap_ok X (snd k)" "length spkiAlgo < 2 ^ 29" using off by (auto simp: vko_offers_def)
  have wl: "length w = 44" "take 8 w = ukm" "snd k sbox kek w = Some pm"
    using ok(1) w ukm unfolding wrap_ok_def by blast+
  note wp = wrap_parts [OF wl(1,2)]
  obtain inner where i: "length inner < 2 ^ 29"
    "cke = der_enc (gkt_der (derElem tagSequence inner) pub (slice 8 40 w) (slice 40 44 w) (derElem tagOID cipher) ukm)"
    using marshalGOSTKeyTransport_Inr [OF m oid(1) eph ok(2)] by blast
  have "gkt_decode cke = Inr (pub, slice 8 40 w, slice 40 44 w, ukm)"
    unfolding i(2) using eph i(1) wp(2,3) oid(2) ukm by (intro gkt_decode_der) simp_all
  then show ?thesis using kek wp(1) wl(3) by (simp add: vko_server_def)
qed

lemma cipher_oids:
  "derOID oidGost28147CryptoProA = Inr (derElem tagOID [42, 133, 3, 2, 2, 31, 1])"
  "derOID oidTc26Gost28147ParamZ = Inr (derElem tagOID [42, 133, 3, 7, 1, 2, 5, 1, 1])"
  by (simp_all add: derOID_def oidGost28147CryptoProA_def oidTc26Gost28147ParamZ_def appendBase128Int_def
      base128_tail.simps)

lemma vko2001_agree:
  assumes off: "vko_offers X c spkiAlgo pubRaw k params"
    and cl: "vko2001_client X c spkiAlgo pubRaw ukm params r = (Inr (cke, pm), r')"
  shows "vko_server (gost_VKO2001OnCurve X) c SboxCryptoProA k params cke = Some pm"
proof -
  let ?u = "take 8 ukm"
  obtain prv pub r1 kek w where g: "gost_GenerateEphemeralKey X c r = (Inr (prv, pub), r1)" and u: "8 \<le> length ukm"
    and kek: "gost_VKO2001OnCurve X c prv pubRaw ?u = Inr kek"
    and w: "gost_KeyWrapCryptoPro X SboxCryptoProA kek ?u pm = Inr w"
    and m: "marshalGOSTKeyTransport spkiAlgo pub (slice 8 40 w) (slice 40 44 w) oidGost28147CryptoProA ?u = Inr cke"
    using cl
    by (auto simp: vko2001_client_def NewVKOGost2001Exchange_def VKOGost2001Exchange_ClientKeyExchange_def
        bindS_eq_Inr vko_const_defs split: if_splits)
  have ok: "gost_keys_ok X" "gost_pair X c (fst k) pubRaw" using off by (auto simp: vko_offers_def)
  have e: "gost_pair X c prv pub" using g by (auto simp: gost_pair_def)
  have len: "length pub < 2 ^ 29" and sym: "gost_VKO2001OnCurve X c (fst k) pub ?u = Inr kek"
    using ok e kek unfolding gost_keys_ok_def by (blast, metis)
  show ?thesis
    using vko_recover [where vko = "gost_VKO2001OnCurve X", OF off len sym _ w m cipher_oids(1)] u by simp
qed

lemma vko2012_agree:
  assumes off: "vko_offers X c spkiAlgo pubRaw k params"
    and cl: "vko2012_client X c spkiAlgo pubRaw ukm params r = (Inr (cke, pm), r')"
  shows "vko_server (gost_VKO2012_256OnCurve X) c SboxTC26Z k params cke = Some pm"
proof -
  let ?u = "take 8 ukm"
  obtain prv pub r1 kek w where g: "gost_GenerateEphemeralKey X c r = (Inr (prv, pub), r1)" and u: "8 \<le> length ukm"
    and kek: "gost_VKO2012_256OnCurve X c prv pubRaw ?u = Inr kek"
    and w: "gost_KeyWrapCryptoPro X SboxTC26Z kek ?u pm = Inr w"
    and m: "marshalGOSTKeyTransport spkiAlgo pub (slice 8 40 w) (slice 40 44 w) oidTc26Gost28147ParamZ ?u = Inr cke"
    using cl
    by (auto simp: vko2012_client_def NewVKOGost2012_256Exchange_def VKOGost2012_256Exchange_ClientKeyExchange_def
        bindS_eq_Inr vko_const_defs split: if_splits)
  have ok: "gost_keys_ok X" "gost_pair X c (fst k) pubRaw" using off by (auto simp: vko_offers_def)
  have e: "gost_pair X c prv pub" using g by (auto simp: gost_pair_def)
  have len: "length pub < 2 ^ 29" and sym: "gost_VKO2012_256OnCurve X c (fst k) pub ?u = Inr kek"
    using ok e kek unfolding gost_keys_ok_def by (blast, metis)
  show ?thesis
    using vko_recover [where vko = "gost_VKO2012_256OnCurve X", OF off len sym _ w m cipher_oids(2)] u by simp
qed

interpretation vko2001: key_agreement "vko2001_client X c spkiAlgo pubRaw ukm"
  "vko_server (gost_VKO2001OnCurve X) c SboxCryptoProA" "vko_offers X c spkiAlgo pubRaw" for X c spkiAlgo pubRaw ukm
  by unfold_locales (rule vko2001_agree)

interpretation vko2012: key_agreement "vko2012_client X c spkiAlgo pubRaw ukm"
  "vko_server (gost_VKO2012_256OnCurve X) c SboxTC26Z" "vko_offers X c spkiAlgo pubRaw" for X c spkiAlgo pubRaw ukm
  by unfold_locales (rule vko2012_agree)

subsection \<open>GOST 2018\<close>

definition gost2018_offers :: "('x) gcrypto_scheme \<Rightarrow> gostCurve \<Rightarrow> bytes \<Rightarrow> bytes \<Rightarrow>
    bytes \<times> (KexpVariant \<Rightarrow> bytes \<Rightarrow> bytes \<Rightarrow> bytes \<Rightarrow> bytes \<Rightarrow> bytes option) \<Rightarrow> bytes \<Rightarrow> bool" where
  "gost2018_offers X c spkiAlgo pubRaw k params \<longleftrightarrow>
     gost_keys_ok X \<and> gost_pair X c (fst k) pubRaw \<and> kexp_ok X (snd k) \<and> length spkiAlgo < 2 ^ 29"

text \<open>The server derives the UKM from the randoms itself and ignores the one on the wire.\<close>

definition gost2018_server :: "('x) gcrypto_scheme \<Rightarrow> gostCurve \<Rightarrow> Gost2018Variant \<Rightarrow> bytes \<Rightarrow>
    bytes \<times> (KexpVariant \<Rightarrow> bytes \<Rightarrow> bytes \<Rightarrow> bytes \<Rightarrow> bytes \<Rightarrow> bytes option) \<Rightarrow> bytes \<Rightarrow> bytes \<Rightarrow> bytes option" where
  "gost2018_server X c v randoms k params cke =
     (let ukm = gost_Streebog256 X randoms in
      case bindR (pskt_decode cke) (\<lambda>(pub, psexp).
             bindR (gost_KEG2012_256 X c pub (fst k) ukm) (\<lambda>expkeys. Inr (psexp, expkeys))) of
        Inl _ \<Rightarrow> None
      | Inr (psexp, expkeys) \<Rightarrow>
          snd k (kexpVariant v) psexp (drop 32 expkeys) (take 32 expkeys) (slice 24 (24 + ivLen v) ukm))"

lemma gost2018_agree:
  assumes off: "gost2018_offers X c spkiAlgo pubRaw k params"
    and cl: "gost2018_client X c spkiAlgo pubRaw v randoms params r = (Inr (cke, pm), r')"
  shows "gost2018_server X c v randoms k params cke = Some pm"
proof -
  let ?u = "gost_Streebog256 X randoms"
  obtain prv pub r1 r2 expkeys w where g: "gost_GenerateEphemeralKey X c r1 = (Inr (prv, pub), r2)"
    and u: "length ?u = 32" and keg: "gost_KEG2012_256 X c pubRaw prv ?u = Inr expkeys"
    and w: "gost_Kexp15 X (kexpVariant v) pm (drop 32 expkeys) (take 32 expkeys) (slice 24 (24 + ivLen v) ?u) = Inr w"
    and m: "marshalPSKeyTransport w spkiAlgo pub (Some ?u) = Inr cke"
    using cl
    by (auto simp: gost2018_client_def NewGost2018Exchange_def Gost2018Exchange_ClientKeyExchange_def
        Gost2018Exchange_ukm_def bindS_eq_Inr bindR_eq_Inr gost2018_const_defs Let_def split: if_splits)
  have ok: "gost_keys_ok X" "gost_pair X c (fst k) pubRaw" "kexp_ok X (snd k)" "length spkiAlgo < 2 ^ 29"
    using off by (auto simp: gost2018_offers_def)
  have e: "gost_pair X c prv pub" using g by (auto simp: gost_pair_def)
  have len: "length pub < 2 ^ 29" and sym: "gost_KEG2012_256 X c pub (fst k) ?u = Inr expkeys"
    using ok(1,2) e keg unfolding gost_keys_ok_def by (blast, metis)
  have k: "length w < 2 ^ 20" "snd k (kexpVariant v) w (drop 32 expkeys) (take 32 expkeys) (slice 24 (24 + ivLen v) ?u) = Some pm"
    using ok(3) w unfolding kexp_ok_def by blast+
  obtain inner where i: "length inner < 2 ^ 29" "cke = der_enc (pskt_der w (derElem tagSequence inner) pub (Some ?u))"
    using marshalPSKeyTransport_Inr [OF m ok(4)] by blast
  have "pskt_decode cke = Inr (pub, w)"
    unfolding i(2) using len i(1) k(1) u by (intro pskt_decode_der) simp_all
  then show ?thesis using sym k(2) by (simp add: gost2018_server_def)
qed

interpretation gost2018: key_agreement "gost2018_client X c spkiAlgo pubRaw v randoms"
  "gost2018_server X c v randoms" "gost2018_offers X c spkiAlgo pubRaw" for X c spkiAlgo pubRaw v randoms
  by unfold_locales (rule gost2018_agree)

end
