(* ===== verification/ClientState.thy ===== *)
theory ClientState
  imports Messages Transcript KexGost
begin

text \<open>
  The state of the handshake client (\<open>internal/handshake/client.go\<close>), certificate
  verification (\<open>cert_gost.go\<close>), signature verification (\<open>crypto.go\<close>), the choice of key
  exchange (\<open>kex_gost.go\<close>) and the pure helpers of the client.  \<open>crypto/x509\<close>,
  \<open>x509gost\<close>, the signature primitives and the clock are fields of the environment record.
  A pointer that may be \<open>nil\<close> is an option and its dereference a \<open>Panic\<close>.
\<close>

section \<open>Certificates, keys and the environment\<close>

datatype CryptoHash = CryptoSHA1 | CryptoSHA256 | CryptoSHA384 | CryptoSHA512

datatype EllipticCurve = EllipticP224 | EllipticP256 | EllipticP384 | EllipticP521

record ecdsaPublicKey =
  ec_Curve :: EllipticCurve
  ec_X :: int
  ec_Y :: int

datatype PublicKey = PubRSA rsaPublicKey | PubECDSA ecdsaPublicKey | PubOther

record rsaPrivateKey =
  rk_Public :: rsaPublicKey
  rk_D :: int

record ecdsaPrivateKey =
  ek_Public :: ecdsaPublicKey
  ek_D :: int

datatype PrivateKey = PrivRSA rsaPrivateKey | PrivECDSA ecdsaPrivateKey | PrivOther

record x509Cert =
  x5_Raw :: bytes
  x5_PublicKey :: PublicKey

record x509gostCert =
  gx_Stdlib :: "x509Cert option"
  gx_IsGOST :: bool
  gx_HasGOSTPubKey :: bool
  gx_CurveOID :: "nat list"
  gx_PubKeyRaw :: bytes
  gx_SPKIAlgorithmDER :: bytes

datatype ExtKeyUsage = ExtKeyUsageServerAuth | ExtKeyUsageOther

record x509VerifyOptions =
  vo_Roots :: "x509Cert list option"
  vo_Intermediates :: "x509Cert list"
  vo_DNSName :: bytes
  vo_CurrentTime :: int
  vo_KeyUsages :: "ExtKeyUsage list"

record gostVerifyOptions =
  gvo_GOSTRoots :: "x509gostCert list"
  gvo_GOSTIntermediates :: "x509gostCert list"
  gvo_DNSName :: bytes
  gvo_CurrentTime :: int
  gvo_KeyUsages :: "ExtKeyUsage list"

record ccrypto = gcrypto +
  cryptoHash_New :: "CryptoHash \<Rightarrow> Hash"
  rsa_VerifyPKCS1v15 :: "rsaPublicKey \<Rightarrow> CryptoHash \<Rightarrow> bytes \<Rightarrow> bytes \<Rightarrow> unit res"
  ecdsa_Verify :: "ecdsaPublicKey \<Rightarrow> bytes \<Rightarrow> int \<Rightarrow> int \<Rightarrow> bool"
  rsa_SignPKCS1v15 :: "rsaPrivateKey \<Rightarrow> CryptoHash \<Rightarrow> bytes \<Rightarrow> (reader, bytes) sm"
  ecdsa_SignASN1 :: "ecdsaPrivateKey \<Rightarrow> bytes \<Rightarrow> (reader, bytes) sm"
  x509_ParseCertificate :: "bytes \<Rightarrow> x509Cert res"
  x509_Verify :: "x509Cert \<Rightarrow> x509VerifyOptions \<Rightarrow> x509Cert list list res"
  x509gost_ParseCertificate :: "bytes \<Rightarrow> x509gostCert res"
  x509gost_Verify :: "x509gostCert \<Rightarrow> gostVerifyOptions \<Rightarrow> x509gostCert list list res"
  time_Now :: int

section \<open>Parameters and state\<close>

text \<open>A value of type \<open>any\<close> holding GOST certificates: \<open>nil\<close>, the expected slice, or a
  value of another type.\<close>

datatype anyCerts = AnyNil | AnyGOSTCerts "x509gostCert list" | AnyOther

type_synonym chains = "x509Cert option list list"

record ClientCertificate =
  cc_RawCertificate :: bytes
  cc_PrivateKey :: PrivateKey
  cc_Certificate :: "x509Cert option"

text \<open>\<open>p_Rand\<close> is \<open>None\<close> for \<open>crypto/rand.Reader\<close> (the system randomness of the transport
  record) and otherwise what the configured reader still delivers.\<close>

record ClientParams =
  p_Rand :: "reader option"
  p_ServerName :: bytes
  p_OfferedSuites :: "u16 list"
  p_RootCAs :: "x509Cert list option"
  p_InsecureSkipVerify :: bool
  p_VerifyPeerCertificate :: "(bytes list \<Rightarrow> chains \<Rightarrow> unit res) option"
  p_GOSTRoots :: anyCerts
  p_GOSTIntermediates :: anyCerts
  p_Certificates :: "ClientCertificate list"

record ClientState =
  cs_params :: ClientParams
  cs_layer :: Layer
  cs_transcript :: Transcript
  cs_clientRandom :: bytes
  cs_serverRandom :: bytes
  cs_suite :: "Suite option"
  cs_masterSecret :: bytes
  cs_certReq :: "CertificateRequest option"
  cs_clientCertSent :: bool
  cs_clientSigAlg :: SigAndHash
  cs_gostLeaf :: "x509gostCert option"
  cs_done :: bool
  cs_hsBuf :: bytes

definition NewClientState :: "Layer \<Rightarrow> ClientParams \<Rightarrow> ClientState" where
  "NewClientState layer params =
     \<lparr>cs_params = params, cs_layer = layer, cs_transcript = NewTranscript,
      cs_clientRandom = replicate 32 0, cs_serverRandom = replicate 32 0, cs_suite = None,
      cs_masterSecret = [], cs_certReq = None, cs_clientCertSent = False,
      cs_clientSigAlg = \<lparr>sah_Hash = 0, sah_Sig = 0\<rparr>, cs_gostLeaf = None, cs_done = False, cs_hsBuf = []\<rparr>"

text \<open>The registry the package's \<open>init\<close> functions leave behind.\<close>

definition globalRegistry :: Registry where
  "globalRegistry = (case initRegistry of Inr r \<Rightarrow> r | Inl _ \<Rightarrow> emptyRegistry)"

section \<open>Running the parts on the client state\<close>

definition onLayer :: "(Layer, 'a) sm \<Rightarrow> (ClientState, 'a) sm" where
  "onLayer m c = (case m (cs_layer c) of (res, l) \<Rightarrow> (res, c\<lparr>cs_layer := l\<rparr>))"

definition withSysRand :: "(reader, 'a) sm \<Rightarrow> (ClientState, 'a) sm" where
  "withSysRand m c =
     (case m (n_rand (l_rw (cs_layer c))) of
        (res, r) \<Rightarrow> (res, c\<lparr>cs_layer := (cs_layer c)\<lparr>l_rw := (l_rw (cs_layer c))\<lparr>n_rand := r\<rparr>\<rparr>\<rparr>))"

definition withParamsRand :: "(reader, 'a) sm \<Rightarrow> (ClientState, 'a) sm" where
  "withParamsRand m c =
     (case p_Rand (cs_params c) of
        None \<Rightarrow> withSysRand m c
      | Some r \<Rightarrow> (case m r of (res, r') \<Rightarrow> (res, c\<lparr>cs_params := (cs_params c)\<lparr>p_Rand := Some r'\<rparr>\<rparr>)))"

definition transcriptWrite :: "bytes \<Rightarrow> (ClientState, unit) sm" where
  "transcriptWrite b = modifyS (\<lambda>c. c\<lparr>cs_transcript := Transcript_Write b (cs_transcript c)\<rparr>)"

text \<open>\<open>c.suite\<close>, dereferenced.\<close>

definition theSuite :: "(ClientState, Suite) sm" where
  "theSuite c = (case cs_suite c of None \<Rightarrow> (Inl (Panic ''nil pointer dereference''), c) | Some s \<Rightarrow> (Inr s, c))"

definition fatal :: "('x) ccrypto_scheme \<Rightarrow> byte \<Rightarrow> err \<Rightarrow> (ClientState, 'a) sm" where
  "fatal X alertDesc cause c =
     (let alertBody = EncodeAlert AlertLevelFatal alertDesc in
      case onLayer (WriteRecord X ContentTypeAlert alertBody) c of
        (Inl (Panic p), c') \<Rightarrow> (Inl (Panic p), c')
      | (_, c') \<Rightarrow> (Inl cause, c'))"

text \<open>\<open>if err != nil { return c.fatal(desc, ...err...) }\<close>; a panic is not an error value and
  unwinds.\<close>

definition orFatal :: "('x) ccrypto_scheme \<Rightarrow> byte \<Rightarrow> (ClientState, 'a) sm \<Rightarrow> (ClientState, 'a) sm" where
  "orFatal X alertDesc m =
     catchS m (\<lambda>e. case e of Panic p \<Rightarrow> failS (Panic p) | _ \<Rightarrow> fatal X alertDesc e)"

section \<open>Signature algorithms\<close>

definition sigHashByte :: byte where "sigHashByte = 0x04"
definition sigHashSHA384 :: byte where "sigHashSHA384 = 0x05"
definition sigHashSHA1 :: byte where "sigHashSHA1 = 0x02"
definition sigHashSHA512 :: byte where "sigHashSHA512 = 0x06"
definition sigAlgRSA :: byte where "sigAlgRSA = 0x01"
definition sigAlgECDSA :: byte where "sigAlgECDSA = 0x03"
definition curveTypeNamed :: byte where "curveTypeNamed = 0x03"
definition hostNameType :: byte where "hostNameType = 0x00"
definition tlsVersion12 :: u16 where "tlsVersion12 = 0x0303"

lemmas sig_const_defs = sigHashByte_def sigHashSHA384_def sigHashSHA1_def sigHashSHA512_def
  sigAlgRSA_def sigAlgECDSA_def

definition clientSigAlgsAdvertised :: "SigAndHash list" where
  "clientSigAlgsAdvertised =
     [\<lparr>sah_Hash = sigHashByte, sah_Sig = sigAlgRSA\<rparr>,
      \<lparr>sah_Hash = sigHashSHA384, sah_Sig = sigAlgRSA\<rparr>,
      \<lparr>sah_Hash = sigHashByte, sah_Sig = sigAlgECDSA\<rparr>,
      \<lparr>sah_Hash = sigHashSHA384, sah_Sig = sigAlgECDSA\<rparr>]"

definition sigAlgAdvertised :: "byte \<Rightarrow> byte \<Rightarrow> bool" where
  "sigAlgAdvertised hashAlg sigAlg =
     list_ex (\<lambda>a. sah_Hash a = hashAlg \<and> sah_Sig a = sigAlg) clientSigAlgsAdvertised"

fun skeSigAlgMatchesAuth :: "byte \<Rightarrow> AuthKind \<Rightarrow> bool" where
  "skeSigAlgMatchesAuth sigAlg AuthRSA = (sigAlg = sigAlgRSA)"
| "skeSigAlgMatchesAuth sigAlg AuthECDSA = (sigAlg = sigAlgECDSA)"
| "skeSigAlgMatchesAuth sigAlg AuthAnonymous = False"
| "skeSigAlgMatchesAuth sigAlg AuthGOST2001 = False"
| "skeSigAlgMatchesAuth sigAlg AuthGOST2012_256 = False"

definition availableCipherNames :: "string list" where
  "availableCipherNames =
     [''AES-128-CBC'', ''AES-256-CBC'', ''AES-128-GCM'', ''AES-256-GCM'', ''CHACHA20-POLY1305'']"

definition AvailableSuites :: "u16 list" where
  "AvailableSuites =
     map s_ID (filter (\<lambda>s. c_Name (s_Cipher s) \<in> set availableCipherNames) (AllRegistered globalRegistry))"

definition hashForSigAlg :: "byte \<Rightarrow> CryptoHash res" where
  "hashForSigAlg hashByte =
     (if hashByte = sigHashSHA1 then Inr CryptoSHA1
      else if hashByte = sigHashByte then Inr CryptoSHA256
      else if hashByte = sigHashSHA384 then Inr CryptoSHA384
      else if hashByte = sigHashSHA512 then Inr CryptoSHA512
      else Inl (Sentinel ''errUnsupportedHashAlg''))"

definition verifyRSASignature ::
  "('x) ccrypto_scheme \<Rightarrow> rsaPublicKey \<Rightarrow> byte \<Rightarrow> bytes \<Rightarrow> bytes \<Rightarrow> unit res" where
  "verifyRSASignature X pub hashAlg digest sig =
     bindR (hashForSigAlg hashAlg) (\<lambda>cryptoHash. rsa_VerifyPKCS1v15 X pub cryptoHash digest sig)"

definition verifyECDSASignature ::
  "('x) ccrypto_scheme \<Rightarrow> ecdsaPublicKey \<Rightarrow> bytes \<Rightarrow> bytes \<Rightarrow> unit res" where
  "verifyECDSASignature X pub digest sig =
     bindR (unmarshalECDSASig sig) (\<lambda>(R, S, rest).
     guardR (length rest \<noteq> 0) (Sentinel ''errECDSATrailingBytes'') (
     guardR (\<not> ecdsa_Verify X pub digest R S) (Sentinel ''errECDSAVerifyFailed'') (
     Inr ())))"

definition verifySignature ::
  "('x) ccrypto_scheme \<Rightarrow> x509Cert option \<Rightarrow> byte \<Rightarrow> byte \<Rightarrow> bytes \<Rightarrow> bytes \<Rightarrow> unit res" where
  "verifySignature X cert hashAlg sigAlg signedData sig =
     bindR (hashForSigAlg hashAlg) (\<lambda>cryptoHash.
     let digest = h_Sum (cryptoHash_New X cryptoHash) signedData in
     if sigAlg = sigAlgRSA then
       (case cert of
          None \<Rightarrow> Inl (Panic ''nil pointer dereference'')
        | Some c \<Rightarrow> (case x5_PublicKey c of
              PubRSA rsaPub \<Rightarrow> verifyRSASignature X rsaPub hashAlg digest sig
            | _ \<Rightarrow> Inl (Sentinel ''errCertNotRSA'')))
     else if sigAlg = sigAlgECDSA then
       (case cert of
          None \<Rightarrow> Inl (Panic ''nil pointer dereference'')
        | Some c \<Rightarrow> (case x5_PublicKey c of
              PubECDSA ecPub \<Rightarrow> verifyECDSASignature X ecPub digest sig
            | _ \<Rightarrow> Inl (Sentinel ''errCertNotECDSA'')))
     else Inl (Sentinel ''errUnsupportedSigAlg''))"

section \<open>Certificate verification\<close>

definition extractGOSTRoots :: "anyCerts \<Rightarrow> x509gostCert list res" where
  "extractGOSTRoots v =
     (case v of
        AnyNil \<Rightarrow> Inl (Sentinel ''ErrGOSTRootsRequired'')
      | AnyOther \<Rightarrow> Inl (Sentinel ''errGOSTRootsWrongType'')
      | AnyGOSTCerts roots \<Rightarrow> guardR (length roots = 0) (Sentinel ''ErrGOSTRootsRequired'') (Inr roots))"

definition extractGOSTIntermediates :: "anyCerts \<Rightarrow> x509gostCert list res" where
  "extractGOSTIntermediates v =
     (case v of
        AnyNil \<Rightarrow> Inr []
      | AnyOther \<Rightarrow> Inl (Sentinel ''errGOSTIntermediatesWrongType'')
      | AnyGOSTCerts intermediates \<Rightarrow> Inr intermediates)"

fun parseGOSTIntermediates :: "('x) ccrypto_scheme \<Rightarrow> bytes list \<Rightarrow> x509gostCert list res" where
  "parseGOSTIntermediates X [] = Inr []"
| "parseGOSTIntermediates X (der # ders) =
     bindR (x509gost_ParseCertificate X der) (\<lambda>cert.
     bindR (parseGOSTIntermediates X ders) (\<lambda>out. Inr (cert # out)))"

fun parseStdlibIntermediates :: "('x) ccrypto_scheme \<Rightarrow> bytes list \<Rightarrow> x509Cert list res" where
  "parseStdlibIntermediates X [] = Inr []"
| "parseStdlibIntermediates X (der # ders) =
     bindR (x509_ParseCertificate X der) (\<lambda>cert.
     bindR (parseStdlibIntermediates X ders) (\<lambda>pool. Inr (cert # pool)))"

definition gostChainsToStdlib :: "x509gostCert list list \<Rightarrow> chains" where
  "gostChainsToStdlib cs = (if length cs = 0 then [] else map (map gx_Stdlib) cs)"

text \<open>The verification of a parsed leaf against the configured roots.\<close>

definition verifyChain ::
  "('x) ccrypto_scheme \<Rightarrow> x509gostCert \<Rightarrow> bytes list \<Rightarrow> (ClientState, x509Cert option \<times> chains) sm" where
  "verifyChain X gc rawCerts =
     (let leafCert = gx_Stdlib gc in
      bindS (getS cs_params) (\<lambda>params.
      if p_InsecureSkipVerify params then returnS (leafCert, [])
      else if gx_IsGOST gc then
        bindS (liftS (extractGOSTRoots (p_GOSTRoots params))) (\<lambda>roots.
        bindS (liftS (extractGOSTIntermediates (p_GOSTIntermediates params))) (\<lambda>intermediates.
        bindS (liftS (parseGOSTIntermediates X (drop 1 rawCerts))) (\<lambda>wireInter.
        let opts = \<lparr>gvo_GOSTRoots = roots, gvo_GOSTIntermediates = intermediates @ wireInter,
                    gvo_DNSName = p_ServerName params, gvo_CurrentTime = time_Now X,
                    gvo_KeyUsages = [ExtKeyUsageServerAuth]\<rparr> in
        bindS (liftS (x509gost_Verify X gc opts)) (\<lambda>gostChains.
        returnS (leafCert, gostChainsToStdlib gostChains)))))
      else
        bindS (liftS (parseStdlibIntermediates X (drop 1 rawCerts))) (\<lambda>intermediates.
        let opts = \<lparr>vo_Roots = p_RootCAs params, vo_Intermediates = intermediates,
                    vo_DNSName = p_ServerName params, vo_CurrentTime = time_Now X,
                    vo_KeyUsages = [ExtKeyUsageServerAuth]\<rparr> in
        case leafCert of
          None \<Rightarrow> failS (Panic ''nil pointer dereference'')
        | Some leaf \<Rightarrow>
            bindS (liftS (x509_Verify X leaf opts)) (\<lambda>cs.
            returnS (leafCert, map (map Some) cs)))))"

definition parseAndVerifyChain ::
  "('x) ccrypto_scheme \<Rightarrow> bytes list \<Rightarrow> (ClientState, x509Cert option \<times> chains) sm" where
  "parseAndVerifyChain X rawCerts =
     bindS (liftS (case rawCerts of [] \<Rightarrow> Inl (Panic ''index out of range'') | leaf # _ \<Rightarrow> x509gost_ParseCertificate X leaf)) (\<lambda>gc.
     bindS (if gx_HasGOSTPubKey gc then modifyS (\<lambda>c. c\<lparr>cs_gostLeaf := Some gc\<rparr>) else returnS ()) (\<lambda>_.
     verifyChain X gc rawCerts))"

definition parseAndVerifyLeaf ::
  "('x) ccrypto_scheme \<Rightarrow> bytes \<Rightarrow> (ClientState, x509Cert option \<times> chains) sm" where
  "parseAndVerifyLeaf X rawLeaf = parseAndVerifyChain X [rawLeaf]"

end
