(* ===== verification/Client.thy ===== *)
theory Client
  imports ClientState
begin

text \<open>
  The messages the handshake client of \<open>internal/handshake/client.go\<close> sends and receives up to
  the server flight, one definition per method of \<open>ClientState\<close>, in the state monad over the
  client state.  The receive loop \<open>readHandshakeRecord\<close> ends because the transport's input is
  finite and each iteration consumes a record.
\<close>

section \<open>Reading handshake messages\<close>

definition maxHandshakeMsg :: nat where "maxHandshakeMsg = 256 * 1024"

definition consumeBuffered :: "bytes \<Rightarrow> nat \<Rightarrow> bytes" where
  "consumeBuffered buf n = (if length buf = n then [] else drop n buf)"

definition buildEnvelope :: "Type \<Rightarrow> bytes \<Rightarrow> bytes" where
  "buildEnvelope t body = [t] @ put24 (of_nat (length body)) @ body"

text \<open>The complete message at the front of the buffer: none yet, a message whose declared length
  is over the limit, or its type and body with the rest of the buffer.\<close>

definition bufferedMessage :: "bytes \<Rightarrow> (byte \<times> bytes \<times> bytes) res option" where
  "bufferedMessage hsBuf =
     (if length hsBuf \<ge> 4 then
        let bodyLen = unat (get24 (hsBuf ! 1) (hsBuf ! 2) (hsBuf ! 3)) in
        if bodyLen > maxHandshakeMsg then Some (Inl (Sentinel ''errHSBodyTruncated''))
        else let total = 4 + bodyLen in
             if length hsBuf \<ge> total
             then Some (Inr (hsBuf ! 0, slice 4 total hsBuf, consumeBuffered hsBuf total))
             else None
      else None)"

text \<open>What is done with a record that is not a handshake record.\<close>

definition nonHandshakeRecord :: "bytes \<Rightarrow> byte \<Rightarrow> bytes \<Rightarrow> err" where
  "nonHandshakeRecord hsBuf ct payload =
     (if ct = ContentTypeAlert then
        if length hsBuf \<noteq> 0 then Sentinel ''errInterleavedHandshake''
        else if length payload < 2 then Sentinel ''errAlertRecordTruncated''
        else (case DecodeAlert payload of Inl e \<Rightarrow> e | Inr (level, desc) \<Rightarrow> Sentinel ''errAlertReceived'')
      else if length hsBuf \<noteq> 0 then Sentinel ''errInterleavedHandshake''
      else Sentinel ''errUnexpectedRecordType'')"

function readHandshakeRecord ::
  "('x) ccrypto_scheme \<Rightarrow> ClientState \<Rightarrow> (Type \<times> bytes) res \<times> ClientState" where
  "readHandshakeRecord X c =
     (case bufferedMessage (cs_hsBuf c) of
        Some (Inl e) \<Rightarrow> (Inl e, c)
      | Some (Inr (t, body, rest)) \<Rightarrow> (Inr (t, body), c\<lparr>cs_hsBuf := rest\<rparr>)
      | None \<Rightarrow>
          (case ReadRecord X (cs_layer c) of
             (Inl e, l) \<Rightarrow>
               (Inl (case e of
                       Panic p \<Rightarrow> e
                     | _ \<Rightarrow> if length (cs_hsBuf c) \<noteq> 0 then Sentinel ''errHSBodyTruncated'' else e),
                c\<lparr>cs_layer := l\<rparr>)
           | (Inr (ct, payload), l) \<Rightarrow>
               if ct = ContentTypeHandshake
               then readHandshakeRecord X (c\<lparr>cs_layer := l, cs_hsBuf := cs_hsBuf c @ payload\<rparr>)
               else (Inl (nonHandshakeRecord (cs_hsBuf c) ct payload), c\<lparr>cs_layer := l\<rparr>)))"
  by pat_completeness auto
termination
  by (relation "measure (\<lambda>(X, c). length (r_data (n_in (l_rw (cs_layer c)))))")
    (auto dest!: ReadRecord_Inr(9) [OF sym])

declare readHandshakeRecord.simps [simp del]

abbreviation inputLeft :: "ClientState \<Rightarrow> nat" where
  "inputLeft c \<equiv> length (r_data (n_in (l_rw (cs_layer c))))"

lemma bufferedMessage_Inr:
  assumes "bufferedMessage buf = Some (Inr (t, body, rest))"
  shows "buf = buildEnvelope t body @ rest" "length body \<le> maxHandshakeMsg"
proof -
  let ?n = "unat (get24 (buf ! 1) (buf ! 2) (buf ! 3))"
  have a: "4 \<le> length buf" "?n \<le> maxHandshakeMsg" "4 + ?n \<le> length buf"
    "t = buf ! 0" "body = slice 4 (4 + ?n) buf" "rest = consumeBuffered buf (4 + ?n)"
    using assms by (auto simp: bufferedMessage_def Let_def split: if_splits)
  then obtain b0 b1 b2 b3 bs where b: "buf = b0 # b1 # b2 # b3 # bs"
    by (auto simp: numeral_eq_Suc Suc_le_length_iff)
  have "drop (4 + ?n) buf = drop ?n (drop 4 buf)" by (simp add: add.commute)
  then have rest: "rest = drop ?n bs" using a(6) b by (auto simp: consumeBuffered_def)
  have body: "body = take ?n bs" using a(5) b by (simp add: slice_def)
  have n: "of_nat (length body) = get24 b1 b2 b3" using a(3) b body by simp
  show "buf = buildEnvelope t body @ rest"
    unfolding buildEnvelope_def n using a(4) body rest b by (simp add: put24_get24)
  show "length body \<le> maxHandshakeMsg" using a(2) body by simp
qed

lemma length_buildEnvelope [simp]: "length (buildEnvelope t body) = length body + 4"
  by (simp add: buildEnvelope_def)

lemma readHandshakeRecord_progress:
  assumes "readHandshakeRecord X c = (Inr m, c')"
  shows "inputLeft c' < inputLeft c \<or> inputLeft c' = inputLeft c \<and> length (cs_hsBuf c') < length (cs_hsBuf c)"
  using assms
proof (induction X c rule: readHandshakeRecord.induct)
  case (1 X c)
  show ?case
  proof (cases "bufferedMessage (cs_hsBuf c)")
    case None
    obtain ct payload l where rd: "ReadRecord X (cs_layer c) = (Inr (ct, payload), l)" "ct = ContentTypeHandshake"
      and rec: "readHandshakeRecord X (c\<lparr>cs_layer := l, cs_hsBuf := cs_hsBuf c @ payload\<rparr>) = (Inr m, c')"
      using "1.prems" None by (subst (asm) readHandshakeRecord.simps) (auto split: prod.splits sum.splits if_splits)
    have "inputLeft c' \<le> inputLeft (c\<lparr>cs_layer := l, cs_hsBuf := cs_hsBuf c @ payload\<rparr>)"
      using "1.IH" [OF None rd(1) [symmetric] refl _ rd(2) rec] by auto
    then show ?thesis using ReadRecord_Inr(9) [OF rd(1)] by simp
  next
    case (Some r)
    then obtain t body rest where r: "r = Inr (t, body, rest)" and c': "c' = c\<lparr>cs_hsBuf := rest\<rparr>"
      using "1.prems" by (subst (asm) readHandshakeRecord.simps) (auto split: sum.splits)
    show ?thesis using bufferedMessage_Inr(1) [OF Some [unfolded r]] c' by simp
  qed
qed

section \<open>ClientHello and ServerHello\<close>

definition clientHelloOf :: "ClientParams \<Rightarrow> bytes \<Rightarrow> ClientHello" where
  "clientHelloOf params random =
     \<lparr>ch_Version = tlsVersion12, ch_Random = random, ch_SessionID = [],
      ch_CipherSuites = p_OfferedSuites params, ch_CompressionMethods = [hostNameType],
      ch_ServerName = p_ServerName params,
      ch_SupportedGroups = [0x001D, 0x0017, 0x0018, 0x0019, 0x0100, 0x0101],
      ch_ECPointFormats = [hostNameType], ch_SignatureAlgorithms = clientSigAlgsAdvertised,
      ch_ExtendedMasterSecret = False, ch_RenegotiationInfo = True\<rparr>"

definition sendClientHello :: "('x) ccrypto_scheme \<Rightarrow> (ClientState, unit) sm" where
  "sendClientHello X =
     bindS (withParamsRand (ReadFull 32)) (\<lambda>random.
     bindS (modifyS (\<lambda>c. c\<lparr>cs_clientRandom := random\<rparr>)) (\<lambda>_.
     bindS (getS cs_params) (\<lambda>params.
     let env = MarshalMessage (MClientHello (clientHelloOf params random)) in
     bindS (onLayer (WriteRecord X ContentTypeHandshake env)) (\<lambda>_.
     transcriptWrite env))))"

definition offeredExt :: "ClientParams \<Rightarrow> u16 list" where
  "offeredExt params =
     [extSupportedGroups, extECPointFormats, extSignatureAlgorithms, extRenegotiationInfo]
     @ (if p_ServerName params \<noteq> [] then [extServerName] else [])"

definition recvServerHello :: "('x) ccrypto_scheme \<Rightarrow> (ClientState, unit) sm" where
  "recvServerHello X =
     bindS (orFatal X AlertHandshakeFailure (readHandshakeRecord X)) (\<lambda>(t, payload).
     if t \<noteq> TypeServerHello then fatal X AlertUnexpectedMessage (Sentinel ''errExpectedServerHello'')
     else
       bindS (orFatal X AlertHandshakeFailure (liftS (ParseMessage (buildEnvelope TypeServerHello payload)))) (\<lambda>(msg, _).
       case msg of
         MServerHello sh \<Rightarrow>
           if sh_Version sh \<noteq> tlsVersion12 then fatal X AlertProtocolVersion (Sentinel ''errBadVersion'')
           else
             bindS (getS cs_params) (\<lambda>params.
             if sh_CipherSuite sh \<notin> set (p_OfferedSuites params)
             then fatal X AlertIllegalParameter (Sentinel ''errSuiteNotOffered'')
             else
               (case Lookup globalRegistry (sh_CipherSuite sh) of
                  None \<Rightarrow> fatal X AlertIllegalParameter (Sentinel ''errUnknownSuite'')
                | Some suite \<Rightarrow>
                    bindS (modifyS (\<lambda>c. c\<lparr>cs_suite := Some suite\<rparr>)) (\<lambda>_.
                    if sh_CompressionMethod sh \<noteq> 0
                    then fatal X AlertIllegalParameter (Sentinel ''errNonNullCompression'')
                    else if sh_ExtendedMasterSecret sh
                    then fatal X AlertUnsupportedExtension (Sentinel ''errUnexpectedEMS'')
                    else if \<not> list_all (\<lambda>e. e \<in> set (offeredExt params)) (sh_ExtensionTypes sh)
                    then fatal X AlertUnsupportedExtension (Sentinel ''errSHUnofferedExt'')
                    else
                      bindS (modifyS (\<lambda>c. c\<lparr>cs_serverRandom := sh_Random sh\<rparr>)) (\<lambda>_.
                      transcriptWrite (buildEnvelope TypeServerHello payload)))))
       | _ \<Rightarrow> fatal X AlertHandshakeFailure (Sentinel ''errUnexpectedSHType'')))"

section \<open>Certificate\<close>

definition recvCertificate :: "('x) ccrypto_scheme \<Rightarrow> (ClientState, x509Cert option \<times> Certificate) sm" where
  "recvCertificate X =
     bindS (orFatal X AlertHandshakeFailure (readHandshakeRecord X)) (\<lambda>(t, payload).
     if t \<noteq> TypeCertificate then fatal X AlertUnexpectedMessage (Sentinel ''errExpectedCertificate'')
     else
       bindS (orFatal X AlertHandshakeFailure (liftS (ParseMessage (buildEnvelope TypeCertificate payload)))) (\<lambda>(msg, _).
       case msg of
         MCertificate certMsg \<Rightarrow>
           if length (cert_RawCerts certMsg) = 0 then fatal X AlertBadCertificate (Sentinel ''errEmptyCertList'')
           else
             bindS (orFatal X AlertBadCertificate (parseAndVerifyChain X (cert_RawCerts certMsg))) (\<lambda>(leafCert, verifiedChains).
             bindS (getS cs_params) (\<lambda>params.
             bindS (case p_VerifyPeerCertificate params of
                      None \<Rightarrow> returnS ()
                    | Some f \<Rightarrow> orFatal X AlertBadCertificate (liftS (f (cert_RawCerts certMsg) verifiedChains))) (\<lambda>_.
             bindS (transcriptWrite (buildEnvelope TypeCertificate payload)) (\<lambda>_.
             returnS (leafCert, certMsg)))))
       | _ \<Rightarrow> fatal X AlertHandshakeFailure (Sentinel ''errUnexpectedCertType'')))"

section \<open>ServerKeyExchange\<close>

definition readU16LenPrefixedBuf :: "bytes \<Rightarrow> bytes res" where
  "readU16LenPrefixedBuf buf =
     guardR (length buf < 2) (Sentinel ''errU16PrefixTruncated'') (
     let n = unat (get16 (buf ! 0) (buf ! 1)); buf = drop 2 buf in
     guardR (length buf < n) (Sentinel ''errU16BodyTruncated'') (Inr (drop n buf)))"

text \<open>The checks both key exchanges make on the signature section \<open>sigData\<close> (hash, algorithm,
  length, signature) over the signed parameters.\<close>

definition verifySKESignature ::
  "('x) ccrypto_scheme \<Rightarrow> bytes \<Rightarrow> bytes \<Rightarrow> x509Cert option \<Rightarrow> err \<Rightarrow> err \<Rightarrow> (ClientState, bytes) sm" where
  "verifySKESignature X serverParams sigData cert errShort errTruncated =
     (if length sigData < 4 then fatal X AlertHandshakeFailure errShort
      else
        let hashAlg = sigData ! 0; sigAlg = sigData ! 1;
            sigLen = unat (get16 (sigData ! 2) (sigData ! 3)) in
        if length sigData < 4 + sigLen then fatal X AlertHandshakeFailure errTruncated
        else
          let sig = slice 4 (4 + sigLen) sigData in
          if \<not> sigAlgAdvertised hashAlg sigAlg
          then fatal X AlertIllegalParameter (Sentinel ''errSKEUnadvertisedSigAlg'')
          else
            bindS theSuite (\<lambda>suite.
            if \<not> skeSigAlgMatchesAuth sigAlg (s_Auth suite)
            then fatal X AlertIllegalParameter (Sentinel ''errSKESigAuthMismatch'')
            else
              bindS (getS (\<lambda>c. cs_clientRandom c @ cs_serverRandom c @ serverParams)) (\<lambda>signedData.
              bindS (orFatal X AlertDecryptError (liftS (verifySignature X cert hashAlg sigAlg signedData sig))) (\<lambda>_.
              returnS serverParams))))"

definition verifyECDHEServerKeyExchange ::
  "('x) ccrypto_scheme \<Rightarrow> bytes \<Rightarrow> x509Cert option \<Rightarrow> (ClientState, bytes) sm" where
  "verifyECDHEServerKeyExchange X body cert =
     (if length body < 4 then fatal X AlertHandshakeFailure (Sentinel ''errECDHESKETooShort'')
      else if body ! 0 \<noteq> curveTypeNamed then fatal X AlertHandshakeFailure (Sentinel ''errECDHEUnsupportedCT'')
      else
        let pointLen = unat (body ! 3) in
        if length body < 4 + pointLen + 2 then fatal X AlertHandshakeFailure (Sentinel ''errECDHEBodyTruncated'')
        else
          let serverParams = take (4 + pointLen) body; sigData = drop (4 + pointLen) body in
          verifySKESignature X serverParams sigData cert
            (Sentinel ''errECDHESigSectionShort'') (Sentinel ''errECDHESigTruncated''))"

definition verifyDHEServerKeyExchange ::
  "('x) ccrypto_scheme \<Rightarrow> bytes \<Rightarrow> x509Cert option \<Rightarrow> (ClientState, bytes) sm" where
  "verifyDHEServerKeyExchange X body cert =
     bindS (orFatal X AlertHandshakeFailure (liftS (readU16LenPrefixedBuf body))) (\<lambda>rest.
     bindS (orFatal X AlertHandshakeFailure (liftS (readU16LenPrefixedBuf rest))) (\<lambda>rest.
     bindS (orFatal X AlertHandshakeFailure (liftS (readU16LenPrefixedBuf rest))) (\<lambda>rest.
     let serverParams = take (length body - length rest) body in
     verifySKESignature X serverParams rest cert
       (Sentinel ''errDHESigSectionShort'') (Sentinel ''errDHESigTruncated''))))"

definition verifyServerKeyExchange ::
  "('x) ccrypto_scheme \<Rightarrow> bytes \<Rightarrow> x509Cert option \<Rightarrow> (ClientState, bytes) sm" where
  "verifyServerKeyExchange X body cert =
     bindS theSuite (\<lambda>suite.
     if s_KX suite = KexECDHE then verifyECDHEServerKeyExchange X body cert
     else if s_KX suite = KexDHE then verifyDHEServerKeyExchange X body cert
     else fatal X AlertHandshakeFailure (Sentinel ''errUnexpectedSKE''))"

section \<open>The server flight\<close>

text \<open>The variables of the loop: \<open>sawSKE\<close>, \<open>sawCertReq\<close>, \<open>serverKeyExchParams\<close>.\<close>

record flight =
  fl_sawSKE :: bool
  fl_sawCertReq :: bool
  fl_params :: bytes

text \<open>One iteration after a message was read: go on with new variables (\<open>Inl\<close>) or leave the
  loop (\<open>Inr\<close>).\<close>

definition flightMessage ::
  "('x) ccrypto_scheme \<Rightarrow> x509Cert option \<Rightarrow> flight \<Rightarrow> Type \<Rightarrow> bytes \<Rightarrow> (ClientState, flight + flight) sm" where
  "flightMessage X serverCert fl ct payload =
     (if ct = TypeServerKeyExchange then
        if fl_sawSKE fl then fatal X AlertUnexpectedMessage (Sentinel ''errDuplicateSKE'')
        else if fl_sawCertReq fl then fatal X AlertUnexpectedMessage (Sentinel ''errSKEAfterCertReq'')
        else
          bindS (orFatal X AlertHandshakeFailure (liftS (ParseMessage (buildEnvelope TypeServerKeyExchange payload)))) (\<lambda>(msg, _).
          case msg of
            MServerKeyExchange ske \<Rightarrow>
              bindS (transcriptWrite (buildEnvelope TypeServerKeyExchange payload)) (\<lambda>_.
              bindS (verifyServerKeyExchange X (ske_Body ske) serverCert) (\<lambda>params.
              returnS (Inl (fl\<lparr>fl_sawSKE := True, fl_params := params\<rparr>))))
          | _ \<Rightarrow> fatal X AlertHandshakeFailure (Sentinel ''errUnexpectedSKEType''))
      else if ct = TypeCertificateRequest then
        if fl_sawCertReq fl then fatal X AlertUnexpectedMessage (Sentinel ''errDuplicateCertReq'')
        else
          bindS (orFatal X AlertHandshakeFailure (liftS (ParseMessage (buildEnvelope TypeCertificateRequest payload)))) (\<lambda>(msg, _).
          case msg of
            MCertificateRequest certReq \<Rightarrow>
              bindS (modifyS (\<lambda>c. c\<lparr>cs_certReq := Some certReq\<rparr>)) (\<lambda>_.
              bindS (transcriptWrite (buildEnvelope TypeCertificateRequest payload)) (\<lambda>_.
              returnS (Inl (fl\<lparr>fl_sawCertReq := True\<rparr>))))
          | _ \<Rightarrow> fatal X AlertHandshakeFailure (Sentinel ''errUnexpectedCertReqType''))
      else if ct = TypeServerHelloDone then
        bindS (orFatal X AlertHandshakeFailure (liftS (ParseMessage (buildEnvelope TypeServerHelloDone payload)))) (\<lambda>_.
        bindS (transcriptWrite (buildEnvelope TypeServerHelloDone payload)) (\<lambda>_.
        returnS (Inr fl)))
      else fatal X AlertUnexpectedMessage (Sentinel ''errUnexpectedFlightMsg''))"

definition flightStep ::
  "('x) ccrypto_scheme \<Rightarrow> x509Cert option \<Rightarrow> flight \<Rightarrow> (ClientState, flight + flight) sm" where
  "flightStep X serverCert fl =
     bindS (orFatal X AlertHandshakeFailure (readHandshakeRecord X)) (\<lambda>(ct, payload).
     flightMessage X serverCert fl ct payload)"

end
