(* ===== verification/Handshake.thy ===== *)
theory Handshake
  imports Client
begin

text \<open>
  The rest of \<open>internal/handshake/client.go\<close>: the server flight, the key exchange
  (with \<open>kex_gost.go\<close>), client authentication, key expansion, the Finished messages and
  \<open>ClientState.Handshake\<close> itself.  The server-flight loop ends because each iteration takes
  a message off the reassembly buffer or a record off the finite input.
\<close>

section \<open>Outcomes of the client's combinators\<close>

lemma fatal_Inr [simp]: "fatal X a e c \<noteq> (Inr v, c')"
  by (auto simp: fatal_def Let_def split: prod.splits sum.splits err.splits)

lemma orFatal_Inr [simp]: "orFatal X a m c = (Inr v, c') \<longleftrightarrow> m c = (Inr v, c')"
  by (auto simp: orFatal_def catchS_def failS_def split: prod.splits sum.splits err.splits)

lemma theSuite_Inr [simp]: "theSuite c = (Inr s, c') \<longleftrightarrow> cs_suite c = Some s \<and> c' = c"
  by (auto simp: theSuite_def split: option.splits)

text \<open>A type assertion that succeeded.\<close>

lemma assert_ServerHello_Inr:
  "(case msg of MServerHello m \<Rightarrow> f m | _ \<Rightarrow> fatal X a e) c = (Inr v, c') \<longleftrightarrow> (\<exists>m. msg = MServerHello m \<and> f m c = (Inr v, c'))"
  by (cases msg) auto

lemma assert_Certificate_Inr:
  "(case msg of MCertificate m \<Rightarrow> f m | _ \<Rightarrow> fatal X a e) c = (Inr v, c') \<longleftrightarrow> (\<exists>m. msg = MCertificate m \<and> f m c = (Inr v, c'))"
  by (cases msg) auto

lemma assert_ServerKeyExchange_Inr:
  "(case msg of MServerKeyExchange m \<Rightarrow> f m | _ \<Rightarrow> fatal X a e) c = (Inr v, c') \<longleftrightarrow> (\<exists>m. msg = MServerKeyExchange m \<and> f m c = (Inr v, c'))"
  by (cases msg) auto

lemma assert_CertificateRequest_Inr:
  "(case msg of MCertificateRequest m \<Rightarrow> f m | _ \<Rightarrow> fatal X a e) c = (Inr v, c') \<longleftrightarrow> (\<exists>m. msg = MCertificateRequest m \<and> f m c = (Inr v, c'))"
  by (cases msg) auto

lemma assert_Finished_Inr:
  "(case msg of MFinished m \<Rightarrow> f m | _ \<Rightarrow> fatal X a e) c = (Inr v, c') \<longleftrightarrow> (\<exists>m. msg = MFinished m \<and> f m c = (Inr v, c'))"
  by (cases msg) auto

lemmas assert_Inr = assert_ServerHello_Inr assert_Certificate_Inr assert_ServerKeyExchange_Inr
  assert_CertificateRequest_Inr assert_Finished_Inr

lemma verifySKESignature_Inr:
  assumes "verifySKESignature X sp sigData cert e1 e2 c = (Inr r, c')"
  shows "c' = c" "r = sp" "4 \<le> length sigData" "sigAlgAdvertised (sigData ! 0) (sigData ! 1)"
    "\<exists>suite. cs_suite c = Some suite \<and> skeSigAlgMatchesAuth (sigData ! 1) (s_Auth suite)"
    "4 + unat (get16 (sigData ! 2) (sigData ! 3)) \<le> length sigData"
    "verifySignature X cert (sigData ! 0) (sigData ! 1) (cs_clientRandom c @ cs_serverRandom c @ sp)
       (slice 4 (4 + unat (get16 (sigData ! 2) (sigData ! 3))) sigData) = Inr ()"
  using assms unfolding verifySKESignature_def Let_def
  by (auto simp: bindS_eq_Inr getS_def returnS_def liftS_def split: if_splits)

lemma readU16LenPrefixedBuf_Inr:
  assumes "readU16LenPrefixedBuf buf = Inr rest"
  shows "\<exists>f. length f < 2 ^ 16 \<and> buf = put16 (of_nat (length f)) @ f @ rest"
proof -
  from assms obtain b0 b1 bs where b: "buf = b0 # b1 # bs"
    by (auto simp: readU16LenPrefixedBuf_def guardR_def numeral_2_eq_2 not_less Suc_le_length_iff split: if_splits)
  let ?n = "unat (get16 b0 b1)"
  have r: "?n \<le> length bs" "rest = drop ?n bs"
    using assms b by (auto simp: readU16LenPrefixedBuf_def guardR_def Let_def split: if_splits)
  have "buf = put16 (of_nat (length (take ?n bs))) @ take ?n bs @ rest"
    using b r by (simp add: put16_get16)
  moreover have "unat b0 * 256 + unat b1 < 65536"
    using unat_byte_lt [of b0] unat_byte_lt [of b1] by linarith
  then have "length (take ?n bs) < 2 ^ 16" by (simp add: unat_get16 min.strict_coboundedI2)
  ultimately show ?thesis by blast
qed

lemma verifyServerKeyExchange_keeps:
  assumes "verifyServerKeyExchange X body cert c = (Inr r, c')"
  shows "c' = c"
  using assms
  by (auto simp: verifyServerKeyExchange_def verifyECDHEServerKeyExchange_def verifyDHEServerKeyExchange_def
      bindS_eq_Inr liftS_def Let_def split: if_splits dest: verifySKESignature_Inr(1))

text \<open>What a successful iteration may change: the certificate request and the transcript, which
  grows by the message.\<close>

lemma flightMessage_Inr:
  assumes "flightMessage X cert fl t body c = (Inr r, c')"
  shows "cs_layer c' = cs_layer c" "cs_hsBuf c' = cs_hsBuf c" "cs_suite c' = cs_suite c"
    "cs_params c' = cs_params c" "cs_clientRandom c' = cs_clientRandom c" "cs_serverRandom c' = cs_serverRandom c"
    "cs_transcript c' = Transcript_Write (buildEnvelope t body) (cs_transcript c)"
    "cs_gostLeaf c' = cs_gostLeaf c"
  using assms unfolding flightMessage_def
  by (auto simp: bindS_eq_Inr liftS_def modifyS_def returnS_def transcriptWrite_def assert_Inr
      split: if_splits dest!: verifyServerKeyExchange_keeps)

section \<open>The server flight loop\<close>

lemma flightStep_Inr:
  assumes "flightStep X cert fl c = (Inr r, c')"
  shows "\<exists>t body c1. readHandshakeRecord X c = (Inr (t, body), c1) \<and> flightMessage X cert fl t body c1 = (Inr r, c')"
  using assms by (auto simp: flightStep_def bindS_eq_Inr)

lemma flightStep_progress:
  assumes "flightStep X cert fl c = (Inr r, c')"
  shows "inputLeft c' < inputLeft c \<or> inputLeft c' = inputLeft c \<and> length (cs_hsBuf c') < length (cs_hsBuf c)"
proof -
  from flightStep_Inr [OF assms] obtain t body c1
    where a: "readHandshakeRecord X c = (Inr (t, body), c1)" "flightMessage X cert fl t body c1 = (Inr r, c')" by blast
  show ?thesis
    using readHandshakeRecord_progress [OF a(1)] flightMessage_Inr(1,2) [OF a(2)] by simp
qed

function recvServerFlight_loop ::
  "('x) ccrypto_scheme \<Rightarrow> x509Cert option \<Rightarrow> flight \<Rightarrow> ClientState \<Rightarrow> flight res \<times> ClientState" where
  "recvServerFlight_loop X serverCert fl c =
     (case flightStep X serverCert fl c of
        (Inl e, c') \<Rightarrow> (Inl e, c')
      | (Inr (Inl fl'), c') \<Rightarrow> recvServerFlight_loop X serverCert fl' c'
      | (Inr (Inr fl'), c') \<Rightarrow> (Inr fl', c'))"
  by pat_completeness auto
termination
  by (relation "inv_image (less_than <*lex*> less_than) (\<lambda>(X, cert, fl, c). (inputLeft c, length (cs_hsBuf c)))")
    (auto dest!: flightStep_progress [OF sym])

declare recvServerFlight_loop.simps [simp del]

definition recvServerFlight :: "('x) ccrypto_scheme \<Rightarrow> x509Cert option \<Rightarrow> (ClientState, bytes) sm" where
  "recvServerFlight X serverCert =
     bindS (recvServerFlight_loop X serverCert \<lparr>fl_sawSKE = False, fl_sawCertReq = False, fl_params = []\<rparr>) (\<lambda>fl.
     bindS theSuite (\<lambda>suite.
     if \<not> fl_sawSKE fl \<and> s_KX suite \<in> {KexDHE, KexECDHE}
     then fatal X AlertUnexpectedMessage (Sentinel ''errSKERequired'')
     else returnS (fl_params fl)))"

section \<open>The key exchange\<close>

datatype Exchange =
    ExECDHE
  | ExDHE "bytes option"
  | ExRSA rsaPublicKey
  | ExVKO2001 VKOGost2001Exchange
  | ExVKO2012 VKOGost2012_256Exchange
  | Ex2018 Gost2018Exchange

text \<open>The method of the interface \<open>ke.Exchange\<close>.  The exchanges built with a reader draw from
  \<open>Params.Rand\<close>, the others from \<open>crypto/rand\<close>.\<close>

fun Exchange_ClientKeyExchange ::
  "('x) ccrypto_scheme \<Rightarrow> Exchange \<Rightarrow> bytes \<Rightarrow> (ClientState, bytes \<times> bytes) sm" where
  "Exchange_ClientKeyExchange X ExECDHE sp = withParamsRand (ecdhExchangeWithRand_ClientKeyExchange X sp)"
| "Exchange_ClientKeyExchange X (ExDHE privateX) sp = withSysRand (DHEExchange_ClientKeyExchange X privateX sp)"
| "Exchange_ClientKeyExchange X (ExRSA pub) sp = withParamsRand (rsaExchangeWithRand_ClientKeyExchange X pub sp)"
| "Exchange_ClientKeyExchange X (ExVKO2001 e) sp = withSysRand (VKOGost2001Exchange_ClientKeyExchange X e sp)"
| "Exchange_ClientKeyExchange X (ExVKO2012 e) sp = withSysRand (VKOGost2012_256Exchange_ClientKeyExchange X e sp)"
| "Exchange_ClientKeyExchange X (Ex2018 e) sp = withSysRand (Gost2018Exchange_ClientKeyExchange X e sp)"

definition suiteIDKuznyechik :: u16 where "suiteIDKuznyechik = 0xC100"
definition suiteIDMagma :: u16 where "suiteIDMagma = 0xC101"

definition buildGOST2018Exchange :: "('x) ccrypto_scheme \<Rightarrow> (ClientState, Exchange) sm" where
  "buildGOST2018Exchange X =
     bindS (getS cs_gostLeaf) (\<lambda>leaf.
     case leaf of
       None \<Rightarrow> failS (Sentinel ''errGOST2018NeedGOSTCert'')
     | Some gc \<Rightarrow>
         bindS (liftS (gost_CurveByOID X (gx_CurveOID gc))) (\<lambda>curve.
         bindS theSuite (\<lambda>suite.
         bindS (if s_ID suite = suiteIDKuznyechik then returnS Variant2018Kuznyechik
                else if s_ID suite = suiteIDMagma then returnS Variant2018Magma
                else failS (Sentinel ''errGOST2018UnexpectedID'')) (\<lambda>variant.
         bindS (getS (\<lambda>c. cs_clientRandom c @ cs_serverRandom c)) (\<lambda>randoms.
         bindS (liftS (NewGost2018Exchange (Some curve) (gx_SPKIAlgorithmDER gc) (gx_PubKeyRaw gc) variant (Some randoms))) (\<lambda>e.
         returnS (Ex2018 e)))))))"

definition buildGOSTExchange :: "('x) ccrypto_scheme \<Rightarrow> (ClientState, Exchange) sm" where
  "buildGOSTExchange X =
     bindS (getS cs_gostLeaf) (\<lambda>leaf.
     case leaf of
       None \<Rightarrow> failS (Sentinel ''errGOSTNeedGOSTCert'')
     | Some gc \<Rightarrow>
         bindS (liftS (gost_CurveByOID X (gx_CurveOID gc))) (\<lambda>curve.
         bindS (getS (\<lambda>c. take 8 (cs_clientRandom c))) (\<lambda>ukm.
         bindS theSuite (\<lambda>suite.
         if s_KX suite = KexGOST2001 then
           bindS (withSysRand (NewVKOGost2001Exchange X (Some curve) (gx_SPKIAlgorithmDER gc) (gx_PubKeyRaw gc) ukm))
             (\<lambda>e. returnS (ExVKO2001 e))
         else if s_KX suite = KexGOST2012_256 then
           bindS (withSysRand (NewVKOGost2012_256Exchange X (Some curve) (gx_SPKIAlgorithmDER gc) (gx_PubKeyRaw gc) ukm))
             (\<lambda>e. returnS (ExVKO2012 e))
         else if s_KX suite = KexGOST2018_256 then buildGOST2018Exchange X
         else failS (Sentinel ''errGOSTUnexpectedKXKind'')))))"

text \<open>The exchange the suite calls for; only the GOST ones need the client's state.\<close>

definition chooseExchange ::
  "('x) ccrypto_scheme \<Rightarrow> x509Cert option \<Rightarrow> Suite \<Rightarrow> (ClientState, Exchange) sm" where
  "chooseExchange X cert suite =
     (case s_KX suite of
        KexECDHE \<Rightarrow> returnS ExECDHE
      | KexDHE \<Rightarrow> returnS (ExDHE None)
      | KexRSA \<Rightarrow>
          (case cert of
             None \<Rightarrow> failS (Panic ''nil pointer dereference'')
           | Some crt \<Rightarrow>
               (case x5_PublicKey crt of
                  PubRSA rsaPub \<Rightarrow> returnS (ExRSA rsaPub)
                | _ \<Rightarrow> fatal X AlertBadCertificate (Sentinel ''errRSAKeyExpected'')))
      | _ \<Rightarrow> orFatal X AlertHandshakeFailure (buildGOSTExchange X))"

definition computeKeyExchange ::
  "('x) ccrypto_scheme \<Rightarrow> x509Cert option \<Rightarrow> bytes \<Rightarrow> bytes list \<Rightarrow> (ClientState, bytes \<times> bytes) sm" where
  "computeKeyExchange X cert serverParams rawCerts =
     bindS theSuite (\<lambda>suite.
     bindS (chooseExchange X cert suite) (\<lambda>exchange.
     bindS (orFatal X AlertHandshakeFailure (Exchange_ClientKeyExchange X exchange serverParams)) (\<lambda>(ckeBody, preMaster).
     returnS (preMaster, ckeBody))))"

section \<open>Client authentication\<close>

fun keyCompatible :: "PrivateKey \<Rightarrow> SigAndHash \<Rightarrow> bool" where
  "keyCompatible (PrivRSA k) alg = (sah_Sig alg = sigAlgRSA)"
| "keyCompatible (PrivECDSA k) alg =
     (if sah_Sig alg \<noteq> sigAlgECDSA then False
      else (case ec_Curve (ek_Public k) of
              EllipticP256 \<Rightarrow> sah_Hash alg = sigHashByte
            | EllipticP384 \<Rightarrow> sah_Hash alg = sigHashSHA384
            | _ \<Rightarrow> False))"
| "keyCompatible PrivOther alg = False"

definition zeroSigAndHash :: SigAndHash where
  "zeroSigAndHash = \<lparr>sah_Hash = 0, sah_Sig = 0\<rparr>"

definition selectClientSigAlg :: "ClientState \<Rightarrow> SigAndHash \<times> bool" where
  "selectClientSigAlg c =
     (case (cs_certReq c, p_Certificates (cs_params c)) of
        (Some certReq, cert # _) \<Rightarrow>
          (case find (\<lambda>alg. alg \<in> set (cr_SupportedSignatureAlgs certReq) \<and> keyCompatible (cc_PrivateKey cert) alg)
                  clientSigAlgsAdvertised of
             Some alg \<Rightarrow> (alg, True)
           | None \<Rightarrow> (zeroSigAndHash, False))
      | _ \<Rightarrow> (zeroSigAndHash, False))"

definition sendHandshake :: "('x) ccrypto_scheme \<Rightarrow> Message \<Rightarrow> (ClientState, unit) sm" where
  "sendHandshake X msg =
     (let env = MarshalMessage msg in
      bindS (orFatal X AlertInternalError (onLayer (WriteRecord X ContentTypeHandshake env))) (\<lambda>_.
      transcriptWrite env))"

definition sendClientCertificate :: "('x) ccrypto_scheme \<Rightarrow> (ClientState, bool) sm" where
  "sendClientCertificate X =
     bindS (getS selectClientSigAlg) (\<lambda>(alg, algOK).
     bindS (getS (\<lambda>c. p_Certificates (cs_params c))) (\<lambda>certs.
     let certMsg = (case certs of
                      [] \<Rightarrow> \<lparr>cert_RawCerts = []\<rparr>
                    | cert # _ \<Rightarrow> if \<not> algOK then \<lparr>cert_RawCerts = []\<rparr>
                                  else \<lparr>cert_RawCerts = [cc_RawCertificate cert]\<rparr>) in
     bindS (sendHandshake X (MCertificate certMsg)) (\<lambda>_.
     returnS (algOK \<and> length certs > 0))))"

definition sendCertificateVerify :: "('x) ccrypto_scheme \<Rightarrow> SigAndHash \<Rightarrow> (ClientState, unit) sm" where
  "sendCertificateVerify X alg =
     bindS (orFatal X AlertInternalError (liftS (hashForSigAlg (sah_Hash alg)))) (\<lambda>cryptoHash.
     bindS (getS cs_transcript) (\<lambda>transcript.
     bindS (orFatal X AlertInternalError (liftS (Transcript_Sum (Some (cryptoHash_New X cryptoHash)) transcript))) (\<lambda>digest.
     bindS (getS (\<lambda>c. p_Certificates (cs_params c))) (\<lambda>certs.
     case certs of
       [] \<Rightarrow> failS (Panic ''index out of range'')
     | cert # _ \<Rightarrow>
         bindS (case cc_PrivateKey cert of
                  PrivRSA k \<Rightarrow> orFatal X AlertInternalError (withParamsRand (rsa_SignPKCS1v15 X k cryptoHash digest))
                | PrivECDSA k \<Rightarrow> orFatal X AlertInternalError (withParamsRand (ecdsa_SignASN1 X k digest))
                | PrivOther \<Rightarrow> fatal X AlertInternalError (Sentinel ''errUnsupportedKeyType'')) (\<lambda>sig.
         sendHandshake X (MCertificateVerify \<lparr>cv_Algorithm = alg, cv_Signature = sig\<rparr>))))))"

section \<open>Keys and Finished\<close>

definition expandKeys :: "('x) ccrypto_scheme \<Rightarrow> (ClientState, KeyMaterial \<times> Protector \<times> Protector) sm" where
  "expandKeys X =
     bindS theSuite (\<lambda>suite.
     let ivLen = expandKeysIVLen suite;
         totalLen = 2 * m_KeyLen (s_MAC suite) + 2 * c_KeyLen (s_Cipher suite) + 2 * ivLen in
     if totalLen = 0 then fatal X AlertInternalError (Sentinel ''errKeyExpansionZero'')
     else
       bindS (getS (\<lambda>c. (cs_masterSecret c, cs_clientRandom c, cs_serverRandom c))) (\<lambda>(ms, cr, sr).
       bindS (orFatal X AlertInternalError (liftS (expandKeysManual X suite ms cr sr ivLen))) (\<lambda>km.
       bindS (orFatal X AlertInternalError (liftS (buildProtectors X suite km))) (\<lambda>(sendProt, recvProt).
       returnS (km, sendProt, recvProt)))))"

definition receiveServerFinished :: "('x) ccrypto_scheme \<Rightarrow> bytes \<Rightarrow> Protector \<Rightarrow> (ClientState, unit) sm" where
  "receiveServerFinished X masterSecret recvProt =
     bindS (orFatal X AlertHandshakeFailure (onLayer (ReadRecord X))) (\<lambda>(recvCT, recvPayload).
     if recvCT \<noteq> ContentTypeChangeCipherSpec then fatal X AlertUnexpectedMessage (Sentinel ''errExpectedCCS'')
     else if length recvPayload \<noteq> 1 \<or> recvPayload ! 0 \<noteq> 1
     then fatal X AlertUnexpectedMessage (Sentinel ''errMalformedCCS'')
     else
       bindS (modifyS (\<lambda>c. c\<lparr>cs_layer := ChangeCipherSpec None (Some recvProt) (cs_layer c)\<rparr>)) (\<lambda>_.
       bindS (orFatal X AlertHandshakeFailure (readHandshakeRecord X)) (\<lambda>(t, payload).
       if t \<noteq> TypeFinished then fatal X AlertUnexpectedMessage (Sentinel ''errExpectedFinished'')
       else
         bindS (orFatal X AlertDecryptError (liftS (ParseMessage (buildEnvelope TypeFinished payload)))) (\<lambda>(msg, _).
         case msg of
           MFinished serverFinished \<Rightarrow>
             bindS theSuite (\<lambda>suite.
             bindS (getS cs_transcript) (\<lambda>transcript.
             bindS (orFatal X AlertInternalError (liftS (Transcript_Sum (Some (newHash X (s_PRF suite))) transcript))) (\<lambda>transcriptHash.
             bindS (orFatal X AlertInternalError
                     (liftS (FinishedVerifyData (newHash X) suite masterSecret ''server finished'' transcriptHash))) (\<lambda>expected.
             if \<not> EqualVerifyData (fin_VerifyData serverFinished) expected
             then fatal X AlertDecryptError (Sentinel ''errFinishedMismatch'')
             else
               bindS (getS cs_hsBuf) (\<lambda>hsBuf.
               if length hsBuf \<noteq> 0 then fatal X AlertUnexpectedMessage (Sentinel ''errInterleavedHandshake'')
               else transcriptWrite (buildEnvelope TypeFinished payload))))))
         | _ \<Rightarrow> fatal X AlertDecryptError (Sentinel ''errUnexpectedFinishedType'')))))"

section \<open>The handshake\<close>

text \<open>Step 7.5: the client Certificate, when one was requested.\<close>

definition clientCertificateStep :: "('x) ccrypto_scheme \<Rightarrow> (ClientState, unit) sm" where
  "clientCertificateStep X =
     bindS (getS cs_certReq) (\<lambda>certReq.
     if certReq = None then returnS ()
     else
       bindS (getS selectClientSigAlg) (\<lambda>(alg, _).
       bindS (sendClientCertificate X) (\<lambda>sent.
       if sent then modifyS (\<lambda>c. c\<lparr>cs_clientCertSent := True, cs_clientSigAlg := alg\<rparr>)
       else returnS ())))"

text \<open>Steps 8 to 10: ClientKeyExchange, CertificateVerify, ChangeCipherSpec and Finished.\<close>

definition certificateVerifyStep :: "('x) ccrypto_scheme \<Rightarrow> (ClientState, unit) sm" where
  "certificateVerifyStep X =
     bindS (getS (\<lambda>c. (cs_clientCertSent c, cs_clientSigAlg c))) (\<lambda>(sent, alg).
     if sent then sendCertificateVerify X alg else returnS ())"

definition sendClientFinished :: "('x) ccrypto_scheme \<Rightarrow> bytes \<Rightarrow> Protector \<Rightarrow> (ClientState, unit) sm" where
  "sendClientFinished X masterSecret sendProt =
     bindS (orFatal X AlertInternalError (onLayer (WriteRecord X ContentTypeChangeCipherSpec [1]))) (\<lambda>_.
     bindS (modifyS (\<lambda>c. c\<lparr>cs_layer := ChangeCipherSpec (Some sendProt) None (cs_layer c)\<rparr>)) (\<lambda>_.
     bindS theSuite (\<lambda>suite.
     bindS (getS cs_transcript) (\<lambda>transcript.
     bindS (orFatal X AlertInternalError (liftS (Transcript_Sum (Some (newHash X (s_PRF suite))) transcript))) (\<lambda>transcriptHash.
     bindS (orFatal X AlertInternalError
             (liftS (FinishedVerifyData (newHash X) suite masterSecret ''client finished'' transcriptHash))) (\<lambda>clientVerifyData.
     sendHandshake X (MFinished \<lparr>fin_VerifyData = clientVerifyData\<rparr>)))))))"

definition ClientState_Handshake :: "('x) ccrypto_scheme \<Rightarrow> (ClientState, unit) sm" where
  "ClientState_Handshake X =
     bindS (sendClientHello X) (\<lambda>_.
     bindS (recvServerHello X) (\<lambda>_.
     bindS (recvCertificate X) (\<lambda>(serverCert, serverCertMsg).
     bindS (recvServerFlight X serverCert) (\<lambda>serverKeyExchParams.
     bindS (computeKeyExchange X serverCert serverKeyExchParams (cert_RawCerts serverCertMsg)) (\<lambda>(preMaster, ckeBody).
     bindS theSuite (\<lambda>suite.
     bindS (getS (\<lambda>c. (cs_clientRandom c, cs_serverRandom c))) (\<lambda>(cr, sr).
     bindS (orFatal X AlertInternalError (liftS (MasterSecret (newHash X) suite preMaster cr sr))) (\<lambda>masterSecret.
     bindS (modifyS (\<lambda>c. c\<lparr>cs_masterSecret := masterSecret\<rparr>)) (\<lambda>_.
     bindS (expandKeys X) (\<lambda>(km, sendProt, recvProt).
     bindS (clientCertificateStep X) (\<lambda>_.
     bindS (sendHandshake X (MClientKeyExchange \<lparr>cke_Body = ckeBody\<rparr>)) (\<lambda>_.
     bindS (certificateVerifyStep X) (\<lambda>_.
     bindS (sendClientFinished X masterSecret sendProt) (\<lambda>_.
     bindS (getS cs_hsBuf) (\<lambda>hsBuf.
     if length hsBuf \<noteq> 0 then fatal X AlertUnexpectedMessage (Sentinel ''errInterleavedHandshake'')
     else
       bindS (receiveServerFinished X masterSecret recvProt) (\<lambda>_.
       modifyS (\<lambda>c. c\<lparr>cs_done := True\<rparr>)))))))))))))))))"

end
