(* ===== verification/Instances.thy ===== *)
theory Instances
  imports ClientState
begin

text \<open>
  A concrete environment in which every law assumed of the code outside the repository holds:
  identity block ciphers, tags of zero bytes, a key agreement by exclusive or, and the real
  modular arithmetic.  It shows that the hypotheses of the theorems are satisfiable and is the
  environment their witnesses are evaluated in.
\<close>

section \<open>Primitives\<close>

definition idBlock :: "nat \<Rightarrow> Block" where
  "idBlock n = \<lparr>blk_BlockSize = n, blk_Encrypt = (\<lambda>x. x), blk_Decrypt = (\<lambda>x. x)\<rparr>"

definition zeroTagAEAD :: AEAD where
  "zeroTagAEAD = \<lparr>aead_Overhead = 16, aead_Seal = (\<lambda>n p ad. p @ replicate 16 0),
     aead_Open = (\<lambda>n c ad. if length c < 16 then None else Some (take (length c - 16) c))\<rparr>"

definition zeroHash :: "nat \<Rightarrow> Hash" where
  "zeroHash n = \<lparr>h_Sum = (\<lambda>m. replicate n 0), h_Size = n, h_BlockSize = 64\<rparr>"

definition idGOST :: GOST28147Cipher where
  "idGOST = \<lparr>gc_Encrypt = (\<lambda>x. x), gc_Decrypt = (\<lambda>x. x), gc_SeqMACBlock = (\<lambda>x. x)\<rparr>"

fun cryptoHashSize :: "CryptoHash \<Rightarrow> nat" where
  "cryptoHashSize CryptoSHA1 = 20"
| "cryptoHashSize CryptoSHA256 = 32"
| "cryptoHashSize CryptoSHA384 = 48"
| "cryptoHashSize CryptoSHA512 = 64"

definition exampleLeaf :: x509Cert where
  "exampleLeaf = \<lparr>x5_Raw = [1], x5_PublicKey = PubRSA \<lparr>rsa_N = 15, rsa_E = 3\<rparr>\<rparr>"

definition exampleGOSTLeaf :: x509gostCert where
  "exampleGOSTLeaf = \<lparr>gx_Stdlib = Some exampleLeaf, gx_IsGOST = False, gx_HasGOSTPubKey = False,
     gx_CurveOID = [1, 2], gx_PubKeyRaw = [], gx_SPKIAlgorithmDER = []\<rparr>"

definition exampleEnv :: ccrypto where
  "exampleEnv = \<lparr>
     aes_NewCipher = (\<lambda>k. if length k \<in> {16, 24, 32} then Inr (idBlock 16) else Inl (External ''aes'')),
     cipher_NewGCM = (\<lambda>b. if blk_BlockSize b = 16 then Inr zeroTagAEAD else Inl (External ''gcm'')),
     chacha20poly1305_New = (\<lambda>k. if length k = 32 then Inr zeroTagAEAD else Inl (External ''chacha'')),
     NewGOST28147Cipher = (\<lambda>k sbox. idGOST),
     NewKuznyechikCipher = (\<lambda>k. idBlock 16),
     NewMagmaCipher = (\<lambda>k. idBlock 8),
     NewTLSTreeKuznyechikCTROMAC = (\<lambda>k seq. k),
     NewTLSTreeMagmaCTROMAC = (\<lambda>k seq. k),
     NewOMAC = (\<lambda>b n. Inr (\<lambda>m. replicate n 0)),
     NewCTRACPKM = (\<lambda>nb k iv s. Inr (\<lambda>x. x)),
     newHash = (\<lambda>f. zeroHash (hashFnSize f)),
     ecdh_NewPublicKey = (\<lambda>c b. Inr b),
     ecdh_NewPrivateKey = (\<lambda>c b. Inr b),
     ecdh_GenerateKey = (\<lambda>c. ReadFull 32),
     ecdh_PublicKey = (\<lambda>c a. take 255 a),
     ecdh_ECDH = (\<lambda>c a B. Inr (xorb (take 255 a) B)),
     rsa_EncryptPKCS1v15 = (\<lambda>pub m. if length m < 65536 then returnS m else failS (External ''rsa'')),
     bigmod_NewModulus = (\<lambda>b. if 1 < be_val b then Inr (be_val b) else Inl (External ''bigmod'')),
     bigmod_SetBytes = (\<lambda>b m. if be_val b < m then Inr (be_val b) else Inl (External ''bigmod'')),
     bigmod_SetOverflowingBytes = (\<lambda>b m. if byteSize (be_val b) \<le> byteSize m then Inr (be_val b mod m) else Inl (External ''bigmod'')),
     bigmod_Exp = (\<lambda>x e m. x ^ be_val e mod m),
     bigmod_Bytes = (\<lambda>x m. be_bytes (byteSize m) x),
     gost_CurveByOID = (\<lambda>i. Inr (GostCurve i)),
     gost_GenerateEphemeralKey = (\<lambda>c. bindS (ReadFull 32) (\<lambda>p. returnS (p, p))),
     gost_VKO2001OnCurve = (\<lambda>c a B ukm. Inr (replicate 32 0)),
     gost_VKO2012_256OnCurve = (\<lambda>c a B ukm. Inr (replicate 32 0)),
     gost_VKO2001TestCurve = (\<lambda>a B ukm. Inr (replicate 32 0)),
     gost_PublicKeyRawFromPrivate2001Test = (\<lambda>a. Inr a),
     gost_KeyWrapCryptoPro = (\<lambda>sbox kek ukm pm. if length pm = 32 then Inr (ukm @ pm @ replicate 4 0) else Inl (External ''wrap'')),
     gost_Streebog256 = (\<lambda>m. replicate 32 0),
     gost_KEG2012_256 = (\<lambda>c B a ukm. Inr (replicate 64 0)),
     gost_Kexp15 = (\<lambda>v pm ck mk iv. if length pm = 32 then Inr pm else Inl (External ''kexp'')),
     cryptoHash_New = (\<lambda>h. zeroHash (cryptoHashSize h)),
     rsa_VerifyPKCS1v15 = (\<lambda>pub h d s. if s = d then Inr () else Inl (External ''rsa'')),
     ecdsa_Verify = (\<lambda>pub d r s. True),
     rsa_SignPKCS1v15 = (\<lambda>k h d. returnS d),
     ecdsa_SignASN1 = (\<lambda>k d. returnS d),
     x509_ParseCertificate = (\<lambda>b. Inr exampleLeaf),
     x509_Verify = (\<lambda>c opts. Inr [[c]]),
     x509gost_ParseCertificate = (\<lambda>b. Inr exampleGOSTLeaf),
     x509gost_Verify = (\<lambda>c opts. Inr [[c]]),
     time_Now = 0\<rparr>"

section \<open>It satisfies every law\<close>

lemma idBlock_ok: "0 < n \<Longrightarrow> blk_ok (idBlock n)"
  by (simp add: blk_ok_def idBlock_def)

lemma zeroTagAEAD_ok: "aead_ok zeroTagAEAD"
  by (simp add: aead_ok_def zeroTagAEAD_def)

lemma zeroHash_ok: "hash_ok (zeroHash n)"
  by (simp add: hash_ok_def zeroHash_def)

lemma identity_stream_ok: "stream_ok (\<lambda>x. x)"
proof -
  have "x = xorb x (map (\<lambda>_. 0) [0..<length x])" for x
    by (rule nth_equalityI) (simp_all add: xorb_def)
  then show ?thesis unfolding stream_ok_def by (intro exI [of _ "\<lambda>_. 0"]) blast
qed

lemma exampleEnv_rcrypto_ok: "rcrypto_ok exampleEnv"
  unfolding rcrypto_ok_def omac_ok_def ctr_acpkm_ok_def gost_ok_def gcipher_ok_def
  by (simp add: exampleEnv_def idBlock_ok zeroTagAEAD_ok identity_stream_ok idGOST_def)
    (simp add: idBlock_def)

lemma exampleEnv_hashes_ok: "hashes_ok (newHash exampleEnv)"
  by (simp add: hashes_ok_def exampleEnv_def zeroHash_ok) (simp add: zeroHash_def)

lemma xorb_commute: "xorb xs ys = xorb ys xs"
  by (rule nth_equalityI) (auto simp: xor.commute)

lemma exampleEnv_ecdh_ok: "ecdh_ok exampleEnv"
  unfolding ecdh_ok_def by (simp add: exampleEnv_def xorb_commute min_less_iff_disj)

lemma byteSize_gt: "m < 256 ^ byteSize m"
proof (induction m rule: byteSize.induct)
  case (1 m)
  show ?case
  proof (cases "m = 0")
    case False
    then have "m div 256 < 256 ^ byteSize (m div 256)" by (rule 1)
    then have "m < 256 * 256 ^ byteSize (m div 256)" by (simp add: div_less_iff_less_mult mult.commute)
    then show ?thesis using False by (subst byteSize.simps) simp
  qed (simp add: byteSize.simps)
qed

lemma exampleEnv_bigmod_ok: "bigmod_ok exampleEnv"
proof -
  have "x < 256 ^ byteSize m" if "x < m" for x m using byteSize_gt [of m] that by simp
  then show ?thesis
    unfolding bigmod_ok_def by (simp add: exampleEnv_def be_val_be_bytes)
qed

definition exampleUnwrap :: "Sbox \<Rightarrow> bytes \<Rightarrow> bytes \<Rightarrow> bytes option" where
  "exampleUnwrap sbox kek w = Some (slice 8 40 w)"

definition exampleKimp :: "KexpVariant \<Rightarrow> bytes \<Rightarrow> bytes \<Rightarrow> bytes \<Rightarrow> bytes \<Rightarrow> bytes option" where
  "exampleKimp v w ck mk iv = Some w"

lemma exampleEnv_wrap_ok: "wrap_ok exampleEnv exampleUnwrap"
  unfolding wrap_ok_def by (auto simp: exampleEnv_def exampleUnwrap_def slice_def split: if_splits)

lemma exampleEnv_kexp_ok: "kexp_ok exampleEnv exampleKimp"
  unfolding kexp_ok_def by (auto simp: exampleEnv_def exampleKimp_def split: if_splits)

lemma exampleEnv_gost_pair: "gost_pair exampleEnv c a A \<longleftrightarrow> A = a \<and> length a = 32"
proof
  assume "gost_pair exampleEnv c a A"
  then show "A = a \<and> length a = 32"
    by (auto simp: gost_pair_def exampleEnv_def bindS_eq_Inr dest: ReadFull_Inr)
next
  assume "A = a \<and> length a = 32"
  then have "gost_GenerateEphemeralKey exampleEnv c \<lparr>r_data = a, r_err = EOF\<rparr> = (Inr (a, A), \<lparr>r_data = [], r_err = EOF\<rparr>)"
    by (simp add: exampleEnv_def ReadFull_def bindS_def)
  then show "gost_pair exampleEnv c a A" unfolding gost_pair_def by blast
qed

lemma exampleEnv_gost_keys_ok: "gost_keys_ok exampleEnv"
  unfolding gost_keys_ok_def exampleEnv_gost_pair by (simp add: exampleEnv_def)

section \<open>An algorithm identifier\<close>

definition exampleSPKIAlgorithm :: bytes where "exampleSPKIAlgorithm = [0x30, 3, 6, 1, 42]"

lemma exampleSPKIAlgorithm_parses:
  "unmarshalAlgorithmIdentifier exampleSPKIAlgorithm = Inr \<lparr>alg_Algorithm = [1, 2], alg_Parameters = zeroRawValue\<rparr>"
  by (simp add: exampleSPKIAlgorithm_def unmarshalAlgorithmIdentifier_def parseElem_def parseTagAndLength_def
      parseLength_def parseObjectIdentifier_def parseBase128Int_def parseOIDTail.simps guardR_def)

lemma exampleSPKIAlgorithm_marshals:
  "marshalAlgorithmIdentifier \<lparr>alg_Algorithm = [1, 2], alg_Parameters = zeroRawValue\<rparr> = Inr exampleSPKIAlgorithm"
  by code_simp

section \<open>A suite, its keys and a layer\<close>

definition exampleSuite :: Suite where
  "exampleSuite = \<lparr>s_ID = suiteRSAAES128GCMSHA256, s_Name = ''AES128-GCM-SHA256'', s_KX = KexRSA, s_Auth = AuthRSA,
     s_Cipher = specAES128GCM, s_MAC = specNoMAC, s_PRF = SHA256New\<rparr>"

definition exampleKeys :: KeyMaterial where
  "exampleKeys = \<lparr>km_ClientMACKey = [], km_ServerMACKey = [], km_ClientEncKey = replicate 16 0, km_ServerEncKey = replicate 16 0,
     km_ClientIV = replicate 4 0, km_ServerIV = replicate 4 0\<rparr>"

definition exampleAEAD :: aeadProtector where
  "exampleAEAD = \<lparr>ap_aead = zeroTagAEAD, ap_salt = replicate 4 0\<rparr>"

definition exampleNet :: "bytes \<Rightarrow> net" where
  "exampleNet input = \<lparr>n_in = \<lparr>r_data = input, r_err = EOF\<rparr>, n_out = [], n_plan = [],
     n_rand = \<lparr>r_data = replicate 300 7, r_err = EOF\<rparr>\<rparr>"

lemma exampleSuite_registered: "exampleSuite \<in> set allSuites"
  by (simp add: allSuites_def rsaKxSuites_def exampleSuite_def specPRFSHA256_def)

lemma hmac_zeroHash [simp]: "hmac (zeroHash n) k m = replicate n 0"
  by (simp add: hmac_def zeroHash_def)

lemma prf_blocks_zeroHash: "prf_blocks (zeroHash n) secret seed k = replicate (k * n) 0"
  by (induction k) (simp_all add: prf_blocks_Suc replicate_add [symmetric] add.commute, simp add: prf_blocks_def)

lemma PRF_zeroHash:
  assumes "0 < n" "label \<noteq> []" "0 < outLen"
  shows "PRF (zeroHash n) secret label seed outLen = Inr (replicate outLen 0)"
proof -
  have "outLen \<le> outLen * h_Size (zeroHash n)" using assms(1) by (simp add: zeroHash_def)
  from pHash_eq [OF zeroHash_ok _ this] assms show ?thesis
    by (simp add: PRF_def prf_blocks_zeroHash zeroHash_def [of n, THEN arg_cong, of h_Size])
qed

lemma newHash_exampleEnv [simp]: "newHash exampleEnv f = zeroHash (hashFnSize f)"
  by (simp add: exampleEnv_def)

lemma exampleSuite_ivLen: "expandKeysIVLen exampleSuite = 4"
  by code_simp

lemma exampleSuite_keys:
  "expandKeysManual exampleEnv exampleSuite ms cr sr (expandKeysIVLen exampleSuite) = Inr exampleKeys"
proof -
  have l: "m_KeyLen (s_MAC exampleSuite) = 0" "c_KeyLen (s_Cipher exampleSuite) = 16"
    "hashFnSize (s_PRF exampleSuite) = 32" "bytes_of ''key expansion'' \<noteq> []" by code_simp+
  have "splitKeyBlock 0 16 4 (replicate 40 0) = exampleKeys" by code_simp
  then show ?thesis by (simp add: expandKeysManual_def exampleSuite_ivLen l PRF_zeroHash)
qed

lemma exampleSuite_protectors:
  "buildProtectors exampleEnv exampleSuite exampleKeys = Inr (AEADProtector exampleAEAD, AEADProtector exampleAEAD)"
proof -
  have "buildProtector exampleEnv exampleSuite (replicate 16 0) [] (replicate 4 0) = Inr (AEADProtector exampleAEAD)"
    by (simp add: buildProtector_def exampleSuite_def specAES128GCM_def NewAEADProtector_def guardR_def aeadSaltLen_def
        exampleEnv_def idBlock_def exampleAEAD_def)
  then show ?thesis by (simp add: buildProtectors_def exampleKeys_def)
qed

lemma exampleEnv_writes:
  "WriteRecord exampleEnv 23 [1, 2, 3] (ChangeCipherSpec (Some (AEADProtector exampleAEAD)) None (NewLayer (exampleNet input))) =
   (Inr (), (ChangeCipherSpec (Some (AEADProtector exampleAEAD)) None (NewLayer (exampleNet input)))
     \<lparr>l_sendSeq := 1, l_rw := (exampleNet input)\<lparr>n_out := record_bytes 23 ([0, 0, 0, 0, 0, 0, 0, 0, 1, 2, 3] @ replicate 16 0)\<rparr>\<rparr>)"
  by (simp add: WriteRecord_def ChangeCipherSpec_def NewLayer_def NewLayerWithSeq_def exampleNet_def layer_Seal_def
      layer_Write_def net_Write_def isKnownContentType_def content_type_defs record_const_defs record_bytes_def
      aeadProtector_Seal_def exampleAEAD_def zeroTagAEAD_def put64_def bindS_def modifyS_def Let_def)


definition exampleMagma :: ctrOMACProtector where
  "exampleMagma = \<lparr>co_newBlock = NewMagmaCipher exampleEnv, co_blockSize = 8, co_tagSize = 8, co_origIV = replicate 4 0,
     co_encTree = NewTLSTreeMagmaCTROMAC exampleEnv (replicate 32 0),
     co_macTree = NewTLSTreeMagmaCTROMAC exampleEnv (replicate 32 0), co_acpkmSection = 1024\<rparr>"

definition exampleCBC :: cbcHMACProtector where
  "exampleCBC = \<lparr>cbc_newCipher = aes_NewCipher exampleEnv, cbc_newHash = zeroHash 20, cbc_encKey = replicate 16 0,
     cbc_macKey = replicate 20 0, cbc_blockSize = 16, cbc_macSize = 20\<rparr>"

lemma exampleCBC_ok: "cbc_ok exampleCBC"
  by (simp add: cbc_ok_def exampleCBC_def zeroHash_ok exampleEnv_def idBlock_ok)
    (simp add: zeroHash_def idBlock_def)

lemma exampleEnv_gost_ok: "gost_ok exampleEnv"
  using exampleEnv_rcrypto_ok by (simp add: rcrypto_ok_def)

lemma idGOST_ok: "gcipher_ok idGOST"
  by (simp add: gcipher_ok_def idGOST_def)


text \<open>A transport that accepts a record's header and then fails in the middle of its fragment.\<close>

definition exampleFailingLayer :: Layer where
  "exampleFailingLayer = ChangeCipherSpec (Some (AEADProtector exampleAEAD)) None
     (NewLayer ((exampleNet [])\<lparr>n_plan := [None, Some 10]\<rparr>))"

lemmas layer_eval_simps = WriteRecord_def ChangeCipherSpec_def NewLayer_def NewLayerWithSeq_def exampleNet_def layer_Seal_def
  layer_Write_def net_Write_def isKnownContentType_def content_type_defs record_const_defs record_bytes_def
  aeadProtector_Seal_def exampleAEAD_def zeroTagAEAD_def put64_def put16_def bindS_def modifyS_def Let_def


definition exampleReader :: reader where
  "exampleReader = \<lparr>r_data = replicate 300 7, r_err = EOF\<rparr>"

lemma exampleEnv_master:
  "MasterSecret (newHash exampleEnv) exampleSuite pm (replicate 32 2) (replicate 32 3) = Inr (replicate 48 0)"
proof -
  have "bytes_of ''master secret'' \<noteq> []" "hashFnSize (s_PRF exampleSuite) = 32" by code_simp+
  then show ?thesis by (simp add: MasterSecret_def PRF_zeroHash)
qed


text \<open>The server's view: its premaster secret leads to the client's key block.\<close>

definition exampleSameKeys :: "bytes \<Rightarrow> bool" where
  "exampleSameKeys pm \<longleftrightarrow>
     bindR (MasterSecret (newHash exampleEnv) exampleSuite pm (replicate 32 2) (replicate 32 3))
       (\<lambda>ms. KeyExpansion (newHash exampleEnv) exampleSuite ms (replicate 32 2) (replicate 32 3)) =
     KeyExpansion (newHash exampleEnv) exampleSuite (replicate 48 0) (replicate 32 2) (replicate 32 3)"

definition exampleDHEParams :: bytes where
  "exampleDHEParams = put16 256 @ (1 # replicate 254 0 @ [1]) @ put16 1 @ [3] @ put16 1 @ [3]"


lemma exampleSPKIAlgorithm_nonempty: "exampleSPKIAlgorithm \<noteq> []"
  by (simp add: exampleSPKIAlgorithm_def)

lemma exampleEnv_gkt:
  assumes "length pub < 2 ^ 20"
  shows "\<exists>cke. marshalGOSTKeyTransport exampleSPKIAlgorithm pub e i oidGost28147CryptoProA u = Inr cke"
    and "\<exists>cke. marshalGOSTKeyTransport exampleSPKIAlgorithm pub e i oidTc26Gost28147ParamZ u = Inr cke"
proof -
  have a: "exampleSPKIAlgorithm = derElem tagSequence [6, 1, 42]" by code_simp
  have "length (concat (map der_enc (spki_der exampleSPKIAlgorithm pub))) < 2 ^ 31"
    using spki_pub_der(2) [of pub "[6, 1, 42]"] assms unfolding a by simp
  from marshalGOSTKeyTransport_der [OF exampleSPKIAlgorithm_parses exampleSPKIAlgorithm_marshals _ this] cipher_oids
  show "\<exists>cke. marshalGOSTKeyTransport exampleSPKIAlgorithm pub e i oidGost28147CryptoProA u = Inr cke"
    and "\<exists>cke. marshalGOSTKeyTransport exampleSPKIAlgorithm pub e i oidTc26Gost28147ParamZ u = Inr cke" by blast+
qed

end
