(* ===== verification/WireProperties.thy ===== *)
theory WireProperties
  imports Handshake Instances
begin

text \<open>
  Properties of the wire formats: handshake messages, the extension block, and the DER
  envelopes of the GOST key exchanges.
\<close>

section \<open>Handshake messages\<close>

text \<open>C22 (round trip).  A well-formed message of any type the client can serialise, marshalled
  with its envelope and followed by any other bytes, is parsed back to the same message, and
  exactly the other bytes remain.\<close>

theorem message_roundtrip:
  assumes "msg_wf m" "length (Marshal m) < 16777216" "length (Marshal m) + length rest < 2 ^ 32"
  shows "ParseMessage (MarshalMessage m @ rest) = Inr (m, rest)"
  using ParseMessage_envelope [OF assms(2,3), of "msgType m"] parseBody_Marshal [OF assms(1)]
  by (simp add: MarshalMessage_eq)

definition exampleHello :: ClientHello where
  "exampleHello = clientHelloOf
     \<lparr>p_Rand = None, p_ServerName = [97, 46, 98], p_OfferedSuites = [0xC02F, 0x009C], p_RootCAs = None,
      p_InsecureSkipVerify = False, p_VerifyPeerCertificate = None, p_GOSTRoots = AnyNil,
      p_GOSTIntermediates = AnyNil, p_Certificates = []\<rparr> (replicate 32 7)"

lemma exampleHello_fits: "ext_fits (ch_extensions exampleHello)" "marshalExtensions (ch_extensions exampleHello) \<noteq> []"
proof -
  have "length (frame (ext_entries (ch_extensions exampleHello))) = 55" by code_simp
  moreover have "length (pe_ECPointFormats (ch_extensions exampleHello)) = 1" by code_simp
  ultimately show "ext_fits (ch_extensions exampleHello)" by (simp add: ext_fits_def)
  have "length (marshalExtensions (ch_extensions exampleHello)) = 57" by code_simp
  then show "marshalExtensions (ch_extensions exampleHello) \<noteq> []" by auto
qed

lemma exampleHello_wf: "ch_wf exampleHello"
  using exampleHello_fits
  by (simp add: ch_wf_def msg_size_defs) (simp add: exampleHello_def clientHelloOf_def)

theorem message_roundtrip_witness:
  "ParseMessage (MarshalMessage (MClientHello exampleHello) @ [1, 2]) = Inr (MClientHello exampleHello, [1, 2])"
proof -
  have "length (Marshal (MClientHello exampleHello)) = 100" by code_simp
  then show ?thesis
    using message_roundtrip [of "MClientHello exampleHello" "[1, 2]"] exampleHello_wf by simp
qed

text \<open>\<open>ParseMessage\<close> accepts exactly the framed bodies: a message and a remainder are
  returned if and only if the input is the type byte, the 24-bit length, a body of that length
  that parses to the message, and the remainder.\<close>

lemma ParseMessage_accepts:
  assumes "length data < 2 ^ 32"
  shows "ParseMessage data = Inr (m, rest) \<longleftrightarrow>
    (\<exists>body. data = msgType m # put24 (of_nat (length body)) @ body @ rest
      \<and> length body < 16777216 \<and> parseBody (msgType m) body = Inr m)"
proof
  assume "\<exists>body. data = msgType m # put24 (of_nat (length body)) @ body @ rest
      \<and> length body < 16777216 \<and> parseBody (msgType m) body = Inr m"
  then obtain body where b: "data = msgType m # put24 (of_nat (length body)) @ body @ rest"
    "length body < 16777216" "parseBody (msgType m) body = Inr m" by blast
  then have "length body + length rest < 2 ^ 32" using assms by simp
  with ParseMessage_envelope [OF b(2), of rest "msgType m"] b(1,3)
  show "ParseMessage data = Inr (m, rest)" by simp
qed (rule ParseMessage_Inr)

lemma ParseMessage_accepts_witness:
  "ParseMessage [14, 0, 0, 0, 9] = Inr (MServerHelloDone, [9])"
proof -
  have "[14, 0, 0, 0, 9] = msgType MServerHelloDone # put24 (of_nat (length ([] :: bytes))) @ [] @ [9]"
    "parseBody (msgType MServerHelloDone) [] = Inr MServerHelloDone" by code_simp+
  then show ?thesis using ParseMessage_accepts [of "[14, 0, 0, 0, 9]" MServerHelloDone "[9]"] by fastforce
qed

text \<open>C36.  The Certificate parser accepts exactly the canonical serialisation of a non-degenerate
  certificate list: no two byte strings decode to the same list and no entry is empty.\<close>

theorem parseCertificate_canonical:
  "parseCertificate b = Inr m \<longleftrightarrow> cert_wf m \<and> b = Certificate_Marshal m"
  using parseCertificate_Marshal parseCertificate_Inr by blast

text \<open>C37.  The extension block the parser accepts is a sequence of well-framed entries whose
  types are pairwise different, all known, and reported in order; the two flag extensions are
  reported exactly when they occur.\<close>

theorem parseExtensions_accepts:
  assumes "parseExtensions d = Inr (ext, types)"
  shows "\<exists>es. d = frame es \<and> types = map fst es \<and> distinct types \<and> set types \<subseteq> set knownExtensions
    \<and> (pe_ExtendedMasterSecret ext \<longleftrightarrow> extExtendedMasterSecret \<in> set types)
    \<and> (pe_RenegotiationInfo ext \<longleftrightarrow> extRenegotiationInfo \<in> set types)"
proof -
  from assms obtain es where es: "d = frame es" "\<forall>(t, b) \<in> set es. length b < 65536"
    using parseExtensions_loop_is_framed unfolding parseExtensions_def by blast
  then have "parse_entries noExtensions [] es = Inr (ext, types)"
    using assms parseExtensions_loop_frame [OF es(2)] by (simp add: parseExtensions_def)
  from parse_entries_Inr [OF this] es(1) show ?thesis
    by (intro exI [of _ es]) (auto simp: noExtensions_def)
qed

theorem parseExtensions_accepts_witness:
  "\<exists>es. [0xFF, 1, 0, 1, 0] = frame es \<and> map fst es = [0xFF01]"
proof -
  have "parseExtensions [0xFF, 1, 0, 1, 0] = Inr (noExtensions\<lparr>pe_RenegotiationInfo := True\<rparr>, [0xFF01])"
    by code_simp
  from parseExtensions_accepts [OF this] show ?thesis by auto
qed

section \<open>DER envelopes of the GOST key exchanges\<close>

text \<open>The GOST\_KEY\_TRANSPORT envelope the client sends decodes, by a reader of the
  ASN.1 structure written independently of the marshaller, to the ephemeral public key, the
  wrapped key, the MAC and the user keying material that went in.\<close>

lemma gost_keytransport_roundtrip:
  assumes "marshalGOSTKeyTransport spkiAlgo pub encKey imit cipherOID ephIV = Inr cke"
    and "length spkiAlgo < 2 ^ 20" "length pub < 2 ^ 20" "length encKey < 2 ^ 20" "length imit < 2 ^ 20"
      "length ephIV < 2 ^ 20" "cipherOID = oidTc26Gost28147ParamZ \<or> cipherOID = oidGost28147CryptoProA"
  shows "gkt_decode cke = Inr (pub, encKey, imit, ephIV)"
proof -
  obtain cipher where c: "derOID cipherOID = Inr (derElem tagOID cipher)" "length cipher < 2 ^ 20"
    using assms(7) cipher_oids by fastforce
  obtain inner where i: "length inner < 2 ^ 29"
    "cke = der_enc (gkt_der (derElem tagSequence inner) pub encKey imit (derElem tagOID cipher) ephIV)"
    using marshalGOSTKeyTransport_Inr [OF assms(1) c(1)] assms(2,3) by fastforce
  show ?thesis using gkt_decode_der [of pub inner encKey imit cipher ephIV] i c(2) assms by simp
qed

lemma gost_keytransport_roundtrip_witness:
  "\<exists>cke. marshalGOSTKeyTransport exampleSPKIAlgorithm [1, 2] [3] [4] oidGost28147CryptoProA [5] = Inr cke \<and>
    gkt_decode cke = Inr ([1, 2], [3], [4], [5])"
proof -
  have "length (concat (map der_enc (spki_der exampleSPKIAlgorithm [1, 2]))) = 12" by code_simp
  then obtain cke where c: "marshalGOSTKeyTransport exampleSPKIAlgorithm [1, 2] [3] [4] oidGost28147CryptoProA [5] = Inr cke"
    using marshalGOSTKeyTransport_der [OF exampleSPKIAlgorithm_parses exampleSPKIAlgorithm_marshals cipher_oids(1), of "[1, 2]"]
    by auto
  show ?thesis using gost_keytransport_roundtrip [OF c] c by (simp add: exampleSPKIAlgorithm_def)
qed

end
