(* ===== verification/RecordProperties.thy ===== *)
theory RecordProperties
  imports Handshake Instances
begin

text \<open>
  Properties of record protection and of the record layer.
\<close>

section \<open>Every suite protects the stream\<close>

text \<open>C20 (liveness).  For each of the registered suites, whatever the master secret and the randoms,
  key setup succeeds: the key block is derived and both protectors are built, and each is a
  working pair with a peer that holds the same keys.\<close>

theorem suite_protectors_build:
  assumes "rcrypto_ok X" "hashes_ok (newHash X)" "s \<in> set allSuites"
  shows "\<exists>km p q. expandKeysManual X s ms cr sr (expandKeysIVLen s) = Inr km \<and>
    buildProtectors X s km = Inr (p, q) \<and> peerP X p p \<and> peerP X q q"
  by (rule buildProtectors_ok [OF assms(1,2) allSuites_params [OF assms(3)]])

theorem suite_protectors_build_witness:
  "\<exists>km p q. expandKeysManual exampleEnv (gostSuites ! 4) [1] [2] [3] (expandKeysIVLen (gostSuites ! 4)) = Inr km \<and>
    buildProtectors exampleEnv (gostSuites ! 4) km = Inr (p, q) \<and> peerP exampleEnv p p \<and> peerP exampleEnv q q"
proof -
  have "gostSuites ! 4 \<in> set allSuites" by (simp add: allSuites_def gostSuites_def)
  then show ?thesis by (rule suite_protectors_build [OF exampleEnv_rcrypto_ok exampleEnv_hashes_ok])
qed

text \<open>C19 (round trip).  Whatever records a side writes under the keys of a registered suite, the peer
  that installed the same keys reads exactly those records, in order, and leaves the bytes behind
  them unread.\<close>

theorem suite_channel_roundtrip:
  assumes "rcrypto_ok X" "hashes_ok (newHash X)" "s \<in> set allSuites"
    and "expandKeysManual X s ms cr sr (expandKeysIVLen s) = Inr km" "buildProtectors X s km = Inr (p, q)"
    and "WriteRecords X rs (ChangeCipherSpec (Some p) None l) = (Inr (), l')"
    and "n_out (l_rw l') = n_out (l_rw l) @ wire" "r_data (n_in (l_rw peer)) = wire @ rest"
  shows "\<exists>peer'. ReadRecords X (length rs) (ChangeCipherSpec None (Some p) peer) = (Inr rs, peer') \<and>
    r_data (n_in (l_rw peer')) = rest"
proof -
  have "peerP X p p"
    using buildProtectors_ok [OF assms(1,2) allSuites_params [OF assms(3)], of ms cr sr] assms(4,5) by auto
  then have "in_sync X (ChangeCipherSpec (Some p) None l) (ChangeCipherSpec None (Some p) peer)"
    by (simp add: in_sync_def ChangeCipherSpec_def)
  from ReadRecords_WriteRecords [OF this assms(6)] assms(7,8) show ?thesis
    by (fastforce simp: ChangeCipherSpec_def)
qed

theorem suite_channel_roundtrip_witness:
  "\<exists>peer'. ReadRecords exampleEnv 1
      (ChangeCipherSpec None (Some (AEADProtector exampleAEAD))
        (NewLayer (exampleNet (record_bytes 23 ([0, 0, 0, 0, 0, 0, 0, 0, 1, 2, 3] @ replicate 16 0) @ [9])))) =
      (Inr [(23, [1, 2, 3])], peer') \<and> r_data (n_in (l_rw peer')) = [9]"
proof -
  let ?w = "record_bytes 23 ([0, 0, 0, 0, 0, 0, 0, 0, 1, 2, 3] @ replicate 16 0)"
  have "WriteRecords exampleEnv [(23, [1, 2, 3])]
      (ChangeCipherSpec (Some (AEADProtector exampleAEAD)) None (NewLayer (exampleNet []))) =
    (Inr (), (ChangeCipherSpec (Some (AEADProtector exampleAEAD)) None (NewLayer (exampleNet [])))
     \<lparr>l_sendSeq := 1, l_rw := (exampleNet [])\<lparr>n_out := ?w\<rparr>\<rparr>)"
    by (simp add: exampleEnv_writes bindS_def returnS_def)
  from suite_channel_roundtrip [OF exampleEnv_rcrypto_ok exampleEnv_hashes_ok exampleSuite_registered
      exampleSuite_keys exampleSuite_protectors this, of ?w "NewLayer (exampleNet (?w @ [9]))" "[9]"]
  show ?thesis by (simp add: exampleNet_def NewLayer_def NewLayerWithSeq_def)
qed

section \<open>Sequence numbers and nonces\<close>

text \<open>A run of writes never lets the 64-bit sequence number wrap: it advances by exactly
  one per record.\<close>

lemma WriteRecords_sequence:
  assumes "WriteRecords X rs l = (Inr (), l')"
  shows "unat (l_sendSeq l') = unat (l_sendSeq l) + length rs"
  using assms
proof (induction rs arbitrary: l)
  case (Cons rc rs)
  obtain ct payload where rc: "rc = (ct, payload)" by (cases rc)
  from Cons.prems rc obtain l1 where w: "WriteRecord X ct payload l = (Inr (), l1)"
    and ws: "WriteRecords X rs l1 = (Inr (), l')" by (auto simp: bindS_eq_Inr)
  have "l_sendSeq l1 = l_sendSeq l + 1" "l_sendSeq l \<noteq> - 1" using w by (auto elim!: WriteRecord_Inr)
  then have "unat (l_sendSeq l1) = Suc (unat (l_sendSeq l))"
    by (simp add: u64_Suc)
  with Cons.IH [OF ws] show ?case by simp
qed simp

lemma WriteRecords_sequence_witness:
  "unat (l_sendSeq (snd (WriteRecords exampleEnv [(23, [1, 2, 3])]
      (ChangeCipherSpec (Some (AEADProtector exampleAEAD)) None (NewLayer (exampleNet [])))))) = 1"
proof -
  let ?l = "ChangeCipherSpec (Some (AEADProtector exampleAEAD)) None (NewLayer (exampleNet []))"
  obtain l' where w: "WriteRecords exampleEnv [(23, [1, 2, 3])] ?l = (Inr (), l')"
    by (simp add: exampleEnv_writes bindS_def returnS_def)
  from WriteRecords_sequence [OF w] w show ?thesis by (simp add: ChangeCipherSpec_def)
qed

text \<open>C32 (safety).  For AES-GCM and ChaCha20-Poly1305 the nonce of a protected record determines its
  64-bit sequence number.  For the CTR-OMAC suites the initial counter of a record determines the
  sequence number modulo \<open>256^n\<close>, where \<open>n\<close> is the length of the IV of the key block, and no more: it is
  the whole number for the eight bytes of Kuznyechik, while for the four bytes of Magma counters
  repeat, but only between records a multiple of \<open>2^32\<close> apart.\<close>

theorem nonce_determines_sequence:
  assumes "length (cp_iv c) = 12" "co_shape o1"
  shows "(aead_buildNonce p (put64 s1) = aead_buildNonce p (put64 s2) \<longleftrightarrow> s1 = s2)
    \<and> (chacha_buildNonce c s1 = chacha_buildNonce c s2 \<longleftrightarrow> s1 = s2)
    \<and> (adjustIV o1 s1 = adjustIV o1 s2 \<longleftrightarrow>
         unat s1 mod 256 ^ length (co_origIV o1) = unat s2 mod 256 ^ length (co_origIV o1))
    \<and> (length (co_origIV o1) = 8 \<longrightarrow> (adjustIV o1 s1 = adjustIV o1 s2 \<longleftrightarrow> s1 = s2))
    \<and> (length (co_origIV o1) = 4 \<and> adjustIV o1 s1 = adjustIV o1 s2 \<and> s1 < s2 \<longrightarrow> unat s1 + 2 ^ 32 \<le> unat s2)"
proof -
  note iv = adjustIV_eq_iff [OF assms(2), of s1 s2]
  have small: "unat s mod 256 ^ 8 = unat s" for s :: u64 using unsigned_less [of s] by simp
  have "length (co_origIV o1) = 8 \<longrightarrow> (adjustIV o1 s1 = adjustIV o1 s2 \<longleftrightarrow> s1 = s2)"
    unfolding iv using small word_unat_eq_iff [of s1 s2] by simp
  moreover have "unat s1 + 2 ^ 32 \<le> unat s2" if "length (co_origIV o1) = 4" "adjustIV o1 s1 = adjustIV o1 s2" "s1 < s2"
  proof -
    have lt: "unat s1 < unat s2" using that(3) by (simp add: word_less_nat_alt)
    then have "2 ^ 32 dvd unat s2 - unat s1" using iv that(1,2) mod_eq_dvd_iff_nat [of "unat s1" "unat s2" "2 ^ 32"] by simp
    then show ?thesis using lt dvd_imp_le [of "2 ^ 32" "unat s2 - unat s1"] by simp
  qed
  ultimately show ?thesis using aead_nonce_inj [of p s1 s2] chacha_nonce_inj [OF assms(1)] iv by blast
qed

theorem nonce_determines_sequence_witness:
  "chacha_buildNonce \<lparr>cp_aead = zeroTagAEAD, cp_iv = replicate 12 0\<rparr> 0 \<noteq>
     chacha_buildNonce \<lparr>cp_aead = zeroTagAEAD, cp_iv = replicate 12 0\<rparr> 1 \<and>
   adjustIV exampleMagma 0 = adjustIV exampleMagma 4294967296 \<and> adjustIV exampleMagma 0 \<noteq> adjustIV exampleMagma 1"
  using nonce_determines_sequence [of "\<lparr>cp_aead = zeroTagAEAD, cp_iv = replicate 12 0\<rparr>" exampleMagma exampleAEAD 0 1]
    nonce_determines_sequence [of "\<lparr>cp_aead = zeroTagAEAD, cp_iv = replicate 12 0\<rparr>" exampleMagma exampleAEAD 0 4294967296]
  by (simp add: co_shape_def exampleMagma_def)

section \<open>The block-cipher suites\<close>

text \<open>C21 (equivalence).  Opening a CBC record, with its constant-time selection of the MAC position,
  returns a content exactly when the fragment is a whole number of blocks that decrypts to what RFC
  5246 section 6.2.3.2 lays out: the content, its MAC and well-formed padding.  The one exception is
  stated: padding that is well formed but longer than the room behind the MAC is accepted, as an empty
  content, when the first bytes are the MAC of the empty content.  Every failure is the same
  bad\_record\_mac error.\<close>

theorem cbc_open_decision:
  assumes "cbc_ok p" "cbc_newCipher p (cbc_encKey p) = Inr b" "length fragment \<le> 2 ^ 31"
    and "plain = cbc_dec b (take (cbc_blockSize p) fragment) (drop (cbc_blockSize p) fragment)"
  shows "(\<forall>content. cbcHMACProtector_Open p seq hdr fragment = Inr content \<longleftrightarrow>
      length fragment mod cbc_blockSize p = 0 \<and>
      (cbc_record p seq hdr content plain \<or> content = [] \<and> cbc_overlap p seq hdr plain)) \<and>
    (\<forall>e. cbcHMACProtector_Open p seq hdr fragment = Inl e \<longrightarrow> e = NewFatalAlertError AlertBadRecordMAC)"
  using cbc_Open_error [OF assms(1-3), of seq hdr] cbc_Open_accepts [OF assms(1-3) _ assms(4), of seq hdr]
  by (cases "length fragment mod cbc_blockSize p = 0") simp_all

text \<open>The encryption of the content 1, 2, 3, its MAC of twenty zero bytes and nine bytes of padding
  is opened; with one byte of the padding wrong it is not.\<close>

definition exampleCBCFragment :: "bytes \<Rightarrow> bytes" where
  "exampleCBCFragment plain = replicate 16 0 @ cbc_enc (idBlock 16) (replicate 16 0) plain"

lemma exampleCBCFragment_dec:
  assumes "length plain = 32"
  shows "length (exampleCBCFragment plain) = 48"
    "cbc_dec (idBlock 16) (take (cbc_blockSize exampleCBC) (exampleCBCFragment plain)) (drop (cbc_blockSize exampleCBC) (exampleCBCFragment plain)) = plain"
  using assms cbc_dec_enc [OF idBlock_ok, of 16 "replicate 16 0" plain] cbc_enc_length [OF idBlock_ok, of 16 "replicate 16 0" plain]
  by (simp_all add: exampleCBCFragment_def exampleCBC_def idBlock_def)

lemma bad_padding:
  assumes "k < 256" "[1, 2, 3] @ replicate 20 0 @ replicate 8 7 @ [8 :: byte] = xs @ replicate (Suc k) (of_nat k)"
  shows False
proof -
  from arg_cong [OF assms(2), of last] have "of_nat k = (8 :: byte)" by (simp add: last_replicate del: replicate.simps)
  moreover have "unat (of_nat k :: byte) = k" using assms(1) by (simp add: unat_of_nat)
  ultimately have "k = 8" by simp
  from arg_cong [OF assms(2) [unfolded this], of rev] show False by (simp add: numeral_eq_Suc)
qed

theorem cbc_open_decision_witness:
  "cbcHMACProtector_Open exampleCBC 0 [23, 3, 3, 0, 0] (exampleCBCFragment ([1, 2, 3] @ replicate 20 0 @ replicate 9 8)) = Inr [1, 2, 3] \<and>
   cbcHMACProtector_Open exampleCBC 0 [23, 3, 3, 0, 0] (exampleCBCFragment ([1, 2, 3] @ replicate 20 0 @ replicate 8 7 @ [8])) =
     Inl (NewFatalAlertError AlertBadRecordMAC)"
proof -
  let ?good = "[1, 2, 3] @ replicate 20 0 @ replicate 9 8 :: bytes" and ?bad = "[1, 2, 3] @ replicate 20 0 @ replicate 8 7 @ [8] :: bytes"
  have b: "cbc_newCipher exampleCBC (cbc_encKey exampleCBC) = Inr (idBlock 16)"
    by (simp add: exampleCBC_def exampleEnv_def)
  have mac: "computeMAC exampleCBC s h f e = replicate 20 0" for s h f e
    by (simp add: computeMAC_def exampleCBC_def hmac_def zeroHash_def Let_def)
  have "cbc_record exampleCBC 0 [23, 3, 3, 0, 0] [1, 2, 3] ?good"
    unfolding cbc_record_def mac by (intro exI [of _ 8]) (simp add: numeral_eq_Suc)
  then have "cbcHMACProtector_Open exampleCBC 0 [23, 3, 3, 0, 0] (exampleCBCFragment ?good) = Inr [1, 2, 3]"
    using cbc_open_decision [OF exampleCBC_ok b _ refl, of "exampleCBCFragment ?good" 0 "[23, 3, 3, 0, 0]"]
      exampleCBCFragment_dec [of ?good] by (simp add: exampleCBC_def)
  moreover have "\<not> cbc_record exampleCBC 0 [23, 3, 3, 0, 0] content ?bad" "\<not> cbc_overlap exampleCBC 0 [23, 3, 3, 0, 0] ?bad" for content
    unfolding cbc_record_def cbc_overlap_def using bad_padding by (metis append_assoc)+
  then have "cbcHMACProtector_Open exampleCBC 0 [23, 3, 3, 0, 0] (exampleCBCFragment ?bad) \<noteq> Inr content" for content
    using cbc_open_decision [OF exampleCBC_ok b _ refl, of "exampleCBCFragment ?bad" 0 "[23, 3, 3, 0, 0]"]
      exampleCBCFragment_dec [of ?bad] by simp
  then have "cbcHMACProtector_Open exampleCBC 0 [23, 3, 3, 0, 0] (exampleCBCFragment ?bad) = Inl (NewFatalAlertError AlertBadRecordMAC)"
    using cbc_open_decision [OF exampleCBC_ok b _ refl, of "exampleCBCFragment ?bad" 0 "[23, 3, 3, 0, 0]"]
      exampleCBCFragment_dec(1) [of ?bad] by (cases "cbcHMACProtector_Open exampleCBC 0 [23, 3, 3, 0, 0] (exampleCBCFragment ?bad)") simp_all
  ultimately show ?thesis by simp
qed

section \<open>GOST 28147-89\<close>

text \<open>C29 (termination and functional behaviour).  The counter-mode loop returns on every input, keeps its
  state well formed, gives the same bytes however the input is split, and undoes itself.\<close>

theorem gost_cnt_stream:
  assumes "gost_ok X" "cnt_ok s"
  shows "\<exists>s1 y s2 z. XORKeyStream X s a = Some (s1, y) \<and> XORKeyStream X s1 b = Some (s2, z) \<and>
    XORKeyStream X s (a @ b) = Some (s2, y @ z) \<and> XORKeyStream X s y = Some (s1, a) \<and> cnt_ok s2"
proof -
  obtain s1 y where a: "cnt_bytes X s a = (s1, y)" by fastforce
  obtain s2 z where b: "cnt_bytes X s1 b = (s2, z)" by fastforce
  have s1: "cnt_ok s1" using cnt_bytes_ok [OF assms, of a] a by simp
  have s2: "cnt_ok s2" using cnt_bytes_ok [OF assms(1) s1, of b] b by simp
  show ?thesis
    using XORKeyStream_eq [OF assms(1) s1, of b] XORKeyStream_eq [OF assms] cnt_bytes_append [of X s a b]
      cnt_bytes_involution [of X s a] a b s2 by auto
qed

theorem gost_cnt_stream_witness:
  "\<exists>s1 y s2 z. XORKeyStream exampleEnv (newGostCNT idGOST SboxTC26Z (replicate 8 1)) [1, 2] = Some (s1, y) \<and>
    XORKeyStream exampleEnv s1 [3] = Some (s2, z) \<and>
    XORKeyStream exampleEnv (newGostCNT idGOST SboxTC26Z (replicate 8 1)) ([1, 2] @ [3]) = Some (s2, y @ z) \<and>
    XORKeyStream exampleEnv (newGostCNT idGOST SboxTC26Z (replicate 8 1)) y = Some (s1, [1, 2]) \<and> cnt_ok s2"
  by (rule gost_cnt_stream [OF exampleEnv_gost_ok newGostCNT_ok]) (simp_all add: idGOST_ok)

text \<open>C28 (refinement).  The buffered IMIT writer refines a machine that keeps only the chaining state and
  the pending bytes; in particular the tag depends on the concatenation of the data written and not
  on how the writes were cut.\<close>

theorem gost_imit_refines:
  assumes "gost_ok X" "imit_ok m"
  shows "imit_abs (gostIMIT_Write X data m) = imit_spec_Write X data (imit_abs m)
    \<and> imit_ok (gostIMIT_Write X data m)
    \<and> gostIMIT_Finalize X (gostIMIT_Write X data' (gostIMIT_Write X data m)) =
        gostIMIT_Finalize X (gostIMIT_Write X (data @ data') m)"
  using imit_abs_Write [OF assms(2)] gostIMIT_Write_ok [OF assms]
  by (simp add: gostIMIT_Finalize_abs gostIMIT_Write_ok assms imit_abs_Write imit_spec_Write_append)

theorem gost_imit_refines_witness:
  "gostIMIT_Finalize exampleEnv (gostIMIT_Write exampleEnv [2, 3] (gostIMIT_Write exampleEnv [1] (newGostIMIT idGOST SboxTC26Z))) =
   gostIMIT_Finalize exampleEnv (gostIMIT_Write exampleEnv [1, 2, 3] (newGostIMIT idGOST SboxTC26Z))"
  using gost_imit_refines [OF exampleEnv_gost_ok newGostIMIT_ok, of idGOST "[1]" SboxTC26Z "[2, 3]"]
  by (simp add: idGOST_ok)

text \<open>For input of at most eight bytes the tag is the first half of the single padded block's
  MAC: no all-zero block is ever appended, since the counter the code tests is already positive
  after the data block.\<close>

lemma gost_imit_short_input:
  assumes "gost_ok X" "data \<noteq> []" "length data \<le> 8"
  shows "gostIMIT_Finalize X (gostIMIT_Write X data (newGostIMIT (NewGOST28147Cipher X key sbox) sbox)) =
    take 4 (gc_SeqMACBlock (NewGOST28147Cipher X key sbox) (data @ replicate (8 - length data) 0))"
proof -
  let ?m = "newGostIMIT (NewGOST28147Cipher X key sbox) sbox"
  let ?b = "data @ replicate (8 - length data) 0"
  have c: "gcipher_ok (NewGOST28147Cipher X key sbox)" using assms(1) by (simp add: gost_ok_def)
  have ok: "imit_ok ?m" by (rule newGostIMIT_ok [OF c])
  have "imit_abs ?m = (imit_core ?m, [])" by (simp add: imit_abs_def newGostIMIT_def)
  then have abs: "imit_abs (gostIMIT_Write X data ?m) = (imit_core ?m, data)"
    using imit_abs_Write [OF ok, of X data] assms(3) by (simp add: imit_spec_Write_def IMIT_blocks_short)
  have z: "xorb (replicate 8 0) ?b = ?b" using assms(3) by (intro nth_equalityI) simp_all
  have "gostIMIT_Finalize X (gostIMIT_Write X data ?m) =
      take 4 (imit_prev (processBlockMesh X ?b (imit_core ?m)))"
    using gostIMIT_Finalize_abs [OF gostIMIT_Write_ok [OF assms(1) ok], of X data] abs assms(2)
    by (simp add: imit_spec_Finalize_def)
  moreover have "imit_prev (processBlockMesh X ?b (imit_core ?m)) =
      gc_SeqMACBlock (NewGOST28147Cipher X key sbox) (xorb (replicate 8 0) ?b)"
    by (simp add: processBlockMesh_def newGostIMIT_def imit_core_def macBlockEncrypt_def gost_size_defs Let_def)
  ultimately show ?thesis unfolding z by simp
qed

lemma gost_imit_short_input_witness:
  "gostIMIT_Finalize exampleEnv (gostIMIT_Write exampleEnv [1, 2, 3]
     (newGostIMIT (NewGOST28147Cipher exampleEnv (replicate 32 0) SboxTC26Z) SboxTC26Z)) = [1, 2, 3, 0]"
  using gost_imit_short_input [OF exampleEnv_gost_ok, of "[1, 2, 3]" "replicate 32 0" SboxTC26Z]
  by (simp add: exampleEnv_def idGOST_def)

section \<open>Reading and writing a record\<close>

text \<open>C33 (bounds).  Whatever the transport delivers, \<open>ReadRecord\<close> either returns a record of a known type
  with at most \<open>2 ^ 14\<close> bytes and moves the sequence number on by one without wrapping, or
  returns an error and leaves the sequence number where it was; it never touches the sending side.\<close>

theorem ReadRecord_outcomes:
  "case ReadRecord X l of
     (Inr (ct, plain), l') \<Rightarrow> isKnownContentType ct \<and> length plain \<le> 16384 \<and>
        unat (l_recvSeq l') = Suc (unat (l_recvSeq l)) \<and> l_sendSeq l' = l_sendSeq l \<and> l_sendProt l' = l_sendProt l
   | (Inl e, l') \<Rightarrow> l_recvSeq l' = l_recvSeq l \<and> l_sendSeq l' = l_sendSeq l \<and> l_sendProt l' = l_sendProt l"
proof (cases "ReadRecord X l")
  case (Pair res l')
  show ?thesis
  proof (cases res)
    case (Inl e)
    with Pair ReadRecord_Inl [of X l e l'] show ?thesis by simp
  next
    case (Inr r)
    obtain ct plain where r: "r = (ct, plain)" by (cases r)
    with Pair Inr ReadRecord_Inr [of X l ct plain l'] show ?thesis by (simp add: u64_Suc)
  qed
qed

text \<open>C40.  After a failed transport write the sequence number is the old one although (part of) a record
  protected under it may be on the wire: with AES-GCM the next record is sealed with the same
  nonce.\<close>

theorem write_error_reuses_nonce:
  assumes "l_sendProt l = AEADProtector p"
    and "WriteRecord X ct m l = (Inl (TransportErr w), l1)" "WriteRecord X ct' m' l1 = (Inr (), l2)"
  shows "\<exists>k ad ad'. n_out (l_rw l2) = n_out (l_rw l)
      @ take k (record_bytes ct (put64 (l_sendSeq l) @ aead_Seal (ap_aead p) (aead_buildNonce p (put64 (l_sendSeq l))) m ad))
      @ record_bytes ct' (put64 (l_sendSeq l) @ aead_Seal (ap_aead p) (aead_buildNonce p (put64 (l_sendSeq l))) m' ad')"
proof -
  obtain k where k: "n_out (l_rw l1) = n_out (l_rw l) @ take k (record_bytes ct
      (put64 (l_sendSeq l) @ aead_Seal (ap_aead p) (aead_buildNonce p (put64 (l_sendSeq l))) m
        (buildAD (l_sendSeq l) [ct, 3, 3, 0, 0] (length m))))"
    and p: "l_sendProt l1 = AEADProtector p"
    using WriteRecord_TransportErr [OF assms(2), of "AEADProtector p"] assms(1)
    by (auto simp: aeadProtector_Seal_def Let_def)
  from assms(3) show ?thesis
  proof (rule WriteRecord_Inr)
    fix frag q rnd
    assume "Protector_Seal X (l_sendProt l1) (n_rand (l_rw l1)) (l_sendSeq l1) [ct', 3, 3, 0, 0] m' = (Inr frag, q, rnd)"
      and "n_out (l_rw l2) = n_out (l_rw l1) @ record_bytes ct' frag"
    then show ?thesis
      using p k WriteRecord_Inl(1) [OF assms(2)] by (auto simp: aeadProtector_Seal_def Let_def)
  qed
qed

theorem write_error_reuses_nonce_witness:
  "\<exists>l1 l2 k ad ad'.
     WriteRecord exampleEnv 23 [1] exampleFailingLayer = (Inl (TransportErr ''write''), l1) \<and>
     WriteRecord exampleEnv 23 [2] l1 = (Inr (), l2) \<and>
     n_out (l_rw l2) = take k (record_bytes 23 (put64 0 @ aead_Seal zeroTagAEAD (aead_buildNonce exampleAEAD (put64 0)) [1] ad))
       @ record_bytes 23 (put64 0 @ aead_Seal zeroTagAEAD (aead_buildNonce exampleAEAD (put64 0)) [2] ad')"
proof -
  obtain l1 where w1: "WriteRecord exampleEnv 23 [1] exampleFailingLayer = (Inl (TransportErr ''write''), l1)"
    and l1: "l1 = exampleFailingLayer\<lparr>l_rw := (l_rw exampleFailingLayer)
      \<lparr>n_plan := [], n_out := [23, 3, 3, 0, 25, 0, 0, 0, 0, 0, 0, 0, 0, 1, 0]\<rparr>\<rparr>"
    by (simp add: exampleFailingLayer_def layer_eval_simps)
  obtain l2 where w2: "WriteRecord exampleEnv 23 [2] l1 = (Inr (), l2)"
    unfolding l1 by (simp add: exampleFailingLayer_def layer_eval_simps)
  have "l_sendProt exampleFailingLayer = AEADProtector exampleAEAD" "l_sendSeq exampleFailingLayer = 0"
    "ap_aead exampleAEAD = zeroTagAEAD" "n_out (l_rw exampleFailingLayer) = []"
    by (simp_all add: exampleFailingLayer_def ChangeCipherSpec_def exampleAEAD_def exampleNet_def NewLayer_def NewLayerWithSeq_def)
  with write_error_reuses_nonce [OF _ w1 w2, of exampleAEAD] w1 w2 show ?thesis by auto
qed

end
