(* ===== verification/KeyProperties.thy ===== *)
theory KeyProperties
  imports Handshake Instances
begin

text \<open>
  Properties of the suite registry, the key schedule, the transcript and the key exchanges.
\<close>

section \<open>Registry, key schedule and transcript\<close>

text \<open>C34 (safety).  The package's initialisation never panics on a duplicate, registers 32 suites, and
  afterwards the lookup by number and the lookup by name find exactly the registered suites.\<close>

theorem registry_lookups:
  "\<exists>r. initRegistry = Inr r \<and> length (AllRegistered r) = 32
     \<and> (\<forall>i s. Lookup r i = Some s \<longleftrightarrow> s \<in> set (AllRegistered r) \<and> s_ID s = i)
     \<and> (\<forall>n s. LookupByName r n = Some s \<longleftrightarrow> s \<in> set (AllRegistered r) \<and> s_Name s = n)"
proof -
  obtain r where r: "initRegistry = Inr r" "reg_inv r" "reg_order r = allSuites" using initRegistry_ok by blast
  have "length allSuites = 32"
    by (simp add: allSuites_def gostSuites_def ecdheSuites_def dheRSASuites_def rsaKxSuites_def)
  then show ?thesis using r Lookup_iff [OF r(2)] LookupByName_iff [OF r(2)] by (auto simp: AllRegistered_def)
qed

text \<open>C31 (termination and functional behaviour).  The PRF returns for every secret and seed and is the closed form
  of RFC 5246 section 5: the truncation of HMAC(secret, A(i) || label || seed) for i = 1, 2, ...\<close>

theorem PRF_closed_form:
  assumes "hash_ok h" "0 < h_Size h" "label \<noteq> []" "0 < outLen"
  shows "PRF h secret label seed outLen =
    Inr (take outLen (concat (map (\<lambda>i. hmac h secret (((hmac h secret) ^^ Suc i) (label @ seed) @ label @ seed)) [0..<outLen])))"
proof -
  have A: "prf_A h secret s i = ((hmac h secret) ^^ i) s" for s i by (induction i) simp_all
  have "outLen \<le> outLen * h_Size h" using assms(2) by simp
  from pHash_eq [OF assms(1,2) this, of secret "label @ seed"] assms(3,4) show ?thesis
    by (simp add: PRF_def prf_blocks_def A)
qed

theorem PRF_closed_form_witness:
  "PRF (zeroHash 4) [1] [2] [3] 3 = Inr [0, 0, 0]"
  using PRF_closed_form [OF zeroHash_ok, of 4 "[2]" 3 "[1]" "[3]"]
  by (simp add: zeroHash_def [THEN arg_cong [of _ _ h_Size]] numeral_eq_Suc upt_rec)

text \<open>C30 (functional).  For a registered suite the handshake's own key expansion agrees with the key
  schedule's, and the six keys are the consecutive parts of the PRF output in the order of RFC 5246
  section 6.3, each of the length the suite asks for.\<close>

theorem key_block_partition:
  assumes "hashes_ok (newHash X)" "s \<in> set allSuites" "length cr = 32" "length sr = 32"
  shows "\<exists>kb km. expandKeysManual X s ms cr sr (expandKeysIVLen s) = Inr km \<and> KeyExpansion (newHash X) s ms cr sr = Inr km \<and>
    PRF (newHash X (s_PRF s)) ms (bytes_of ''key expansion'') (sr @ cr) (length kb) = Inr kb \<and>
    km_ClientMACKey km @ km_ServerMACKey km @ km_ClientEncKey km @ km_ServerEncKey km @ km_ClientIV km @ km_ServerIV km = kb \<and>
    length (km_ClientMACKey km) = m_KeyLen (s_MAC s) \<and> length (km_ServerMACKey km) = m_KeyLen (s_MAC s) \<and>
    length (km_ClientEncKey km) = c_KeyLen (s_Cipher s) \<and> length (km_ServerEncKey km) = c_KeyLen (s_Cipher s) \<and>
    length (km_ClientIV km) = keyBlockIVLen s \<and> length (km_ServerIV km) = keyBlockIVLen s"
proof -
  let ?n = "2 * m_KeyLen (s_MAC s) + 2 * c_KeyLen (s_Cipher s) + 2 * keyBlockIVLen s"
  have pos: "0 < c_KeyLen (s_Cipher s)" by (rule suite_keys_pos [OF allSuites_params [OF assms(2)]])
  have h: "hash_ok (newHash X (s_PRF s))" "0 < h_Size (newHash X (s_PRF s))"
    using assms(1) by (auto simp: hashes_ok_def hashFnSize_pos)
  obtain kb where kb: "PRF (newHash X (s_PRF s)) ms (bytes_of ''key expansion'') (sr @ cr) ?n = Inr kb" "length kb = ?n"
    using PRF_Inr [OF h, of "bytes_of ''key expansion''" ?n] pos by (auto simp: bytes_of_def)
  have e: "expandKeysManual X s ms cr sr (expandKeysIVLen s) =
      Inr (splitKeyBlock (m_KeyLen (s_MAC s)) (c_KeyLen (s_Cipher s)) (keyBlockIVLen s) kb)"
    using kb(1) pos assms(3,4) by (simp add: expandKeysManual_def expandKeysIVLen_eq Let_def)
  show ?thesis
    using e expandKeysManual_KeyExpansion [OF assms(3,4) pos, of X ms] kb splitKeyBlock_parts [OF kb(2)] by auto
qed

theorem key_block_partition_witness:
  "\<exists>kb km. expandKeysManual exampleEnv exampleSuite [1] (replicate 32 2) (replicate 32 3) (expandKeysIVLen exampleSuite) = Inr km \<and>
    length (km_ClientEncKey km) = 16 \<and> length (km_ClientIV km) = 4 \<and>
    km_ClientMACKey km @ km_ServerMACKey km @ km_ClientEncKey km @ km_ServerEncKey km @ km_ClientIV km @ km_ServerIV km = kb"
proof -
  have "c_KeyLen (s_Cipher exampleSuite) = 16" "keyBlockIVLen exampleSuite = 4" by code_simp+
  with key_block_partition [OF exampleEnv_hashes_ok exampleSuite_registered, of "replicate 32 2" "replicate 32 3" "[1]"]
  show ?thesis by auto
qed

text \<open>C35 (bounds).  The transcript never holds more than 256 KiB; as long as the messages fit, the digest is
  the hash of their concatenation in order, and from the first one that does not fit every digest
  request is an error.\<close>

theorem transcript_digest:
  "length (t_buf (writes msgs NewTranscript)) \<le> maxTranscriptBytes \<and>
   Transcript_Sum (Some h) (writes msgs NewTranscript) =
     (if length (concat msgs) \<le> maxTranscriptBytes then Inr (h_Sum h (concat msgs))
      else Inl (Sentinel ''errTranscriptOverflow''))"
  using Transcript_Sum_writes writes_bound [of NewTranscript msgs] by (simp add: NewTranscript_def)

section \<open>Key exchanges\<close>

text \<open>C38 (error).  The size floor of finite-field Diffie-Hellman counts bytes, not significant bits: a
  server may offer any odd modulus, however small, with zero bytes in front that bring it to 256
  bytes.  The client accepts the parameters, completes the exchange and sends its share, and its
  premaster secret is one of as many values as the small modulus has residues.\<close>

theorem dhe_padded_modulus_accepted:
  assumes "bigmod_ok X" "parseDHEServerParams params = Inr (replicate z 0 @ p, g, Ys)" "256 \<le> z + length p"
    and "odd (be_val p)" "2 \<le> be_val g" "be_val g < be_val p" "1 < be_val Ys" "be_val Ys + 1 < be_val p"
    and "z + length p \<le> length (r_data r)"
  shows "\<exists>cke pm r'. DHEExchange_ClientKeyExchange X None params r = (Inr (cke, pm), r') \<and>
    pm \<in> be_bytes (z + length p) ` {..<be_val p}"
proof -
  let ?p = "replicate z 0 @ p"
  have val: "be_val ?p = be_val p" by (simp add: be_val_append)
  have v: "validateDHEParams ?p g Ys = Inr ()" using assms(3-5,7,8) val by (simp add: validateDHEParams_Inr)
  obtain cke pm r' where e: "DHEExchange_ClientKeyExchange X None params r = (Inr (cke, pm), r')"
    using DHE_total [OF assms(1,2) v, of r] assms(6,9) val by auto
  obtain x where pm: "length pm = z + length p" "be_val pm = be_val Ys ^ be_val x mod be_val p"
    by (rule DHE_Inr [OF assms(1) e]) (use assms(2) val in auto)
  then have lt: "be_val pm < be_val p" using assms(6) by simp
  have "be_val pm < 256 ^ (z + length p)" using be_val_lt [of pm] pm(1) by simp
  then have "pm = be_bytes (z + length p) (be_val pm)" using pm(1) by (intro be_val_inj) (simp_all add: be_val_be_bytes)
  with e lt show ?thesis by blast
qed

text \<open>The modulus 7, the base 2 and the share 4.\<close>

theorem dhe_padded_modulus_accepted_witness:
  "\<exists>cke pm r'. DHEExchange_ClientKeyExchange exampleEnv None
      (put16 256 @ replicate 255 0 @ [7] @ put16 1 @ [2] @ put16 1 @ [4]) exampleReader = (Inr (cke, pm), r') \<and>
    pm \<in> be_bytes 256 ` {..<7}"
proof -
  let ?params = "put16 256 @ replicate 255 0 @ [7] @ put16 1 @ [2] @ put16 1 @ [4] :: bytes"
  have ps: "parseDHEServerParams ?params = Inr (replicate 255 0 @ [7], [2], [4])"
    by (simp add: parseDHEServerParams_iff)
  from dhe_padded_modulus_accepted [OF exampleEnv_bigmod_ok ps, of exampleReader] show ?thesis by (simp add: exampleReader_def)
qed



text \<open>C24 (functional).  Finite-field Diffie-Hellman agrees in the same sense, with a fresh exponent drawn from
  the system's randomness, with a server that, like the client, pads the shared value to the length of
  the modulus.\<close>

theorem dhe_same_keys:
  assumes "dhe_offers X y params"
    and "DHEExchange_ClientKeyExchange X None params r = (Inr (cke, pm), r')"
    and "MasterSecret H suite pm cr sr = Inr ms"
  shows "\<exists>pm'. dhe_server y params cke = Some pm' \<and>
    bindR (MasterSecret H suite pm' cr sr) (\<lambda>ms'. KeyExpansion H suite ms' cr sr) = KeyExpansion H suite ms cr sr"
  by (rule dhe.same_key_block [OF assms])

theorem dhe_same_keys_witness:
  "\<exists>cke pm pm'. fst (DHEExchange_ClientKeyExchange exampleEnv None exampleDHEParams exampleReader) = Inr (cke, pm) \<and>
     dhe_server 1 exampleDHEParams cke = Some pm' \<and> exampleSameKeys pm'"
proof -
  let ?p = "1 # replicate 254 0 @ [1] :: bytes"
  have p: "be_val ?p = 256 ^ 255 + 1" by (simp add: be_val_append)
  have ps: "parseDHEServerParams exampleDHEParams = Inr (?p, [3], [3])"
    by (simp add: parseDHEServerParams_iff exampleDHEParams_def)
  have v: "validateDHEParams ?p [3] [3] = Inr ()" unfolding validateDHEParams_Inr p by simp
  have off: "dhe_offers exampleEnv 1 exampleDHEParams"
    using exampleEnv_bigmod_ok ps p by (auto simp: dhe_offers_def)
  have m: "bigmod_NewModulus exampleEnv ?p = Inr (256 ^ 255 + 1)" unfolding exampleEnv_def by (simp add: p del: be_val.simps)
  obtain out where out: "modExp exampleEnv [3] (replicate 256 7) (256 ^ 255 + 1) = Inr out"
    using modExp_total [OF exampleEnv_bigmod_ok, of "[3]" "256 ^ 255 + 1"] by force
  have r: "ReadFull 256 exampleReader = (Inr (replicate 256 7), \<lparr>r_data = replicate 44 7, r_err = EOF\<rparr>)"
    by (simp add: ReadFull_def exampleReader_def)
  obtain cke pm r' where cl: "DHEExchange_ClientKeyExchange exampleEnv None exampleDHEParams exampleReader = (Inr (cke, pm), r')"
    unfolding DHEExchange_ClientKeyExchange_def using ps v m out r by (simp add: bindS_def Let_def)
  show ?thesis using dhe_same_keys [OF off cl exampleEnv_master] cl by (auto simp: exampleSameKeys_def)
qed

text \<open>C27 (functional).  RSA key transport agrees with a server that can invert the encryption.\<close>

theorem rsa_same_keys:
  assumes "rsa_offers X pub dec params"
    and "rsaExchangeWithRand_ClientKeyExchange X pub params r = (Inr (cke, pm), r')"
    and "MasterSecret H suite pm cr sr = Inr ms"
  shows "\<exists>pm'. rsa_server dec params cke = Some pm' \<and>
    bindR (MasterSecret H suite pm' cr sr) (\<lambda>ms'. KeyExpansion H suite ms' cr sr) = KeyExpansion H suite ms cr sr"
  by (rule rsakx.same_key_block [OF assms])

theorem rsa_same_keys_witness:
  "\<exists>cke pm pm'. fst (rsaExchangeWithRand_ClientKeyExchange exampleEnv \<lparr>rsa_N = 15, rsa_E = 3\<rparr> [] exampleReader) = Inr (cke, pm) \<and>
     rsa_server Some [] cke = Some pm' \<and> exampleSameKeys pm'"
proof -
  have off: "rsa_offers exampleEnv \<lparr>rsa_N = 15, rsa_E = 3\<rparr> Some []"
    by (auto simp: rsa_offers_def exampleEnv_def split: if_splits)
  obtain cke pm r' where
    cl: "rsaExchangeWithRand_ClientKeyExchange exampleEnv \<lparr>rsa_N = 15, rsa_E = 3\<rparr> [] exampleReader = (Inr (cke, pm), r')"
    by (simp add: rsaExchangeWithRand_ClientKeyExchange_def exampleEnv_def ReadFull_def exampleReader_def bindS_def
        rsaPreMasterLen_def rsaCKELenPrefixSize_def Let_def)
  show ?thesis using rsa_same_keys [OF off cl exampleEnv_master] cl by (auto simp: exampleSameKeys_def)
qed

text \<open>C26 (functional).  The two VKO exchanges agree with a server that holds the certificate's private key: it
  decodes the envelope, derives the same wrapping key and unwraps the client's premaster secret.\<close>

theorem vko_same_secret:
  assumes "vko_offers X c spkiAlgo pubRaw k params"
    and "vko2001_client X c spkiAlgo pubRaw ukm params r = (Inr (cke, pm), r')"
    and "vko2012_client X c spkiAlgo pubRaw ukm params r = (Inr (cke2, pm2), r2')"
  shows "vko_server (gost_VKO2001OnCurve X) c SboxCryptoProA k params cke = Some pm \<and>
    vko_server (gost_VKO2012_256OnCurve X) c SboxTC26Z k params cke2 = Some pm2"
  using vko2001.agree [OF assms(1,2)] vko2012.agree [OF assms(1,3)] by blast

theorem vko_same_secret_witness:
  "\<exists>cke pm cke2 pm2.
     fst (vko2001_client exampleEnv (GostCurve [1]) exampleSPKIAlgorithm (replicate 32 9) (replicate 8 4) [] exampleReader) = Inr (cke, pm) \<and>
     fst (vko2012_client exampleEnv (GostCurve [1]) exampleSPKIAlgorithm (replicate 32 9) (replicate 8 4) [] exampleReader) = Inr (cke2, pm2) \<and>
     vko_server (gost_VKO2001OnCurve exampleEnv) (GostCurve [1]) SboxCryptoProA (replicate 32 9, exampleUnwrap) [] cke = Some pm \<and>
     vko_server (gost_VKO2012_256OnCurve exampleEnv) (GostCurve [1]) SboxTC26Z (replicate 32 9, exampleUnwrap) [] cke2 = Some pm2"
proof -
  have off: "vko_offers exampleEnv (GostCurve [1]) exampleSPKIAlgorithm (replicate 32 9) (replicate 32 9, exampleUnwrap) []"
    using exampleEnv_gost_keys_ok exampleEnv_wrap_ok
    by (simp add: vko_offers_def exampleEnv_gost_pair exampleSPKIAlgorithm_def)
  have e: "gost_GenerateEphemeralKey exampleEnv c exampleReader = (Inr (replicate 32 7, replicate 32 7), \<lparr>r_data = replicate 268 7, r_err = EOF\<rparr>)"
    for c by (simp add: exampleEnv_def bindS_def ReadFull_def exampleReader_def)
  have pm: "ReadFull 32 \<lparr>r_data = replicate 268 7, r_err = EOF\<rparr> = (Inr (replicate 32 7), \<lparr>r_data = replicate 236 7, r_err = EOF\<rparr>)"
    by (simp add: ReadFull_def)
  have x: "gost_VKO2001OnCurve exampleEnv c a B u = Inr (replicate 32 0)" "gost_VKO2012_256OnCurve exampleEnv c a B u = Inr (replicate 32 0)"
    "gost_KeyWrapCryptoPro exampleEnv sbox kek u (replicate 32 7) = Inr (u @ replicate 32 7 @ replicate 4 0)" for c a B u sbox kek
    by (simp_all add: exampleEnv_def)
  note client_defs = vko2001_client_def NewVKOGost2001Exchange_def VKOGost2001Exchange_ClientKeyExchange_def
    vko2012_client_def NewVKOGost2012_256Exchange_def VKOGost2012_256Exchange_ClientKeyExchange_def vko_const_defs
  let ?w = "replicate 8 4 @ replicate 32 7 @ replicate 4 0 :: bytes"
  obtain cke cke2 where
    g: "marshalGOSTKeyTransport exampleSPKIAlgorithm (replicate 32 7) (slice 8 40 ?w) (slice 40 44 ?w) oidGost28147CryptoProA (replicate 8 4) = Inr cke"
      "marshalGOSTKeyTransport exampleSPKIAlgorithm (replicate 32 7) (slice 8 40 ?w) (slice 40 44 ?w) oidTc26Gost28147ParamZ (replicate 8 4) = Inr cke2"
    using exampleEnv_gkt [of "replicate 32 7"] by fastforce
  have c1: "vko2001_client exampleEnv (GostCurve [1]) exampleSPKIAlgorithm (replicate 32 9) (replicate 8 4) [] exampleReader =
      (Inr (cke, replicate 32 7), \<lparr>r_data = replicate 236 7, r_err = EOF\<rparr>)"
    and c2: "vko2012_client exampleEnv (GostCurve [1]) exampleSPKIAlgorithm (replicate 32 9) (replicate 8 4) [] exampleReader =
      (Inr (cke2, replicate 32 7), \<lparr>r_data = replicate 236 7, r_err = EOF\<rparr>)"
    using g e pm x by (simp_all add: client_defs bindS_def exampleSPKIAlgorithm_nonempty)
  show ?thesis using vko_same_secret [OF off c1 c2] c1 c2 by auto
qed

text \<open>C25 (functional).  The GOST 2018 key transport agrees with a server that derives the user keying
  material from the two randoms itself.\<close>

theorem gost2018_same_keys:
  assumes "gost2018_offers X c spkiAlgo pubRaw k params"
    and "gost2018_client X c spkiAlgo pubRaw v randoms params r = (Inr (cke, pm), r')"
    and "MasterSecret H suite pm cr sr = Inr ms"
  shows "\<exists>pm'. gost2018_server X c v randoms k params cke = Some pm' \<and>
    bindR (MasterSecret H suite pm' cr sr) (\<lambda>ms'. KeyExpansion H suite ms' cr sr) = KeyExpansion H suite ms cr sr"
  by (rule gost2018.same_key_block [OF assms])

theorem gost2018_same_keys_witness:
  "\<exists>cke pm pm'.
     fst (gost2018_client exampleEnv (GostCurve [1]) exampleSPKIAlgorithm (replicate 32 9) Variant2018Magma (replicate 64 4) [] exampleReader) = Inr (cke, pm) \<and>
     gost2018_server exampleEnv (GostCurve [1]) Variant2018Magma (replicate 64 4) (replicate 32 9, exampleKimp) [] cke = Some pm' \<and>
     exampleSameKeys pm'"
proof -
  have off: "gost2018_offers exampleEnv (GostCurve [1]) exampleSPKIAlgorithm (replicate 32 9) (replicate 32 9, exampleKimp) []"
    using exampleEnv_gost_keys_ok exampleEnv_kexp_ok
    by (simp add: gost2018_offers_def exampleEnv_gost_pair exampleSPKIAlgorithm_def)
  have r: "ReadFull 32 exampleReader = (Inr (replicate 32 7), \<lparr>r_data = replicate 268 7, r_err = EOF\<rparr>)"
    by (simp add: ReadFull_def exampleReader_def)
  have x: "gost_GenerateEphemeralKey exampleEnv c \<lparr>r_data = replicate 268 7, r_err = EOF\<rparr> =
      (Inr (replicate 32 7, replicate 32 7), \<lparr>r_data = replicate 236 7, r_err = EOF\<rparr>)"
    "gost_Streebog256 exampleEnv m = replicate 32 0" "gost_KEG2012_256 exampleEnv c B a u = Inr (replicate 64 0)"
    "gost_Kexp15 exampleEnv v (replicate 32 7) ck mk iv = Inr (replicate 32 7)" for c m B a u v ck mk iv
    by (simp_all add: exampleEnv_def bindS_def ReadFull_def)
  obtain cke where cl: "gost2018_client exampleEnv (GostCurve [1]) exampleSPKIAlgorithm (replicate 32 9) Variant2018Magma (replicate 64 4) [] exampleReader =
      (Inr (cke, replicate 32 7), \<lparr>r_data = replicate 236 7, r_err = EOF\<rparr>)"
    using marshalPSKeyTransport_der [OF exampleSPKIAlgorithm_parses exampleSPKIAlgorithm_marshals] r x
    by (simp add: gost2018_client_def NewGost2018Exchange_def Gost2018Exchange_ClientKeyExchange_def Gost2018Exchange_ukm_def
        gost2018_const_defs bindS_def guardR_def exampleSPKIAlgorithm_nonempty Let_def)
  show ?thesis using gost2018_same_keys [OF off cl exampleEnv_master] cl by (auto simp: exampleSameKeys_def)
qed

end
