(* ===== verification/ServerFlight.thy ===== *)
theory ServerFlight
  imports Handshake
begin

text \<open>
  What the receiving half of the handshake has established when it returns without an error:
  the state changes of each step and the checks that were passed, up to the end of the server
  flight.  The receive loop of \<open>recvServerFlight\<close> is shown to follow the transition system
  \<open>server_flight\<close>, the grammar of RFC 5246 section 7.3 with the client's checks on each
  message.
\<close>

section \<open>Reading and the hello messages\<close>

lemma onLayer_eq: "onLayer m c = (res, c') \<Longrightarrow> \<exists>l. m (cs_layer c) = (res, l) \<and> c' = c\<lparr>cs_layer := l\<rparr>"
  by (auto simp: onLayer_def split: prod.splits)

text \<open>A draw of randomness moves the random source only.\<close>

lemma withSysRand_eq:
  assumes "withSysRand m c = (res, c')"
  shows "\<exists>r. c' = c\<lparr>cs_layer := (cs_layer c)\<lparr>l_rw := (l_rw (cs_layer c))\<lparr>n_rand := r\<rparr>\<rparr>\<rparr>"
  using assms by (auto simp: withSysRand_def split: prod.splits)

lemma withParamsRand_eq:
  assumes "withParamsRand m c = (res, c')"
  shows "\<exists>r q. c' = c\<lparr>cs_layer := (cs_layer c)\<lparr>l_rw := (l_rw (cs_layer c))\<lparr>n_rand := r\<rparr>\<rparr>, cs_params := (cs_params c)\<lparr>p_Rand := q\<rparr>\<rparr>"
proof (cases "p_Rand (cs_params c)")
  case None
  then obtain r where "c' = c\<lparr>cs_layer := (cs_layer c)\<lparr>l_rw := (l_rw (cs_layer c))\<lparr>n_rand := r\<rparr>\<rparr>\<rparr>"
    using assms withSysRand_eq [of m c res c'] by (auto simp: withParamsRand_def)
  then have "c' = c\<lparr>cs_layer := (cs_layer c)\<lparr>l_rw := (l_rw (cs_layer c))\<lparr>n_rand := r\<rparr>\<rparr>, cs_params := (cs_params c)\<lparr>p_Rand := None\<rparr>\<rparr>"
    using None by simp
  then show ?thesis by blast
next
  case (Some r)
  with assms obtain q where "c' = c\<lparr>cs_params := (cs_params c)\<lparr>p_Rand := q\<rparr>\<rparr>"
    by (auto simp: withParamsRand_def split: prod.splits)
  then have "c' = c\<lparr>cs_layer := (cs_layer c)\<lparr>l_rw := (l_rw (cs_layer c))\<lparr>n_rand := n_rand (l_rw (cs_layer c))\<rparr>\<rparr>, cs_params := (cs_params c)\<lparr>p_Rand := q\<rparr>\<rparr>"
    by simp
  then show ?thesis by blast
qed

lemma readHandshakeRecord_eq:
  "readHandshakeRecord X c = (res, c') \<Longrightarrow> \<exists>l b. c' = c\<lparr>cs_layer := l, cs_hsBuf := b\<rparr>"
proof (induction X c rule: readHandshakeRecord.induct)
  case (1 X c)
  show ?case
  proof (cases "bufferedMessage (cs_hsBuf c)")
    case (Some r)
    then have "\<exists>b. c' = c\<lparr>cs_layer := cs_layer c, cs_hsBuf := b\<rparr>"
      using "1.prems" by (subst (asm) readHandshakeRecord.simps) (auto split: sum.splits intro: exI [of _ "cs_hsBuf c"])
    then show ?thesis by blast
  next
    case None
    obtain rr l where rd: "ReadRecord X (cs_layer c) = (rr, l)" by fastforce
    show ?thesis
    proof (cases "\<exists>payload. rr = Inr (ContentTypeHandshake, payload)")
      case True
      then obtain payload where rr: "rr = Inr (ContentTypeHandshake, payload)" by blast
      then have "readHandshakeRecord X (c\<lparr>cs_layer := l, cs_hsBuf := cs_hsBuf c @ payload\<rparr>) = (res, c')"
        using "1.prems" None rd by (subst (asm) readHandshakeRecord.simps) simp
      from "1.IH" [OF None rd [unfolded rr, symmetric] refl refl refl this] show ?thesis by auto
    next
      case False
      then have "\<exists>l. c' = c\<lparr>cs_layer := l, cs_hsBuf := cs_hsBuf c\<rparr>"
        using "1.prems" None rd by (subst (asm) readHandshakeRecord.simps) (auto split: sum.splits if_splits)
      then show ?thesis by blast
    qed
  qed
qed

lemma sendClientHello_Inr:
  assumes "sendClientHello X c = (Inr (), c')"
  obtains random l q where "length random = 32"
    "c' = c\<lparr>cs_clientRandom := random, cs_layer := l, cs_params := (cs_params c)\<lparr>p_Rand := q\<rparr>,
       cs_transcript := Transcript_Write (MarshalMessage (MClientHello (clientHelloOf (cs_params c) random))) (cs_transcript c)\<rparr>"
    "l_recvProt l = l_recvProt (cs_layer c)"
proof -
  obtain random c1 l where r: "withParamsRand (ReadFull 32) c = (Inr random, c1)"
    and w: "WriteRecord X ContentTypeHandshake (MarshalMessage (MClientHello (clientHelloOf (cs_params c1) random)))
      (cs_layer c1) = (Inr (), l)"
    and c': "c' = c1\<lparr>cs_clientRandom := random, cs_layer := l,
       cs_transcript := Transcript_Write (MarshalMessage (MClientHello (clientHelloOf (cs_params c1) random))) (cs_transcript c1)\<rparr>"
    using assms by (auto simp: sendClientHello_def bindS_eq_Inr modifyS_def getS_def transcriptWrite_def Let_def dest!: onLayer_eq)
  obtain rr q where c1: "c1 = c\<lparr>cs_layer := (cs_layer c)\<lparr>l_rw := (l_rw (cs_layer c))\<lparr>n_rand := rr\<rparr>\<rparr>, cs_params := (cs_params c)\<lparr>p_Rand := q\<rparr>\<rparr>"
    using withParamsRand_eq [OF r] by blast
  have h: "clientHelloOf ((cs_params c)\<lparr>p_Rand := q\<rparr>) random = clientHelloOf (cs_params c) random"
    by (simp add: clientHelloOf_def)
  have "length random = 32"
    using r by (auto simp: withParamsRand_def withSysRand_def split: option.splits prod.splits dest: ReadFull_Inr)
  moreover have "l_recvProt l = l_recvProt (cs_layer c)" using w c1 by (auto elim!: WriteRecord_Inr)
  ultimately show thesis
    using that [where random = random and l = l and q = q] c' c1 h by simp
qed

lemma readHandshakeRecord_length:
  "readHandshakeRecord X c = (Inr (t, body), c') \<Longrightarrow> length body \<le> maxHandshakeMsg"
proof (induction X c rule: readHandshakeRecord.induct)
  case (1 X c)
  show ?case
  proof (cases "bufferedMessage (cs_hsBuf c)")
    case (Some r)
    then show ?thesis
      using "1.prems" bufferedMessage_Inr(2) [of "cs_hsBuf c"]
      by (subst (asm) readHandshakeRecord.simps) (auto split: sum.splits)
  next
    case None
    obtain ct payload l where rd: "ReadRecord X (cs_layer c) = (Inr (ct, payload), l)" "ct = ContentTypeHandshake"
      and rec: "readHandshakeRecord X (c\<lparr>cs_layer := l, cs_hsBuf := cs_hsBuf c @ payload\<rparr>) = (Inr (t, body), c')"
      using "1.prems" None by (subst (asm) readHandshakeRecord.simps) (auto split: prod.splits sum.splits if_splits)
    show ?thesis using "1.IH" [OF None rd(1) [symmetric] refl _ rd(2) rec] by simp
  qed
qed

text \<open>The message read is parsed again from its envelope, which leaves nothing over.\<close>

lemma ParseMessage_buildEnvelope:
  assumes "length body \<le> maxHandshakeMsg"
  shows "ParseMessage (buildEnvelope t body) = bindR (parseBody t body) (\<lambda>m. Inr (m, []))"
  using ParseMessage_envelope [of body "[]" t] assms by (simp add: buildEnvelope_def maxHandshakeMsg_def)

lemma Lookup_globalRegistry:
  assumes "Lookup globalRegistry i = Some suite"
  shows "suite \<in> set allSuites \<and> s_ID suite = i"
proof -
  obtain r where r: "initRegistry = Inr r" "reg_inv r" "reg_order r = allSuites" using initRegistry_ok by blast
  have "globalRegistry = r" unfolding globalRegistry_def r(1) by simp
  with assms Lookup_iff [OF r(2), of i suite] r(3) show ?thesis by simp
qed

lemma parseBody_ServerHello_random:
  assumes "parseBody TypeServerHello b = Inr (MServerHello sh)"
  shows "length (sh_Random sh) = 32"
  using assms
  by (auto simp: parseBody_def type_defs parseServerHello_def bindR_eq_Inr readBytes_def tlsRandomLen_def split: if_splits prod.splits)

lemma recvServerHello_Inr:
  assumes "recvServerHello X c = (Inr (), c')"
  obtains payload sh suite l b where
    "parseBody TypeServerHello payload = Inr (MServerHello sh)"
    "sh_Version sh = tlsVersion12" "sh_CipherSuite sh \<in> set (p_OfferedSuites (cs_params c))"
    "Lookup globalRegistry (sh_CipherSuite sh) = Some suite" "sh_CompressionMethod sh = 0" "\<not> sh_ExtendedMasterSecret sh"
    "set (sh_ExtensionTypes sh) \<subseteq> set (offeredExt (cs_params c))"
    "c' = c\<lparr>cs_layer := l, cs_hsBuf := b, cs_suite := Some suite, cs_serverRandom := sh_Random sh,
       cs_transcript := Transcript_Write (buildEnvelope TypeServerHello payload) (cs_transcript c)\<rparr>"
proof -
  obtain payload c1 sh rest suite where rd: "readHandshakeRecord X c = (Inr (TypeServerHello, payload), c1)"
    and p: "ParseMessage (buildEnvelope TypeServerHello payload) = Inr (MServerHello sh, rest)"
    and a: "sh_Version sh = tlsVersion12" "sh_CipherSuite sh \<in> set (p_OfferedSuites (cs_params c1))"
      "Lookup globalRegistry (sh_CipherSuite sh) = Some suite" "sh_CompressionMethod sh = 0" "\<not> sh_ExtendedMasterSecret sh"
      "list_all (\<lambda>e. e \<in> set (offeredExt (cs_params c1))) (sh_ExtensionTypes sh)"
    and c': "c' = c1\<lparr>cs_suite := Some suite, cs_serverRandom := sh_Random sh,
       cs_transcript := Transcript_Write (buildEnvelope TypeServerHello payload) (cs_transcript c1)\<rparr>"
    using assms
    by (auto simp: recvServerHello_def bindS_eq_Inr liftS_def getS_def modifyS_def transcriptWrite_def assert_Inr
        split: if_splits option.splits)
  obtain l b where c1: "c1 = c\<lparr>cs_layer := l, cs_hsBuf := b\<rparr>" using readHandshakeRecord_eq [OF rd] by blast
  have "parseBody TypeServerHello payload = Inr (MServerHello sh)"
    using p ParseMessage_buildEnvelope [OF readHandshakeRecord_length [OF rd]] by (auto simp: bindR_eq_Inr)
  moreover have "set (sh_ExtensionTypes sh) \<subseteq> set (offeredExt (cs_params c))"
    using a(6) c1 by (auto simp: list_all_iff)
  ultimately show thesis
    using that [where payload = payload and sh = sh and suite = suite and l = l and b = b] a c' c1 by simp
qed

section \<open>The certificate\<close>

text \<open>The check a certificate chain passed: none when verification is switched off, otherwise that of
  \<open>x509gost\<close> or \<open>crypto/x509\<close> for the configured name and for server authentication.\<close>

definition chainAccepted ::
  "('x) ccrypto_scheme \<Rightarrow> ClientParams \<Rightarrow> x509gostCert \<Rightarrow> bytes list \<Rightarrow> chains \<Rightarrow> bool" where
  "chainAccepted X params gc rawCerts verified \<longleftrightarrow>
     (if p_InsecureSkipVerify params then verified = []
      else if gx_IsGOST gc then
        (\<exists>roots inter wire cs. extractGOSTRoots (p_GOSTRoots params) = Inr roots \<and> roots \<noteq> [] \<and>
           extractGOSTIntermediates (p_GOSTIntermediates params) = Inr inter \<and>
           parseGOSTIntermediates X (drop 1 rawCerts) = Inr wire \<and>
           x509gost_Verify X gc \<lparr>gvo_GOSTRoots = roots, gvo_GOSTIntermediates = inter @ wire,
             gvo_DNSName = p_ServerName params, gvo_CurrentTime = time_Now X,
             gvo_KeyUsages = [ExtKeyUsageServerAuth]\<rparr> = Inr cs \<and> verified = gostChainsToStdlib cs)
      else
        (\<exists>leaf pool cs. gx_Stdlib gc = Some leaf \<and> parseStdlibIntermediates X (drop 1 rawCerts) = Inr pool \<and>
           x509_Verify X leaf \<lparr>vo_Roots = p_RootCAs params, vo_Intermediates = pool,
             vo_DNSName = p_ServerName params, vo_CurrentTime = time_Now X,
             vo_KeyUsages = [ExtKeyUsageServerAuth]\<rparr> = Inr cs \<and> verified = map (map Some) cs))"

lemma verifyChain_Inr:
  assumes v: "verifyChain X gc rawCerts c = (Inr (leaf, cs), c')"
  shows "c' = c \<and> leaf = gx_Stdlib gc \<and> chainAccepted X (cs_params c) gc rawCerts cs"
proof (cases "p_InsecureSkipVerify (cs_params c)")
  case True
  then show ?thesis using v by (simp add: verifyChain_def chainAccepted_def Let_def)
next
  case skip: False
  show ?thesis
  proof (cases "gx_IsGOST gc")
    case True
    obtain roots inter wire gcs where g: "extractGOSTRoots (p_GOSTRoots (cs_params c)) = Inr roots"
      "extractGOSTIntermediates (p_GOSTIntermediates (cs_params c)) = Inr inter"
      "parseGOSTIntermediates X (drop 1 rawCerts) = Inr wire"
      "x509gost_Verify X gc \<lparr>gvo_GOSTRoots = roots, gvo_GOSTIntermediates = inter @ wire,
             gvo_DNSName = p_ServerName (cs_params c), gvo_CurrentTime = time_Now X,
             gvo_KeyUsages = [ExtKeyUsageServerAuth]\<rparr> = Inr gcs"
      and r: "leaf = gx_Stdlib gc" "c' = c" "cs = gostChainsToStdlib gcs"
      using v skip True by (auto simp: verifyChain_def bindS_eq_Inr Let_def)
    have "roots \<noteq> []" using g(1) by (auto simp: extractGOSTRoots_def split: anyCerts.splits)
    with g r skip True show ?thesis unfolding chainAccepted_def by auto
  next
    case False
    obtain crt pool scs where g: "gx_Stdlib gc = Some crt" "parseStdlibIntermediates X (drop 1 rawCerts) = Inr pool"
      "x509_Verify X crt \<lparr>vo_Roots = p_RootCAs (cs_params c), vo_Intermediates = pool,
             vo_DNSName = p_ServerName (cs_params c), vo_CurrentTime = time_Now X,
             vo_KeyUsages = [ExtKeyUsageServerAuth]\<rparr> = Inr scs"
      and r: "leaf = gx_Stdlib gc" "c' = c" "cs = map (map Some) scs"
      using v skip False by (auto simp: verifyChain_def bindS_eq_Inr Let_def split: option.splits)
    with skip False show ?thesis unfolding chainAccepted_def by auto
  qed
qed

lemma parseAndVerifyChain_Inr:
  assumes v: "parseAndVerifyChain X rawCerts c = (Inr (leaf, cs), c')"
  obtains gc where "x509gost_ParseCertificate X (hd rawCerts) = Inr gc" "leaf = gx_Stdlib gc"
    "chainAccepted X (cs_params c) gc rawCerts cs"
    "c' = c\<lparr>cs_gostLeaf := if gx_HasGOSTPubKey gc then Some gc else cs_gostLeaf c\<rparr>"
proof -
  obtain gc c1 where gc: "x509gost_ParseCertificate X (hd rawCerts) = Inr gc"
    and c1: "c1 = (if gx_HasGOSTPubKey gc then c\<lparr>cs_gostLeaf := Some gc\<rparr> else c)"
    and k: "verifyChain X gc rawCerts c1 = (Inr (leaf, cs), c')"
    using v by (auto simp: parseAndVerifyChain_def bindS_eq_Inr split: list.splits if_splits)
  have "cs_params c1 = cs_params c" "c1 = c\<lparr>cs_gostLeaf := if gx_HasGOSTPubKey gc then Some gc else cs_gostLeaf c\<rparr>"
    using c1 by simp_all
  with verifyChain_Inr [OF k] gc show thesis by (intro that [of gc]) simp_all
qed

lemma recvCertificate_Inr:
  assumes "recvCertificate X c = (Inr (leaf, certMsg), c')"
  obtains payload l b g chains gc where
    "parseBody TypeCertificate payload = Inr (MCertificate certMsg)" "cert_RawCerts certMsg \<noteq> []"
    "x509gost_ParseCertificate X (hd (cert_RawCerts certMsg)) = Inr gc" "leaf = gx_Stdlib gc"
    "chainAccepted X (cs_params c) gc (cert_RawCerts certMsg) chains"
    "\<forall>f. p_VerifyPeerCertificate (cs_params c) = Some f \<longrightarrow> f (cert_RawCerts certMsg) chains = Inr ()"
    "c' = c\<lparr>cs_layer := l, cs_hsBuf := b, cs_gostLeaf := g,
       cs_transcript := Transcript_Write (buildEnvelope TypeCertificate payload) (cs_transcript c)\<rparr>"
proof -
  obtain payload c1 rest chains c2 where rd: "readHandshakeRecord X c = (Inr (TypeCertificate, payload), c1)"
    and p: "ParseMessage (buildEnvelope TypeCertificate payload) = Inr (MCertificate certMsg, rest)"
    and n: "cert_RawCerts certMsg \<noteq> []"
    and v: "parseAndVerifyChain X (cert_RawCerts certMsg) c1 = (Inr (leaf, chains), c2)"
    and f: "\<forall>f. p_VerifyPeerCertificate (cs_params c2) = Some f \<longrightarrow> f (cert_RawCerts certMsg) chains = Inr ()"
    and c': "c' = c2\<lparr>cs_transcript := Transcript_Write (buildEnvelope TypeCertificate payload) (cs_transcript c2)\<rparr>"
    using assms
    by (auto simp: recvCertificate_def bindS_eq_Inr liftS_def getS_def modifyS_def transcriptWrite_def assert_Inr returnS_def
        split: if_splits option.splits)
  obtain l b where c1: "c1 = c\<lparr>cs_layer := l, cs_hsBuf := b\<rparr>" using readHandshakeRecord_eq [OF rd] by blast
  obtain gc where gc: "x509gost_ParseCertificate X (hd (cert_RawCerts certMsg)) = Inr gc" "leaf = gx_Stdlib gc"
    "chainAccepted X (cs_params c) gc (cert_RawCerts certMsg) chains"
    and c2: "c2 = c1\<lparr>cs_gostLeaf := if gx_HasGOSTPubKey gc then Some gc else cs_gostLeaf c1\<rparr>"
    using parseAndVerifyChain_Inr [OF v] c1 by simp metis
  have "parseBody TypeCertificate payload = Inr (MCertificate certMsg)"
    using p ParseMessage_buildEnvelope [OF readHandshakeRecord_length [OF rd]] by (auto simp: bindR_eq_Inr)
  then show thesis
    using that [where payload = payload and l = l and b = b and gc = gc and chains = chains
        and g = "if gx_HasGOSTPubKey gc then Some gc else cs_gostLeaf c1"] n gc f c' c1 c2
    by simp
qed

section \<open>ServerKeyExchange\<close>

text \<open>A ServerKeyExchange body whose parameters carry a signature, of an advertised algorithm that
  fits the suite, over both randoms and the parameters.\<close>

definition skeSigned :: "('x) ccrypto_scheme \<Rightarrow> x509Cert option \<Rightarrow> Suite \<Rightarrow> bytes \<Rightarrow> bytes \<Rightarrow> bytes \<Rightarrow> bool" where
  "skeSigned X cert suite randoms body params \<longleftrightarrow>
     (\<exists>hashAlg sigAlg sig trail.
        body = params @ [hashAlg, sigAlg] @ put16 (of_nat (length sig)) @ sig @ trail \<and> length sig < 2 ^ 16 \<and>
        sigAlgAdvertised hashAlg sigAlg \<and> skeSigAlgMatchesAuth sigAlg (s_Auth suite) \<and>
        verifySignature X cert hashAlg sigAlg (randoms @ params) sig = Inr ())"

lemma verifySKESignature_signed:
  assumes "verifySKESignature X sp sigData cert e1 e2 c = (Inr r, c')" "cs_suite c = Some suite"
  shows "c' = c \<and> skeSigned X cert suite (cs_clientRandom c @ cs_serverRandom c) (sp @ sigData) r"
proof -
  note v = verifySKESignature_Inr [OF assms(1)]
  obtain h s b2 b3 rest where d: "sigData = h # s # b2 # b3 # rest"
    using v(3) by (auto simp: numeral_eq_Suc Suc_le_length_iff)
  let ?n = "unat (get16 b2 b3)"
  have n: "?n \<le> length rest" using v(6) d by simp
  then have sig: "put16 (of_nat (length (take ?n rest))) = [b2, b3]" by (simp add: put16_get16)
  have "sp @ sigData = sp @ [h, s] @ put16 (of_nat (length (take ?n rest))) @ take ?n rest @ drop ?n rest"
    unfolding sig d by simp
  moreover have "length (take ?n rest) < 2 ^ 16" using n unat_u16_lt [of "get16 b2 b3"] by simp
  moreover have "verifySignature X cert h s (cs_clientRandom c @ cs_serverRandom c @ sp) (take ?n rest) = Inr ()"
    using v(7) d by (simp add: slice_def)
  ultimately show ?thesis using v(1,2,4,5) assms(2) d unfolding skeSigned_def by fastforce
qed

lemma readU16LenPrefixedBuf_suffix:
  "readU16LenPrefixedBuf buf = Inr rest \<Longrightarrow> \<exists>p. buf = p @ rest"
  by (metis readU16LenPrefixedBuf_Inr append.assoc)

lemma verifyServerKeyExchange_Inr:
  assumes "verifyServerKeyExchange X body cert c = (Inr r, c')" "cs_suite c = Some suite"
  shows "c' = c \<and> s_KX suite \<in> {KexDHE, KexECDHE} \<and> skeSigned X cert suite (cs_clientRandom c @ cs_serverRandom c) body r"
proof (cases "s_KX suite = KexECDHE")
  case True
  let ?n = "4 + unat (body ! 3)"
  have "verifySKESignature X (take ?n body) (drop ?n body) cert
    (Sentinel ''errECDHESigSectionShort'') (Sentinel ''errECDHESigTruncated'') c = (Inr r, c')"
    using assms True
    by (auto simp: verifyServerKeyExchange_def verifyECDHEServerKeyExchange_def bindS_eq_Inr Let_def split: if_splits)
  from verifySKESignature_signed [OF this assms(2)] True show ?thesis by simp
next
  case False
  obtain r1 r2 r3 where r: "readU16LenPrefixedBuf body = Inr r1" "readU16LenPrefixedBuf r1 = Inr r2" "readU16LenPrefixedBuf r2 = Inr r3"
    and v: "verifySKESignature X (take (length body - length r3) body) r3 cert
      (Sentinel ''errDHESigSectionShort'') (Sentinel ''errDHESigTruncated'') c = (Inr r, c')"
    and k: "s_KX suite = KexDHE"
    using assms False
    by (auto simp: verifyServerKeyExchange_def verifyDHEServerKeyExchange_def bindS_eq_Inr Let_def split: if_splits)
  obtain p where "body = p @ r3" using r [THEN readU16LenPrefixedBuf_suffix] by auto
  then have "take (length body - length r3) body @ r3 = body" by simp
  with verifySKESignature_signed [OF v assms(2)] k show ?thesis by simp
qed

section \<open>The server flight as a transition system\<close>

text \<open>What one message of the flight does, by its type.\<close>

lemma flightMessage_cases:
  assumes "flightMessage X cert fl t body c = (Inr r, c')" "cs_suite c = Some suite" "length body \<le> maxHandshakeMsg"
  obtains
    (ske) params where "t = TypeServerKeyExchange" "\<not> fl_sawSKE fl" "\<not> fl_sawCertReq fl"
      "s_KX suite \<in> {KexDHE, KexECDHE}"
      "skeSigned X cert suite (cs_clientRandom c @ cs_serverRandom c) body params"
      "r = Inl (fl\<lparr>fl_sawSKE := True, fl_params := params\<rparr>)"
      "c' = c\<lparr>cs_transcript := Transcript_Write (buildEnvelope t body) (cs_transcript c)\<rparr>"
  | (creq) certReq where "t = TypeCertificateRequest" "\<not> fl_sawCertReq fl"
      "parseBody TypeCertificateRequest body = Inr (MCertificateRequest certReq)"
      "r = Inl (fl\<lparr>fl_sawCertReq := True\<rparr>)"
      "c' = c\<lparr>cs_certReq := Some certReq, cs_transcript := Transcript_Write (buildEnvelope t body) (cs_transcript c)\<rparr>"
  | (finish) "t = TypeServerHelloDone" "body = []" "r = Inr fl"
      "c' = c\<lparr>cs_transcript := Transcript_Write (buildEnvelope t body) (cs_transcript c)\<rparr>"
proof -
  note p = ParseMessage_buildEnvelope [OF assms(3)]
  consider "t = TypeServerKeyExchange" | "t = TypeCertificateRequest" | "t = TypeServerHelloDone"
    using assms(1) by (auto simp: flightMessage_def split: if_splits)
  then show thesis
  proof cases
    case 1
    obtain c1 params where a: "\<not> fl_sawSKE fl" "\<not> fl_sawCertReq fl"
      and v: "verifyServerKeyExchange X body cert c1 = (Inr params, c')"
      and c1: "c1 = c\<lparr>cs_transcript := Transcript_Write (buildEnvelope t body) (cs_transcript c)\<rparr>"
      and r: "r = Inl (fl\<lparr>fl_sawSKE := True, fl_params := params\<rparr>)"
      using assms(1) 1
      by (auto simp: flightMessage_def p bindS_eq_Inr bindR_eq_Inr transcriptWrite_def parseBody_def parseServerKeyExchange_def
          type_defs assert_Inr split: if_splits)
    have "cs_suite c1 = Some suite" using c1 assms(2) by simp
    from verifyServerKeyExchange_Inr [OF v this] a r c1 show thesis by (intro ske [OF 1]) simp_all
  next
    case 2
    show thesis
      using assms(1) 2
      by (auto simp: flightMessage_def p bindS_eq_Inr bindR_eq_Inr transcriptWrite_def type_defs
          assert_Inr split: if_splits intro!: creq)
  next
    case 3
    show thesis
      using assms(1) 3
      by (auto simp: flightMessage_def p bindS_eq_Inr bindR_eq_Inr transcriptWrite_def type_defs
          assert_Inr parseBody_def parseServerHelloDone_def split: if_splits intro!: finish)
  qed
qed

text \<open>The flights a server may send, as a transition system over the loop's variables and the
  certificate request: at most one ServerKeyExchange, before at most one CertificateRequest, and a
  ServerHelloDone at the end.\<close>

inductive server_flight ::
  "('x) ccrypto_scheme \<Rightarrow> x509Cert option \<Rightarrow> Suite \<Rightarrow> bytes \<Rightarrow> flight \<Rightarrow> CertificateRequest option \<Rightarrow>
   (Type \<times> bytes) list \<Rightarrow> flight \<Rightarrow> CertificateRequest option \<Rightarrow> bool"
  for X :: "('x) ccrypto_scheme" and cert :: "x509Cert option" and suite :: Suite and randoms :: bytes
where
  hello_done: "server_flight X cert suite randoms fl cr [(TypeServerHelloDone, [])] fl cr"
| key_exchange: "\<not> fl_sawSKE fl \<Longrightarrow> \<not> fl_sawCertReq fl \<Longrightarrow> s_KX suite \<in> {KexDHE, KexECDHE} \<Longrightarrow>
    skeSigned X cert suite randoms body params \<Longrightarrow>
    server_flight X cert suite randoms (fl\<lparr>fl_sawSKE := True, fl_params := params\<rparr>) cr ms fl' cr' \<Longrightarrow>
    server_flight X cert suite randoms fl cr ((TypeServerKeyExchange, body) # ms) fl' cr'"
| certificate_request: "\<not> fl_sawCertReq fl \<Longrightarrow>
    parseBody TypeCertificateRequest body = Inr (MCertificateRequest certReq) \<Longrightarrow>
    server_flight X cert suite randoms (fl\<lparr>fl_sawCertReq := True\<rparr>) (Some certReq) ms fl' cr' \<Longrightarrow>
    server_flight X cert suite randoms fl cr ((TypeCertificateRequest, body) # ms) fl' cr'"

inductive_cases server_flight_ConsE: "server_flight X cert suite randoms fl cr ((t, body) # ms) fl' cr'"

abbreviation envelopes :: "(Type \<times> bytes) list \<Rightarrow> bytes list" where
  "envelopes ms \<equiv> map (\<lambda>(t, body). buildEnvelope t body) ms"

text \<open>Every run of the receive loop that ends without an error is a path of that system, and the
  transcript records its messages.\<close>

lemma recvServerFlight_loop_simulates:
  assumes "recvServerFlight_loop X cert fl c = (Inr fl', c')" "cs_suite c = Some suite"
  shows "\<exists>ms l b r. server_flight X cert suite (cs_clientRandom c @ cs_serverRandom c) fl (cs_certReq c) ms fl' r \<and>
    c' = c\<lparr>cs_layer := l, cs_hsBuf := b, cs_certReq := r, cs_transcript := writes (envelopes ms) (cs_transcript c)\<rparr>"
  using assms
proof (induction X cert fl c rule: recvServerFlight_loop.induct)
  case (1 X cert fl c)
  obtain r c2 where st: "flightStep X cert fl c = (Inr r, c2)"
    and k: "case r of Inl fl1 \<Rightarrow> recvServerFlight_loop X cert fl1 c2 = (Inr fl', c') | Inr fl1 \<Rightarrow> fl1 = fl' \<and> c2 = c'"
    using "1.prems"(1) by (subst (asm) recvServerFlight_loop.simps) (auto split: prod.splits sum.splits)
  obtain t body c1 where rd: "readHandshakeRecord X c = (Inr (t, body), c1)" and m: "flightMessage X cert fl t body c1 = (Inr r, c2)"
    using flightStep_Inr [OF st] by blast
  obtain l b where c1: "c1 = c\<lparr>cs_layer := l, cs_hsBuf := b\<rparr>" using readHandshakeRecord_eq [OF rd] by blast
  have s1: "cs_suite c1 = Some suite" using c1 "1.prems"(2) by simp
  show ?case
    using m s1 readHandshakeRecord_length [OF rd]
  proof (cases rule: flightMessage_cases)
    case (ske params)
    have s2: "cs_suite c2 = Some suite" using ske c1 "1.prems"(2) by simp
    obtain ms l' b' q where
      p: "server_flight X cert suite (cs_clientRandom c @ cs_serverRandom c) (fl\<lparr>fl_sawSKE := True, fl_params := params\<rparr>)
           (cs_certReq c) ms fl' q"
      and "c' = c2\<lparr>cs_layer := l', cs_hsBuf := b', cs_certReq := q, cs_transcript := writes (envelopes ms) (cs_transcript c2)\<rparr>"
      using "1.IH" [OF st [symmetric] refl ske(6) _ s2] k ske c1 by auto
    moreover have "server_flight X cert suite (cs_clientRandom c @ cs_serverRandom c) fl (cs_certReq c)
        ((TypeServerKeyExchange, body) # ms) fl' q"
      using ske(2-5) c1 p by (intro server_flight.key_exchange) simp_all
    ultimately show ?thesis
      using ske(1,7) c1
      by (intro exI [of _ "(t, body) # ms"] exI [of _ l'] exI [of _ b'] exI [of _ q]) simp
  next
    case (creq certReq)
    have s2: "cs_suite c2 = Some suite" using creq c1 "1.prems"(2) by simp
    obtain ms l' b' q where
      p: "server_flight X cert suite (cs_clientRandom c @ cs_serverRandom c) (fl\<lparr>fl_sawCertReq := True\<rparr>) (Some certReq) ms fl' q"
      and "c' = c2\<lparr>cs_layer := l', cs_hsBuf := b', cs_certReq := q, cs_transcript := writes (envelopes ms) (cs_transcript c2)\<rparr>"
      using "1.IH" [OF st [symmetric] refl creq(4) _ s2] k creq c1 by auto
    moreover have "server_flight X cert suite (cs_clientRandom c @ cs_serverRandom c) fl (cs_certReq c)
        ((TypeCertificateRequest, body) # ms) fl' q"
      using creq(2,3) p by (rule server_flight.certificate_request)
    ultimately show ?thesis
      using creq(1,5) c1
      by (intro exI [of _ "(t, body) # ms"] exI [of _ l'] exI [of _ b'] exI [of _ q]) simp
  next
    case finish
    then show ?thesis
      using k c1 server_flight.hello_done [of X cert suite "cs_clientRandom c @ cs_serverRandom c" fl "cs_certReq c"]
      by (intro exI [of _ "[(t, body)]"] exI [of _ l] exI [of _ b] exI [of _ "cs_certReq c"]) simp
  qed
qed

text \<open>Invariants of the transition system.\<close>

lemma server_flight_SKE:
  "server_flight X cert suite randoms fl cr ms fl' cr' \<Longrightarrow>
     (fl_sawSKE fl' \<longleftrightarrow> fl_sawSKE fl \<or> TypeServerKeyExchange \<in> fst ` set ms) \<and>
     (TypeServerKeyExchange \<in> fst ` set ms \<longrightarrow> s_KX suite \<in> {KexDHE, KexECDHE}) \<and>
     (if fl_sawSKE fl' \<and> \<not> fl_sawSKE fl
      then \<exists>body. (TypeServerKeyExchange, body) \<in> set ms \<and> skeSigned X cert suite randoms body (fl_params fl')
      else fl_params fl' = fl_params fl)"
  by (induction rule: server_flight.induct) (auto simp: type_defs)

lemma server_flight_order:
  "server_flight X cert suite randoms fl cr ms fl' cr' \<Longrightarrow>
     map fst ms \<in>
       (if fl_sawCertReq fl then {[TypeServerHelloDone]}
        else if fl_sawSKE fl then {[TypeServerHelloDone], [TypeCertificateRequest, TypeServerHelloDone]}
        else {[TypeServerHelloDone], [TypeCertificateRequest, TypeServerHelloDone],
              [TypeServerKeyExchange, TypeServerHelloDone],
              [TypeServerKeyExchange, TypeCertificateRequest, TypeServerHelloDone]})"
  by (induction rule: server_flight.induct) (auto split: if_splits)

lemma server_flight_certReq:
  "server_flight X cert suite randoms fl cr ms fl' cr' \<Longrightarrow> fl_sawCertReq fl \<longrightarrow> cr \<noteq> None \<Longrightarrow>
     cr' \<noteq> None \<longleftrightarrow> cr \<noteq> None \<or> TypeCertificateRequest \<in> fst ` set ms"
  by (induction rule: server_flight.induct) (auto simp: type_defs)

text \<open>The flight as \<open>recvServerFlight\<close> accepts it.\<close>

abbreviation flightStart :: flight where
  "flightStart \<equiv> \<lparr>fl_sawSKE = False, fl_sawCertReq = False, fl_params = []\<rparr>"

lemma recvServerFlight_Inr:
  assumes "recvServerFlight X cert c = (Inr params, c')" "cs_suite c = Some suite"
  obtains ms fl' l b r where
    "server_flight X cert suite (cs_clientRandom c @ cs_serverRandom c) flightStart (cs_certReq c) ms fl' r"
    "params = fl_params fl'" "fl_sawSKE fl' \<longleftrightarrow> s_KX suite \<in> {KexDHE, KexECDHE}"
    "c' = c\<lparr>cs_layer := l, cs_hsBuf := b, cs_certReq := r, cs_transcript := writes (envelopes ms) (cs_transcript c)\<rparr>"
proof -
  obtain fl' s1 where lp: "recvServerFlight_loop X cert flightStart c = (Inr fl', c')"
    and s: "cs_suite c' = Some s1" "fl_sawSKE fl' \<or> s_KX s1 \<noteq> KexDHE \<and> s_KX s1 \<noteq> KexECDHE" "params = fl_params fl'"
    using assms(1) by (auto simp: recvServerFlight_def bindS_eq_Inr split: if_splits)
  obtain ms l b r where sf: "server_flight X cert suite (cs_clientRandom c @ cs_serverRandom c) flightStart (cs_certReq c) ms fl' r"
    and c': "c' = c\<lparr>cs_layer := l, cs_hsBuf := b, cs_certReq := r, cs_transcript := writes (envelopes ms) (cs_transcript c)\<rparr>"
    using recvServerFlight_loop_simulates [OF lp assms(2)] by blast
  have "cs_suite c' = Some suite" using c' assms(2) by simp
  moreover have "fl_sawSKE fl' \<Longrightarrow> s_KX suite \<in> {KexDHE, KexECDHE}" using server_flight_SKE [OF sf] by simp
  ultimately show thesis using that [OF sf s(3) _ c'] s(1,2) by auto
qed

end
