(* ===== verification/HandshakeSteps.thy ===== *)
theory HandshakeSteps
  imports ServerFlight
begin

text \<open>
  What the second half of the handshake has established when it returns without an error: the
  key exchange moves only the random sources, the messages the client sends, the two Finished
  messages, and the whole of \<open>ClientState.Handshake\<close> as the sequence of its steps.
\<close>

section \<open>The key exchange and the keys\<close>

text \<open>Only the random sources moved.\<close>

definition randMoved :: "ClientState \<Rightarrow> ClientState \<Rightarrow> bool" where
  "randMoved c c' \<longleftrightarrow>
     (\<exists>r q. c' = c\<lparr>cs_layer := (cs_layer c)\<lparr>l_rw := (l_rw (cs_layer c))\<lparr>n_rand := r\<rparr>\<rparr>, cs_params := (cs_params c)\<lparr>p_Rand := q\<rparr>\<rparr>)"

lemma randMoved_refl [simp]: "randMoved c c"
proof -
  have "c = c\<lparr>cs_layer := (cs_layer c)\<lparr>l_rw := (l_rw (cs_layer c))\<lparr>n_rand := n_rand (l_rw (cs_layer c))\<rparr>\<rparr>,
      cs_params := (cs_params c)\<lparr>p_Rand := p_Rand (cs_params c)\<rparr>\<rparr>" by simp
  then show ?thesis unfolding randMoved_def by blast
qed

lemma randMoved_trans: "randMoved c c' \<Longrightarrow> randMoved c' c'' \<Longrightarrow> randMoved c c''"
  unfolding randMoved_def by (elim exE) (rule exI, rule exI, simp)

lemma withParamsRand_moved: "withParamsRand m c = (res, c') \<Longrightarrow> randMoved c c'"
  unfolding randMoved_def by (rule withParamsRand_eq)

lemma withSysRand_moved:
  assumes "withSysRand m c = (res, c')"
  shows "randMoved c c'"
proof -
  obtain r where c': "c' = c\<lparr>cs_layer := (cs_layer c)\<lparr>l_rw := (l_rw (cs_layer c))\<lparr>n_rand := r\<rparr>\<rparr>\<rparr>"
    using withSysRand_eq [OF assms] by blast
  have "c' = c\<lparr>cs_layer := (cs_layer c)\<lparr>l_rw := (l_rw (cs_layer c))\<lparr>n_rand := r\<rparr>\<rparr>, cs_params := (cs_params c)\<lparr>p_Rand := p_Rand (cs_params c)\<rparr>\<rparr>"
    unfolding c' by simp
  then show ?thesis unfolding randMoved_def by blast
qed

lemma Exchange_ClientKeyExchange_moved:
  "Exchange_ClientKeyExchange X ex sp c = (res, c') \<Longrightarrow> randMoved c c'"
  by (cases ex) (auto intro: withParamsRand_moved withSysRand_moved)

text \<open>The exchange that was chosen fits the suite.\<close>

fun exchangeFits :: "x509Cert option \<Rightarrow> KexKind \<Rightarrow> Exchange \<Rightarrow> bool" where
  "exchangeFits cert k ExECDHE = (k = KexECDHE)"
| "exchangeFits cert k (ExDHE privateX) = (k = KexDHE \<and> privateX = None)"
| "exchangeFits cert k (ExRSA pub) = (k = KexRSA \<and> (\<exists>crt. cert = Some crt \<and> x5_PublicKey crt = PubRSA pub))"
| "exchangeFits cert k (ExVKO2001 e) = (k = KexGOST2001)"
| "exchangeFits cert k (ExVKO2012 e) = (k = KexGOST2012_256)"
| "exchangeFits cert k (Ex2018 e) = (k = KexGOST2018_256)"

lemma buildGOSTExchange_Inr:
  assumes "buildGOSTExchange X c = (Inr ex, c')" "cs_suite c = Some suite"
  shows "randMoved c c' \<and> exchangeFits cert (s_KX suite) ex"
  using assms unfolding buildGOSTExchange_def buildGOST2018Exchange_def
  by (auto simp: bindS_eq_Inr split: option.splits if_splits dest!: withSysRand_moved)

lemma chooseExchange_Inr:
  assumes "chooseExchange X cert suite c = (Inr ex, c')" "cs_suite c = Some suite"
  shows "randMoved c c' \<and> exchangeFits cert (s_KX suite) ex"
  using assms buildGOSTExchange_Inr [of X c ex c' suite cert]
  by (cases "s_KX suite") (auto simp: chooseExchange_def split: option.splits PublicKey.splits)

lemma computeKeyExchange_Inr:
  assumes "computeKeyExchange X cert sp raw c = (Inr (preMaster, ckeBody), c')" "cs_suite c = Some suite"
  obtains ex c1 where "exchangeFits cert (s_KX suite) ex"
    "Exchange_ClientKeyExchange X ex sp c1 = (Inr (ckeBody, preMaster), c')" "randMoved c c1" "randMoved c1 c'"
proof -
  obtain ex c1 where ch: "chooseExchange X cert suite c = (Inr ex, c1)"
    and x: "Exchange_ClientKeyExchange X ex sp c1 = (Inr (ckeBody, preMaster), c')"
    using assms by (auto simp: computeKeyExchange_def bindS_eq_Inr)
  from that [OF _ x _ Exchange_ClientKeyExchange_moved [OF x]] chooseExchange_Inr [OF ch assms(2)]
  show thesis by blast
qed

lemma expandKeys_Inr:
  assumes "expandKeys X c = (Inr (km, sendProt, recvProt), c')"
  obtains suite where "c' = c" "cs_suite c = Some suite"
    "expandKeysManual X suite (cs_masterSecret c) (cs_clientRandom c) (cs_serverRandom c) (expandKeysIVLen suite) = Inr km"
    "buildProtectors X suite km = Inr (sendProt, recvProt)"
  using assms by (auto simp: expandKeys_def bindS_eq_Inr Let_def split: if_splits)

section \<open>Messages of the client\<close>

lemma sendHandshake_Inr:
  assumes "sendHandshake X msg c = (Inr (), c')"
  shows "\<exists>l. WriteRecord X ContentTypeHandshake (MarshalMessage msg) (cs_layer c) = (Inr (), l) \<and>
    c' = c\<lparr>cs_layer := l, cs_transcript := Transcript_Write (MarshalMessage msg) (cs_transcript c)\<rparr>"
  using assms by (auto simp: sendHandshake_def Let_def bindS_eq_Inr transcriptWrite_def dest!: onLayer_eq)

text \<open>The client Certificate answers a request; it carries the configured certificate exactly when a
  signature algorithm could be chosen for its key.\<close>

definition clientCertificateOf :: "ClientState \<Rightarrow> Certificate" where
  "clientCertificateOf c =
     (case p_Certificates (cs_params c) of
        [] \<Rightarrow> \<lparr>cert_RawCerts = []\<rparr>
      | cert # _ \<Rightarrow> if snd (selectClientSigAlg c) then \<lparr>cert_RawCerts = [cc_RawCertificate cert]\<rparr> else \<lparr>cert_RawCerts = []\<rparr>)"

lemma selectClientSigAlg_certs: "snd (selectClientSigAlg c) \<Longrightarrow> p_Certificates (cs_params c) \<noteq> []"
  by (auto simp: selectClientSigAlg_def split: list.splits option.splits)

lemma sendClientCertificate_eq:
  "sendClientCertificate X c =
     bindS (sendHandshake X (MCertificate (clientCertificateOf c))) (\<lambda>_. returnS (snd (selectClientSigAlg c))) c"
proof -
  obtain alg ok where sel: "selectClientSigAlg c = (alg, ok)" by fastforce
  have "(case p_Certificates (cs_params c) of [] \<Rightarrow> \<lparr>cert_RawCerts = []\<rparr>
      | cert # _ \<Rightarrow> if \<not> ok then \<lparr>cert_RawCerts = []\<rparr> else \<lparr>cert_RawCerts = [cc_RawCertificate cert]\<rparr>) = clientCertificateOf c"
    by (simp add: clientCertificateOf_def sel split: list.splits)
  moreover have "(ok \<and> length (p_Certificates (cs_params c)) > 0) = ok"
    using selectClientSigAlg_certs [of c] sel by auto
  ultimately show ?thesis
    unfolding sendClientCertificate_def by (simp only: bindS_Inr getS_apply sel prod.case Let_def snd_conv)
qed

lemma clientCertificateStep_Inr:
  assumes "clientCertificateStep X c = (Inr (), c')" "\<not> cs_clientCertSent c"
  obtains l where "l_recvProt l = l_recvProt (cs_layer c)"
    "c' = c\<lparr>cs_layer := l,
       cs_transcript := writes (if cs_certReq c = None then [] else [MarshalMessage (MCertificate (clientCertificateOf c))]) (cs_transcript c),
       cs_clientCertSent := cs_certReq c \<noteq> None \<and> snd (selectClientSigAlg c),
       cs_clientSigAlg := if cs_certReq c \<noteq> None \<and> snd (selectClientSigAlg c) then fst (selectClientSigAlg c) else cs_clientSigAlg c\<rparr>"
proof (cases "cs_certReq c = None")
  case True
  then have "c' = c" using assms by (simp add: clientCertificateStep_def)
  with True assms(2) show thesis using that [of "cs_layer c"] by simp
next
  case False
  obtain alg ok where sel: "selectClientSigAlg c = (alg, ok)" by fastforce
  obtain c1 where s: "sendHandshake X (MCertificate (clientCertificateOf c)) c = (Inr (), c1)"
    and c': "c' = (if ok then c1\<lparr>cs_clientCertSent := True, cs_clientSigAlg := alg\<rparr> else c1)"
    using assms(1) False
    by (auto simp: clientCertificateStep_def sendClientCertificate_eq bindS_eq_Inr sel split: if_splits)
  obtain l where w: "WriteRecord X ContentTypeHandshake (MarshalMessage (MCertificate (clientCertificateOf c))) (cs_layer c) = (Inr (), l)"
    and c1: "c1 = c\<lparr>cs_layer := l, cs_transcript := Transcript_Write (MarshalMessage (MCertificate (clientCertificateOf c))) (cs_transcript c)\<rparr>"
    using sendHandshake_Inr [OF s] by blast
  have "l_recvProt l = l_recvProt (cs_layer c)" using w by (rule WriteRecord_Inr) simp
  then show thesis using False c' c1 sel assms(2) by (intro that [of l]) auto
qed

text \<open>A CertificateVerify signature: made with the configured key, over the digest of the transcript.\<close>

definition cvSigned :: "('x) ccrypto_scheme \<Rightarrow> ClientCertificate list \<Rightarrow> SigAndHash \<Rightarrow> Transcript \<Rightarrow> bytes \<Rightarrow> bool" where
  "cvSigned X certs alg transcript sig \<longleftrightarrow>
     (\<exists>cert rest h digest rnd rnd'. certs = cert # rest \<and> hashForSigAlg (sah_Hash alg) = Inr h \<and>
        Transcript_Sum (Some (cryptoHash_New X h)) transcript = Inr digest \<and>
        (case cc_PrivateKey cert of
           PrivRSA k \<Rightarrow> rsa_SignPKCS1v15 X k h digest rnd = (Inr sig, rnd')
         | PrivECDSA k \<Rightarrow> ecdsa_SignASN1 X k digest rnd = (Inr sig, rnd')
         | PrivOther \<Rightarrow> False))"

lemma withParamsRand_run:
  assumes "withParamsRand m c = (res, c')"
  shows "\<exists>rnd rnd'. m rnd = (res, rnd')"
  using assms by (auto simp: withParamsRand_def withSysRand_def split: option.splits prod.splits)

lemma sendCertificateVerify_Inr:
  assumes "sendCertificateVerify X alg c = (Inr (), c')"
  obtains sig c1 where "cvSigned X (p_Certificates (cs_params c)) alg (cs_transcript c) sig" "randMoved c c1"
    "sendHandshake X (MCertificateVerify \<lparr>cv_Algorithm = alg, cv_Signature = sig\<rparr>) c1 = (Inr (), c')"
proof -
  obtain cert rest where certs: "p_Certificates (cs_params c) = cert # rest"
    using assms by (cases "p_Certificates (cs_params c)") (auto simp: sendCertificateVerify_def bindS_eq_Inr)
  obtain h digest sig c1 where a: "hashForSigAlg (sah_Hash alg) = Inr h"
    "Transcript_Sum (Some (cryptoHash_New X h)) (cs_transcript c) = Inr digest"
    and sg: "(case cc_PrivateKey cert of
                  PrivRSA k \<Rightarrow> orFatal X AlertInternalError (withParamsRand (rsa_SignPKCS1v15 X k h digest))
                | PrivECDSA k \<Rightarrow> orFatal X AlertInternalError (withParamsRand (ecdsa_SignASN1 X k digest))
                | PrivOther \<Rightarrow> fatal X AlertInternalError (Sentinel ''errUnsupportedKeyType'')) c = (Inr sig, c1)"
    and s: "sendHandshake X (MCertificateVerify \<lparr>cv_Algorithm = alg, cv_Signature = sig\<rparr>) c1 = (Inr (), c')"
    using assms by (auto simp: sendCertificateVerify_def bindS_eq_Inr certs)
  have "\<exists>rnd rnd'. (case cc_PrivateKey cert of
           PrivRSA k \<Rightarrow> rsa_SignPKCS1v15 X k h digest rnd = (Inr sig, rnd')
         | PrivECDSA k \<Rightarrow> ecdsa_SignASN1 X k digest rnd = (Inr sig, rnd')
         | PrivOther \<Rightarrow> False)"
    using sg by (auto split: PrivateKey.splits dest: withParamsRand_run)
  moreover have "randMoved c c1" using sg by (auto split: PrivateKey.splits dest: withParamsRand_moved)
  ultimately show thesis using that [OF _ _ s] a certs unfolding cvSigned_def by blast
qed

lemma randMoved_fields:
  assumes "randMoved c c'"
  obtains l q where "c' = c\<lparr>cs_layer := l, cs_params := (cs_params c)\<lparr>p_Rand := q\<rparr>\<rparr>"
    "l_recvProt l = l_recvProt (cs_layer c)" "l_sendProt l = l_sendProt (cs_layer c)"
    "l_sendSeq l = l_sendSeq (cs_layer c)" "l_recvSeq l = l_recvSeq (cs_layer c)"
proof -
  from assms obtain r q where "c' = c\<lparr>cs_layer := (cs_layer c)\<lparr>l_rw := (l_rw (cs_layer c))\<lparr>n_rand := r\<rparr>\<rparr>, cs_params := (cs_params c)\<lparr>p_Rand := q\<rparr>\<rparr>"
    unfolding randMoved_def by blast
  then show thesis by (rule that) simp_all
qed

lemma sendHandshake_fields:
  assumes "sendHandshake X msg c = (Inr (), c')"
  obtains l where "c' = c\<lparr>cs_layer := l, cs_transcript := Transcript_Write (MarshalMessage msg) (cs_transcript c)\<rparr>"
    "l_recvProt l = l_recvProt (cs_layer c)" "l_sendSeq l = l_sendSeq (cs_layer c) + 1" "l_recvSeq l = l_recvSeq (cs_layer c)"
proof -
  obtain l where w: "WriteRecord X ContentTypeHandshake (MarshalMessage msg) (cs_layer c) = (Inr (), l)"
    and c': "c' = c\<lparr>cs_layer := l, cs_transcript := Transcript_Write (MarshalMessage msg) (cs_transcript c)\<rparr>"
    using sendHandshake_Inr [OF assms] by blast
  show thesis using w by (rule WriteRecord_Inr) (rule that [OF c'], simp_all)
qed

lemma certificateVerifyStep_Inr:
  assumes "certificateVerifyStep X c = (Inr (), c')"
  obtains l q sig where "l_recvProt l = l_recvProt (cs_layer c)"
    "cs_clientCertSent c \<Longrightarrow> cvSigned X (p_Certificates (cs_params c)) (cs_clientSigAlg c) (cs_transcript c) sig"
    "c' = c\<lparr>cs_layer := l, cs_params := (cs_params c)\<lparr>p_Rand := q\<rparr>,
       cs_transcript := writes (if cs_clientCertSent c
         then [MarshalMessage (MCertificateVerify \<lparr>cv_Algorithm = cs_clientSigAlg c, cv_Signature = sig\<rparr>)] else []) (cs_transcript c)\<rparr>"
proof (cases "cs_clientCertSent c")
  case False
  then have "c' = c" using assms by (simp add: certificateVerifyStep_def)
  with False show thesis using that [of "cs_layer c" _ "p_Rand (cs_params c)"] by simp
next
  case True
  then have "sendCertificateVerify X (cs_clientSigAlg c) c = (Inr (), c')" using assms by (simp add: certificateVerifyStep_def)
  then obtain sig c1 where sg: "cvSigned X (p_Certificates (cs_params c)) (cs_clientSigAlg c) (cs_transcript c) sig" and m: "randMoved c c1"
    and s: "sendHandshake X (MCertificateVerify \<lparr>cv_Algorithm = cs_clientSigAlg c, cv_Signature = sig\<rparr>) c1 = (Inr (), c')"
    by (rule sendCertificateVerify_Inr)
  from m obtain l1 q where c1: "c1 = c\<lparr>cs_layer := l1, cs_params := (cs_params c)\<lparr>p_Rand := q\<rparr>\<rparr>" "l_recvProt l1 = l_recvProt (cs_layer c)"
    by (rule randMoved_fields)
  from s obtain l where "c' = c1\<lparr>cs_layer := l, cs_transcript := Transcript_Write (MarshalMessage
      (MCertificateVerify \<lparr>cv_Algorithm = cs_clientSigAlg c, cv_Signature = sig\<rparr>)) (cs_transcript c1)\<rparr>"
    "l_recvProt l = l_recvProt (cs_layer c1)" by (rule sendHandshake_fields)
  with c1 sg True show thesis by (intro that [of l sig q]) simp_all
qed

section \<open>Finished\<close>

lemma sendClientFinished_Inr:
  assumes "sendClientFinished X ms sendProt c = (Inr (), c')" "cs_suite c = Some suite"
  obtains digest vd l0 l where "Transcript_Sum (Some (newHash X (s_PRF suite))) (cs_transcript c) = Inr digest"
    "FinishedVerifyData (newHash X) suite ms ''client finished'' digest = Inr vd"
    "l_recvProt l0 = l_recvProt (cs_layer c)" "l_recvSeq l0 = l_recvSeq (cs_layer c)"
    "WriteRecord X ContentTypeHandshake (MarshalMessage (MFinished \<lparr>fin_VerifyData = vd\<rparr>)) (ChangeCipherSpec (Some sendProt) None l0) = (Inr (), l)"
    "c' = c\<lparr>cs_layer := l, cs_transcript := Transcript_Write (MarshalMessage (MFinished \<lparr>fin_VerifyData = vd\<rparr>)) (cs_transcript c)\<rparr>"
proof -
  obtain c1 c2 digest vd where w: "onLayer (WriteRecord X ContentTypeChangeCipherSpec [1]) c = (Inr (), c1)"
    and c2: "c2 = c1\<lparr>cs_layer := ChangeCipherSpec (Some sendProt) None (cs_layer c1)\<rparr>"
    and d: "Transcript_Sum (Some (newHash X (s_PRF suite))) (cs_transcript c2) = Inr digest"
    "FinishedVerifyData (newHash X) suite ms ''client finished'' digest = Inr vd"
    and s: "sendHandshake X (MFinished \<lparr>fin_VerifyData = vd\<rparr>) c2 = (Inr (), c')"
    using assms by (auto simp: sendClientFinished_def bindS_eq_Inr dest!: onLayer_eq) (auto simp: onLayer_def)
  obtain l0 where w0: "WriteRecord X ContentTypeChangeCipherSpec [1] (cs_layer c) = (Inr (), l0)" and c1: "c1 = c\<lparr>cs_layer := l0\<rparr>"
    using onLayer_eq [OF w] by blast
  have l0: "l_recvProt l0 = l_recvProt (cs_layer c)" "l_recvSeq l0 = l_recvSeq (cs_layer c)"
    using w0 by (auto elim: WriteRecord_Inr)
  obtain l where "WriteRecord X ContentTypeHandshake (MarshalMessage (MFinished \<lparr>fin_VerifyData = vd\<rparr>)) (ChangeCipherSpec (Some sendProt) None l0) = (Inr (), l)"
    "c' = c\<lparr>cs_layer := l, cs_transcript := Transcript_Write (MarshalMessage (MFinished \<lparr>fin_VerifyData = vd\<rparr>)) (cs_transcript c)\<rparr>"
    using sendHandshake_Inr [OF s] c1 c2 by auto
  with d l0 c1 c2 show thesis by (intro that [of digest vd l0 l]) simp_all
qed

lemma readHandshakeRecord_sends:
  "readHandshakeRecord X c = (Inr m, c') \<Longrightarrow>
     l_sendProt (cs_layer c') = l_sendProt (cs_layer c) \<and> l_sendSeq (cs_layer c') = l_sendSeq (cs_layer c) \<and>
     n_out (l_rw (cs_layer c')) = n_out (l_rw (cs_layer c))"
proof (induction X c rule: readHandshakeRecord.induct)
  case (1 X c)
  show ?case
  proof (cases "bufferedMessage (cs_hsBuf c)")
    case (Some r)
    then show ?thesis using "1.prems" by (subst (asm) readHandshakeRecord.simps) (auto split: sum.splits)
  next
    case None
    obtain ct payload l where rd: "ReadRecord X (cs_layer c) = (Inr (ct, payload), l)" "ct = ContentTypeHandshake"
      and rec: "readHandshakeRecord X (c\<lparr>cs_layer := l, cs_hsBuf := cs_hsBuf c @ payload\<rparr>) = (Inr m, c')"
      using "1.prems" None by (subst (asm) readHandshakeRecord.simps) (auto split: prod.splits sum.splits if_splits)
    show ?thesis using "1.IH" [OF None rd(1) [symmetric] refl _ rd(2) rec] ReadRecord_Inr(5-7) [OF rd(1)] by simp
  qed
qed

text \<open>The server's Finished is read under the new receive protection, and its content is the verify
  data of the transcript up to it.\<close>

lemma receiveServerFinished_Inr:
  assumes "receiveServerFinished X ms recvProt c = (Inr (), c')" "cs_suite c = Some suite"
  obtains digest vd l0 l c1 where "Transcript_Sum (Some (newHash X (s_PRF suite))) (cs_transcript c) = Inr digest"
    "FinishedVerifyData (newHash X) suite ms ''server finished'' digest = Inr vd"
    "ReadRecord X (cs_layer c) = (Inr (ContentTypeChangeCipherSpec, [1]), l0)"
    "readHandshakeRecord X (c\<lparr>cs_layer := ChangeCipherSpec None (Some recvProt) l0\<rparr>) = (Inr (TypeFinished, vd), c1)"
    "cs_layer c1 = l" "l_sendProt l = l_sendProt (cs_layer c)" "l_sendSeq l = l_sendSeq (cs_layer c)"
    "c' = c\<lparr>cs_layer := l, cs_hsBuf := [], cs_transcript := Transcript_Write (buildEnvelope TypeFinished vd) (cs_transcript c)\<rparr>"
proof -
  obtain payload0 c0 payload c1 fin rest digest vd s1 where
    r0: "onLayer (ReadRecord X) c = (Inr (ContentTypeChangeCipherSpec, payload0), c0)" "length payload0 = 1" "payload0 ! 0 = 1"
    and rd: "readHandshakeRecord X (c0\<lparr>cs_layer := ChangeCipherSpec None (Some recvProt) (cs_layer c0)\<rparr>) = (Inr (TypeFinished, payload), c1)"
    and p: "ParseMessage (buildEnvelope TypeFinished payload) = Inr (MFinished fin, rest)"
    and d: "cs_suite c1 = Some s1" "Transcript_Sum (Some (newHash X (s_PRF s1))) (cs_transcript c1) = Inr digest"
    "FinishedVerifyData (newHash X) s1 ms ''server finished'' digest = Inr vd"
    and e: "EqualVerifyData (fin_VerifyData fin) vd" "cs_hsBuf c1 = []"
    and c': "c' = c1\<lparr>cs_transcript := Transcript_Write (buildEnvelope TypeFinished payload) (cs_transcript c1)\<rparr>"
    using assms(1)
    by (auto simp: receiveServerFinished_def bindS_eq_Inr transcriptWrite_def assert_Inr split: if_splits)
  obtain l0 where l0: "ReadRecord X (cs_layer c) = (Inr (ContentTypeChangeCipherSpec, payload0), l0)" and c0: "c0 = c\<lparr>cs_layer := l0\<rparr>"
    using onLayer_eq [OF r0(1)] by blast
  have pl: "payload0 = [1]" using r0(2,3) by (cases payload0) auto
  obtain l b where c1: "c1 = c\<lparr>cs_layer := l, cs_hsBuf := b\<rparr>" using readHandshakeRecord_eq [OF rd] c0 by auto
  have vd: "payload = vd"
    using p e(1) ParseMessage_buildEnvelope [OF readHandshakeRecord_length [OF rd]]
    by (auto simp: bindR_eq_Inr parseBody_def type_defs parseFinished_def EqualVerifyData_def ConstantTimeCompare_def split: if_splits)
  have s: "l_sendProt l = l_sendProt (cs_layer c)" "l_sendSeq l = l_sendSeq (cs_layer c)"
    using readHandshakeRecord_sends [OF rd] ReadRecord_Inr(5,6) [OF l0] c0 c1 by (simp_all add: ChangeCipherSpec_def)
  show thesis
    using d e(2) c' c1 l0 pl c0 rd vd s assms(2)
    by (intro that [where digest = digest and vd = vd and ?l0.0 = l0 and l = l and ?c1.0 = c1]) simp_all
qed

section \<open>The handshake, step by step\<close>

lemma ClientState_Handshake_steps:
  assumes "ClientState_Handshake X c = (Inr (), c')"
  obtains c1 c2 c3 leaf certMsg c4 params c5 pm cke suite ms c6 km sp rp c7 c8 c9 c10 c11 where
    "sendClientHello X c = (Inr (), c1)" "recvServerHello X c1 = (Inr (), c2)"
    "recvCertificate X c2 = (Inr (leaf, certMsg), c3)" "recvServerFlight X leaf c3 = (Inr params, c4)"
    "computeKeyExchange X leaf params (cert_RawCerts certMsg) c4 = (Inr (pm, cke), c5)" "cs_suite c5 = Some suite"
    "MasterSecret (newHash X) suite pm (cs_clientRandom c5) (cs_serverRandom c5) = Inr ms"
    "expandKeys X (c5\<lparr>cs_masterSecret := ms\<rparr>) = (Inr (km, sp, rp), c6)" "clientCertificateStep X c6 = (Inr (), c7)"
    "sendHandshake X (MClientKeyExchange \<lparr>cke_Body = cke\<rparr>) c7 = (Inr (), c8)" "certificateVerifyStep X c8 = (Inr (), c9)"
    "sendClientFinished X ms sp c9 = (Inr (), c10)" "cs_hsBuf c10 = []" "receiveServerFinished X ms rp c10 = (Inr (), c11)"
    "c' = c11\<lparr>cs_done := True\<rparr>"
  using assms unfolding ClientState_Handshake_def
  by (simp add: bindS_eq_Inr split: if_splits) (elim exE conjE, rule that, assumption+, simp)

section \<open>What a completed handshake has established\<close>

lemma MarshalMessage_envelope: "MarshalMessage m = buildEnvelope (msgType m) (Marshal m)"
  by (simp add: MarshalMessage_eq buildEnvelope_def)

text \<open>The first half of the handshake: what was negotiated and who was authenticated.\<close>

definition negotiated ::
  "('x) ccrypto_scheme \<Rightarrow> ClientParams \<Rightarrow> (Type \<times> bytes) list \<Rightarrow> bytes \<Rightarrow> ServerHello \<Rightarrow> Suite \<Rightarrow> x509Cert option \<Rightarrow> bytes \<Rightarrow> bool" where
  "negotiated X params msgs random sh suite leaf serverParams \<longleftrightarrow>
     (\<exists>shBody certBody certMsg gc chains ms fl r.
        msgs = [(TypeClientHello, Marshal (MClientHello (clientHelloOf params random))), (TypeServerHello, shBody), (TypeCertificate, certBody)] @ ms \<and>
        length random = 32 \<and> parseBody TypeServerHello shBody = Inr (MServerHello sh) \<and> sh_Version sh = tlsVersion12 \<and>
        sh_CipherSuite sh \<in> set (p_OfferedSuites params) \<and> Lookup globalRegistry (sh_CipherSuite sh) = Some suite \<and>
        sh_CompressionMethod sh = 0 \<and> \<not> sh_ExtendedMasterSecret sh \<and> set (sh_ExtensionTypes sh) \<subseteq> set (offeredExt params) \<and>
        parseBody TypeCertificate certBody = Inr (MCertificate certMsg) \<and> cert_RawCerts certMsg \<noteq> [] \<and>
        x509gost_ParseCertificate X (hd (cert_RawCerts certMsg)) = Inr gc \<and> leaf = gx_Stdlib gc \<and>
        chainAccepted X params gc (cert_RawCerts certMsg) chains \<and>
        (\<forall>f. p_VerifyPeerCertificate params = Some f \<longrightarrow> f (cert_RawCerts certMsg) chains = Inr ()) \<and>
        server_flight X leaf suite (random @ sh_Random sh) flightStart None ms fl r \<and> serverParams = fl_params fl \<and>
        (fl_sawSKE fl \<longleftrightarrow> s_KX suite \<in> {KexDHE, KexECDHE}))"

lemma negotiation_Inr:
  assumes "sendClientHello X (NewClientState layer params) = (Inr (), c1)" "recvServerHello X c1 = (Inr (), c2)"
    "recvCertificate X c2 = (Inr (leaf, certMsg), c3)" "recvServerFlight X leaf c3 = (Inr serverParams, c4)"
  obtains msgs random sh suite l b q g r where "negotiated X params msgs random sh suite leaf serverParams"
    "r \<noteq> None \<longleftrightarrow> TypeCertificateRequest \<in> fst ` set msgs"
    "c4 = (NewClientState layer params)\<lparr>cs_params := params\<lparr>p_Rand := q\<rparr>, cs_layer := l, cs_transcript := writes (envelopes msgs) NewTranscript,
       cs_clientRandom := random, cs_serverRandom := sh_Random sh, cs_suite := Some suite, cs_certReq := r, cs_gostLeaf := g, cs_hsBuf := b\<rparr>"
proof -
  let ?c = "NewClientState layer params"
  obtain random l1 q where r32: "length random = 32"
    and c1': "c1 = ?c\<lparr>cs_clientRandom := random, cs_layer := l1, cs_params := (cs_params ?c)\<lparr>p_Rand := q\<rparr>,
       cs_transcript := Transcript_Write (MarshalMessage (MClientHello (clientHelloOf (cs_params ?c) random))) (cs_transcript ?c)\<rparr>"
    by (rule sendClientHello_Inr [OF assms(1)])
  then have c1: "c1 = ?c\<lparr>cs_clientRandom := random, cs_layer := l1, cs_params := params\<lparr>p_Rand := q\<rparr>,
      cs_transcript := writes (envelopes [(TypeClientHello, Marshal (MClientHello (clientHelloOf params random)))]) NewTranscript\<rparr>"
    by (simp add: NewClientState_def MarshalMessage_envelope)
  obtain shBody sh suite l2 b2 where sh: "parseBody TypeServerHello shBody = Inr (MServerHello sh)"
    "sh_Version sh = tlsVersion12" "sh_CipherSuite sh \<in> set (p_OfferedSuites (cs_params c1))"
    "Lookup globalRegistry (sh_CipherSuite sh) = Some suite" "sh_CompressionMethod sh = 0" "\<not> sh_ExtendedMasterSecret sh"
    "set (sh_ExtensionTypes sh) \<subseteq> set (offeredExt (cs_params c1))"
    and c2: "c2 = c1\<lparr>cs_layer := l2, cs_hsBuf := b2, cs_suite := Some suite, cs_serverRandom := sh_Random sh,
       cs_transcript := Transcript_Write (buildEnvelope TypeServerHello shBody) (cs_transcript c1)\<rparr>"
    by (rule recvServerHello_Inr [OF assms(2)])
  obtain certBody l3 b3 g chains gc where ct: "parseBody TypeCertificate certBody = Inr (MCertificate certMsg)" "cert_RawCerts certMsg \<noteq> []"
    "x509gost_ParseCertificate X (hd (cert_RawCerts certMsg)) = Inr gc" "leaf = gx_Stdlib gc"
    "chainAccepted X (cs_params c2) gc (cert_RawCerts certMsg) chains"
    "\<forall>f. p_VerifyPeerCertificate (cs_params c2) = Some f \<longrightarrow> f (cert_RawCerts certMsg) chains = Inr ()"
    and c3: "c3 = c2\<lparr>cs_layer := l3, cs_hsBuf := b3, cs_gostLeaf := g,
       cs_transcript := Transcript_Write (buildEnvelope TypeCertificate certBody) (cs_transcript c2)\<rparr>"
    by (rule recvCertificate_Inr [OF assms(3)])
  have s3: "cs_suite c3 = Some suite" using c2 c3 by simp
  obtain ms fl l4 b4 r where fl: "server_flight X leaf suite (cs_clientRandom c3 @ cs_serverRandom c3) flightStart (cs_certReq c3) ms fl r"
    "serverParams = fl_params fl" "fl_sawSKE fl \<longleftrightarrow> s_KX suite \<in> {KexDHE, KexECDHE}"
    and c4: "c4 = c3\<lparr>cs_layer := l4, cs_hsBuf := b4, cs_certReq := r, cs_transcript := writes (envelopes ms) (cs_transcript c3)\<rparr>"
    by (rule recvServerFlight_Inr [OF assms(4) s3])
  let ?msgs = "[(TypeClientHello, Marshal (MClientHello (clientHelloOf params random))), (TypeServerHello, shBody), (TypeCertificate, certBody)] @ ms"
  have e: "offeredExt (params\<lparr>p_Rand := q\<rparr>) = offeredExt params" "chainAccepted X (params\<lparr>p_Rand := q\<rparr>) = chainAccepted X params"
    by (simp_all add: offeredExt_def chainAccepted_def fun_eq_iff)
  have st: "cs_params c1 = params\<lparr>p_Rand := q\<rparr>" "cs_params c2 = params\<lparr>p_Rand := q\<rparr>" "cs_clientRandom c3 = random" "cs_serverRandom c3 = sh_Random sh"
    "cs_certReq c3 = None" using c1 c2 c3 by (simp_all add: NewClientState_def)
  have "negotiated X params ?msgs random sh suite leaf serverParams"
    unfolding negotiated_def using r32 sh ct fl unfolding st e by (intro exI conjI) (rule refl | assumption | simp)+
  moreover have "r \<noteq> None \<longleftrightarrow> TypeCertificateRequest \<in> fst ` set ?msgs"
    using server_flight_certReq [OF fl(1)] st(5) by (auto simp: type_defs)
  moreover have "c4 = ?c\<lparr>cs_params := params\<lparr>p_Rand := q\<rparr>, cs_layer := l4, cs_transcript := writes (envelopes ?msgs) NewTranscript,
       cs_clientRandom := random, cs_serverRandom := sh_Random sh, cs_suite := Some suite, cs_certReq := r, cs_gostLeaf := g, cs_hsBuf := b4\<rparr>"
    unfolding c4 c3 c2 c1 by simp
  ultimately show thesis by (rule that)
qed

text \<open>The second half: the keys in use, the client's messages and both Finished messages.\<close>

definition clientMessages :: "ClientState \<Rightarrow> bytes \<Rightarrow> bytes \<Rightarrow> (Type \<times> bytes) list" where
  "clientMessages c cke sig =
     (if cs_certReq c = None then [] else [(TypeCertificate, Certificate_Marshal (clientCertificateOf c))])
     @ [(TypeClientKeyExchange, cke)]
     @ (if cs_certReq c \<noteq> None \<and> snd (selectClientSigAlg c)
        then [(TypeCertificateVerify, Marshal (MCertificateVerify \<lparr>cv_Algorithm = fst (selectClientSigAlg c), cv_Signature = sig\<rparr>))]
        else [])"

definition keyed :: "('x) ccrypto_scheme \<Rightarrow> Suite \<Rightarrow> x509Cert option \<Rightarrow> bytes \<Rightarrow> bytes \<Rightarrow> bytes \<Rightarrow> bytes \<Rightarrow> bytes \<Rightarrow> Protector \<Rightarrow> Protector \<Rightarrow> bool" where
  "keyed X suite leaf serverParams random serverRandom cke ms sp rp \<longleftrightarrow>
     (\<exists>ex s s' pm km. exchangeFits leaf (s_KX suite) ex \<and> Exchange_ClientKeyExchange X ex serverParams s = (Inr (cke, pm), s') \<and>
        MasterSecret (newHash X) suite pm random serverRandom = Inr ms \<and>
        expandKeysManual X suite ms random serverRandom (expandKeysIVLen suite) = Inr km \<and>
        buildProtectors X suite km = Inr (sp, rp))"

lemma keying_Inr:
  assumes "computeKeyExchange X leaf serverParams raw c4 = (Inr (pm, cke), c5)" "cs_suite c5 = Some suite"
    "MasterSecret (newHash X) suite pm (cs_clientRandom c5) (cs_serverRandom c5) = Inr ms"
    "expandKeys X (c5\<lparr>cs_masterSecret := ms\<rparr>) = (Inr (km, sp, rp), c6)" "cs_suite c4 = Some suite'"
  obtains l q where "keyed X suite' leaf serverParams (cs_clientRandom c4) (cs_serverRandom c4) cke ms sp rp"
    "c6 = c4\<lparr>cs_layer := l, cs_params := (cs_params c4)\<lparr>p_Rand := q\<rparr>, cs_masterSecret := ms\<rparr>"
proof -
  obtain ex s where x: "exchangeFits leaf (s_KX suite') ex" "Exchange_ClientKeyExchange X ex serverParams s = (Inr (cke, pm), c5)"
    and m: "randMoved c4 c5" by (rule computeKeyExchange_Inr [OF assms(1,5)]) (blast intro: randMoved_trans)
  obtain l q where c5: "c5 = c4\<lparr>cs_layer := l, cs_params := (cs_params c4)\<lparr>p_Rand := q\<rparr>\<rparr>" by (rule randMoved_fields [OF m])
  obtain suite2 where k: "c6 = c5\<lparr>cs_masterSecret := ms\<rparr>" "cs_suite (c5\<lparr>cs_masterSecret := ms\<rparr>) = Some suite2"
    "expandKeysManual X suite2 (cs_masterSecret (c5\<lparr>cs_masterSecret := ms\<rparr>)) (cs_clientRandom (c5\<lparr>cs_masterSecret := ms\<rparr>))
       (cs_serverRandom (c5\<lparr>cs_masterSecret := ms\<rparr>)) (expandKeysIVLen suite2) = Inr km"
    "buildProtectors X suite2 km = Inr (sp, rp)"
    by (rule expandKeys_Inr [OF assms(4)])
  have s: "suite = suite'" "suite2 = suite'" using assms(2,5) k(2) c5 by simp_all
  have "keyed X suite' leaf serverParams (cs_clientRandom c4) (cs_serverRandom c4) cke ms sp rp"
    unfolding keyed_def using x assms(3) k(3,4) c5 s by auto
  moreover have "c6 = c4\<lparr>cs_layer := l, cs_params := (cs_params c4)\<lparr>p_Rand := q\<rparr>, cs_masterSecret := ms\<rparr>"
    using k(1) c5 by simp
  ultimately show thesis by (rule that)
qed

lemma clientMessages_cong:
  assumes "cs_certReq c' = cs_certReq c" "p_Certificates (cs_params c') = p_Certificates (cs_params c)"
  shows "selectClientSigAlg c' = selectClientSigAlg c" "clientMessages c' cke sig = clientMessages c cke sig"
    "clientCertificateOf c' = clientCertificateOf c"
proof -
  show s: "selectClientSigAlg c' = selectClientSigAlg c" using assms by (simp add: selectClientSigAlg_def)
  show m: "clientCertificateOf c' = clientCertificateOf c" using assms s by (simp add: clientCertificateOf_def split: list.split)
  show "clientMessages c' cke sig = clientMessages c cke sig" using assms s m by (simp add: clientMessages_def)
qed

lemma clientFlight_Inr:
  assumes "clientCertificateStep X c6 = (Inr (), c7)" "sendHandshake X (MClientKeyExchange \<lparr>cke_Body = cke\<rparr>) c7 = (Inr (), c8)"
    "certificateVerifyStep X c8 = (Inr (), c9)" "\<not> cs_clientCertSent c6"
  obtains l q sig where
    "cs_certReq c6 \<noteq> None \<and> snd (selectClientSigAlg c6) \<Longrightarrow>
       cvSigned X (p_Certificates (cs_params c6)) (fst (selectClientSigAlg c6))
         (writes (envelopes [(TypeCertificate, Certificate_Marshal (clientCertificateOf c6)), (TypeClientKeyExchange, cke)]) (cs_transcript c6)) sig"
    "c9 = c6\<lparr>cs_layer := l, cs_params := (cs_params c6)\<lparr>p_Rand := q\<rparr>,
       cs_transcript := writes (envelopes (clientMessages c6 cke sig)) (cs_transcript c6),
       cs_clientCertSent := cs_certReq c6 \<noteq> None \<and> snd (selectClientSigAlg c6),
       cs_clientSigAlg := if cs_certReq c6 \<noteq> None \<and> snd (selectClientSigAlg c6) then fst (selectClientSigAlg c6) else cs_clientSigAlg c6\<rparr>"
proof -
  obtain l7 where c7: "c7 = c6\<lparr>cs_layer := l7,
       cs_transcript := writes (if cs_certReq c6 = None then [] else [MarshalMessage (MCertificate (clientCertificateOf c6))]) (cs_transcript c6),
       cs_clientCertSent := cs_certReq c6 \<noteq> None \<and> snd (selectClientSigAlg c6),
       cs_clientSigAlg := if cs_certReq c6 \<noteq> None \<and> snd (selectClientSigAlg c6) then fst (selectClientSigAlg c6) else cs_clientSigAlg c6\<rparr>"
    by (rule clientCertificateStep_Inr [OF assms(1,4)])
  obtain l8 where c8: "c8 = c7\<lparr>cs_layer := l8, cs_transcript := Transcript_Write (MarshalMessage (MClientKeyExchange \<lparr>cke_Body = cke\<rparr>)) (cs_transcript c7)\<rparr>"
    by (rule sendHandshake_fields [OF assms(2)])
  obtain l9 q sig where sg: "cs_clientCertSent c8 \<Longrightarrow> cvSigned X (p_Certificates (cs_params c8)) (cs_clientSigAlg c8) (cs_transcript c8) sig"
    and c9: "c9 = c8\<lparr>cs_layer := l9, cs_params := (cs_params c8)\<lparr>p_Rand := q\<rparr>,
       cs_transcript := writes (if cs_clientCertSent c8
         then [MarshalMessage (MCertificateVerify \<lparr>cv_Algorithm = cs_clientSigAlg c8, cv_Signature = sig\<rparr>)] else []) (cs_transcript c8)\<rparr>"
    using certificateVerifyStep_Inr [OF assms(3)] by metis
  show thesis
  proof (rule that)
    show "cvSigned X (p_Certificates (cs_params c6)) (fst (selectClientSigAlg c6))
         (writes (envelopes [(TypeCertificate, Certificate_Marshal (clientCertificateOf c6)), (TypeClientKeyExchange, cke)]) (cs_transcript c6)) sig"
      if "cs_certReq c6 \<noteq> None \<and> snd (selectClientSigAlg c6)"
      using sg that unfolding c8 c7 by (auto simp: MarshalMessage_envelope)
    show "c9 = c6\<lparr>cs_layer := l9, cs_params := (cs_params c6)\<lparr>p_Rand := q\<rparr>,
       cs_transcript := writes (envelopes (clientMessages c6 cke sig)) (cs_transcript c6),
       cs_clientCertSent := cs_certReq c6 \<noteq> None \<and> snd (selectClientSigAlg c6),
       cs_clientSigAlg := if cs_certReq c6 \<noteq> None \<and> snd (selectClientSigAlg c6) then fst (selectClientSigAlg c6) else cs_clientSigAlg c6\<rparr>"
      unfolding c9 c8 c7 clientMessages_def by (simp add: MarshalMessage_envelope)
  qed
qed

lemma Transcript_Sum_Inr:
  "Transcript_Sum (Some h) (writes msgs NewTranscript) = Inr digest \<Longrightarrow> digest = h_Sum h (concat msgs)"
  by (simp add: Transcript_Sum_writes split: if_splits)

text \<open>Both Finished messages carry the verify data of the transcript before them, the client's sealed
  first under the new send protection and the server's opened under the new receive protection.\<close>

definition finished ::
  "('x) ccrypto_scheme \<Rightarrow> Suite \<Rightarrow> bytes \<Rightarrow> (Type \<times> bytes) list \<Rightarrow> bytes \<Rightarrow> bytes \<Rightarrow> bool" where
  "finished X suite ms msgs cvd svd \<longleftrightarrow>
     FinishedVerifyData (newHash X) suite ms ''client finished''
       (h_Sum (newHash X (s_PRF suite)) (concat (envelopes msgs))) = Inr cvd \<and>
     FinishedVerifyData (newHash X) suite ms ''server finished''
       (h_Sum (newHash X (s_PRF suite)) (concat (envelopes (msgs @ [(TypeFinished, cvd)])))) = Inr svd"

definition protected :: "('x) ccrypto_scheme \<Rightarrow> Protector \<Rightarrow> Protector \<Rightarrow> bytes \<Rightarrow> bytes \<Rightarrow> Layer \<Rightarrow> bool" where
  "protected X sp rp cvd svd l \<longleftrightarrow>
     (\<exists>l0 l1. WriteRecord X ContentTypeHandshake (buildEnvelope TypeFinished cvd) (ChangeCipherSpec (Some sp) None l0) = (Inr (), l1) \<and>
        l_sendProt l = l_sendProt l1 \<and> l_sendSeq l = 1) \<and>
     (\<exists>s l0 s'. readHandshakeRecord X (s\<lparr>cs_layer := ChangeCipherSpec None (Some rp) l0, cs_hsBuf := []\<rparr>) = (Inr (TypeFinished, svd), s') \<and>
        l = cs_layer s')"

lemma finishing_Inr:
  assumes "sendClientFinished X ms sp c = (Inr (), c1)" "cs_hsBuf c1 = []" "receiveServerFinished X ms rp c1 = (Inr (), c')"
    and suite: "cs_suite c = Some suite" and t: "cs_transcript c = writes (envelopes msgs) NewTranscript"
  obtains cvd svd l where "finished X suite ms msgs cvd svd" "protected X sp rp cvd svd l"
    "c' = c\<lparr>cs_layer := l, cs_hsBuf := [],
       cs_transcript := writes (envelopes (msgs @ [(TypeFinished, cvd), (TypeFinished, svd)])) NewTranscript\<rparr>"
proof -
  obtain dc cvd l0 l1 where f: "Transcript_Sum (Some (newHash X (s_PRF suite))) (cs_transcript c) = Inr dc"
    "FinishedVerifyData (newHash X) suite ms ''client finished'' dc = Inr cvd"
    "WriteRecord X ContentTypeHandshake (MarshalMessage (MFinished \<lparr>fin_VerifyData = cvd\<rparr>)) (ChangeCipherSpec (Some sp) None l0) = (Inr (), l1)"
    and c1: "c1 = c\<lparr>cs_layer := l1, cs_transcript := Transcript_Write (MarshalMessage (MFinished \<lparr>fin_VerifyData = cvd\<rparr>)) (cs_transcript c)\<rparr>"
    by (rule sendClientFinished_Inr [OF assms(1) suite])
  have s1: "cs_suite c1 = Some suite" using c1 suite by simp
  obtain ds svd l0' l s' where h: "Transcript_Sum (Some (newHash X (s_PRF suite))) (cs_transcript c1) = Inr ds"
    "FinishedVerifyData (newHash X) suite ms ''server finished'' ds = Inr svd"
    "readHandshakeRecord X (c1\<lparr>cs_layer := ChangeCipherSpec None (Some rp) l0'\<rparr>) = (Inr (TypeFinished, svd), s')"
    "cs_layer s' = l" "l_sendProt l = l_sendProt (cs_layer c1)" "l_sendSeq l = l_sendSeq (cs_layer c1)"
    and c': "c' = c1\<lparr>cs_layer := l, cs_hsBuf := [], cs_transcript := Transcript_Write (buildEnvelope TypeFinished svd) (cs_transcript c1)\<rparr>"
    by (rule receiveServerFinished_Inr [OF assms(3) s1])
  have t1: "cs_transcript c1 = writes (envelopes (msgs @ [(TypeFinished, cvd)])) NewTranscript"
    using t unfolding c1 by (simp add: MarshalMessage_envelope)
  have l1: "l_sendSeq l1 = 1" using f(3) by (rule WriteRecord_Inr) (simp add: ChangeCipherSpec_def)
  have "cs_layer c1 = l1" unfolding c1 by simp
  then have sent: "WriteRecord X ContentTypeHandshake (buildEnvelope TypeFinished cvd) (ChangeCipherSpec (Some sp) None l0) = (Inr (), l1) \<and>
      l_sendProt l = l_sendProt l1 \<and> l_sendSeq l = 1"
    using f(3) h(5,6) l1 by (simp only: MarshalMessage_envelope msgType.simps Marshal.simps Finished.simps simp_thms)
  have "c1\<lparr>cs_layer := ChangeCipherSpec None (Some rp) l0'\<rparr> = c1\<lparr>cs_layer := ChangeCipherSpec None (Some rp) l0', cs_hsBuf := []\<rparr>"
    using assms(2) by simp
  with h(3,4) have "readHandshakeRecord X (c1\<lparr>cs_layer := ChangeCipherSpec None (Some rp) l0', cs_hsBuf := []\<rparr>) = (Inr (TypeFinished, svd), s') \<and>
      l = cs_layer s'" by (simp only: simp_thms)
  with sent have p: "protected X sp rp cvd svd l" unfolding protected_def by fast
  have fin: "finished X suite ms msgs cvd svd"
    using f(2) h(2) unfolding finished_def Transcript_Sum_Inr [OF f(1) [unfolded t]] Transcript_Sum_Inr [OF h(1) [unfolded t1]]
    by (rule conjI)
  have "c' = c\<lparr>cs_layer := l, cs_hsBuf := [],
       cs_transcript := writes (envelopes (msgs @ [(TypeFinished, cvd), (TypeFinished, svd)])) NewTranscript\<rparr>"
    using t1 unfolding c' c1 by simp
  with fin p show thesis by (rule that)
qed

text \<open>The state a completed handshake leaves.\<close>

lemma ClientState_Handshake_Inr:
  assumes "ClientState_Handshake X (NewClientState layer params) = (Inr (), c')"
  obtains msgs random sh suite leaf serverParams cke sp rp sig cvd svd where
    "negotiated X params msgs random sh suite leaf serverParams"
    "cs_certReq c' \<noteq> None \<longleftrightarrow> TypeCertificateRequest \<in> fst ` set msgs"
    "keyed X suite leaf serverParams random (sh_Random sh) cke (cs_masterSecret c') sp rp"
    "cs_clientCertSent c' \<longleftrightarrow> cs_certReq c' \<noteq> None \<and> snd (selectClientSigAlg c')"
    "cs_clientCertSent c' \<longrightarrow> cvSigned X (p_Certificates params) (fst (selectClientSigAlg c'))
       (writes (envelopes (msgs @ [(TypeCertificate, Certificate_Marshal (clientCertificateOf c')), (TypeClientKeyExchange, cke)])) NewTranscript) sig"
    "cs_transcript c' = writes (envelopes (msgs @ clientMessages c' cke sig @ [(TypeFinished, cvd), (TypeFinished, svd)])) NewTranscript"
    "finished X suite (cs_masterSecret c') (msgs @ clientMessages c' cke sig) cvd svd"
    "protected X sp rp cvd svd (cs_layer c')"
    "cs_suite c' = Some suite" "cs_clientRandom c' = random" "cs_serverRandom c' = sh_Random sh" "cs_hsBuf c' = []" "cs_done c'"
    "p_Certificates (cs_params c') = p_Certificates params"
proof -
  obtain c1 c2 c3 leaf certMsg c4 serverParams c5 pm cke s5 ms c6 km sp rp c7 c8 c9 c10 c11 where
    a: "sendClientHello X (NewClientState layer params) = (Inr (), c1)" "recvServerHello X c1 = (Inr (), c2)"
      "recvCertificate X c2 = (Inr (leaf, certMsg), c3)" "recvServerFlight X leaf c3 = (Inr serverParams, c4)"
    and b: "computeKeyExchange X leaf serverParams (cert_RawCerts certMsg) c4 = (Inr (pm, cke), c5)" "cs_suite c5 = Some s5"
      "MasterSecret (newHash X) s5 pm (cs_clientRandom c5) (cs_serverRandom c5) = Inr ms"
      "expandKeys X (c5\<lparr>cs_masterSecret := ms\<rparr>) = (Inr (km, sp, rp), c6)"
    and c: "clientCertificateStep X c6 = (Inr (), c7)"
      "sendHandshake X (MClientKeyExchange \<lparr>cke_Body = cke\<rparr>) c7 = (Inr (), c8)" "certificateVerifyStep X c8 = (Inr (), c9)"
    and d: "sendClientFinished X ms sp c9 = (Inr (), c10)" "cs_hsBuf c10 = []" "receiveServerFinished X ms rp c10 = (Inr (), c11)"
      "c' = c11\<lparr>cs_done := True\<rparr>"
    by (rule ClientState_Handshake_steps [OF assms])
  obtain msgs random sh suite l4 b4 q4 g r where neg: "negotiated X params msgs random sh suite leaf serverParams"
    and r: "r \<noteq> None \<longleftrightarrow> TypeCertificateRequest \<in> fst ` set msgs"
    and c4: "c4 = (NewClientState layer params)\<lparr>cs_params := params\<lparr>p_Rand := q4\<rparr>, cs_layer := l4, cs_transcript := writes (envelopes msgs) NewTranscript,
       cs_clientRandom := random, cs_serverRandom := sh_Random sh, cs_suite := Some suite, cs_certReq := r, cs_gostLeaf := g, cs_hsBuf := b4\<rparr>"
    by (rule negotiation_Inr [OF a])
  have s4: "cs_suite c4 = Some suite" using c4 by simp
  obtain l6 q6 where k: "keyed X suite leaf serverParams (cs_clientRandom c4) (cs_serverRandom c4) cke ms sp rp"
    and c6: "c6 = c4\<lparr>cs_layer := l6, cs_params := (cs_params c4)\<lparr>p_Rand := q6\<rparr>, cs_masterSecret := ms\<rparr>"
    by (rule keying_Inr [OF b s4])
  have n6: "\<not> cs_clientCertSent c6" using c6 c4 by (simp add: NewClientState_def)
  let ?sent = "cs_certReq c6 \<noteq> None \<and> snd (selectClientSigAlg c6)"
  obtain l9 q9 sig where sg: "?sent \<longrightarrow> cvSigned X (p_Certificates (cs_params c6)) (fst (selectClientSigAlg c6))
         (writes (envelopes [(TypeCertificate, Certificate_Marshal (clientCertificateOf c6)), (TypeClientKeyExchange, cke)]) (cs_transcript c6)) sig"
    and c9: "c9 = c6\<lparr>cs_layer := l9, cs_params := (cs_params c6)\<lparr>p_Rand := q9\<rparr>,
       cs_transcript := writes (envelopes (clientMessages c6 cke sig)) (cs_transcript c6), cs_clientCertSent := ?sent,
       cs_clientSigAlg := if ?sent then fst (selectClientSigAlg c6) else cs_clientSigAlg c6\<rparr>"
    using clientFlight_Inr [OF c n6] by metis
  have s9: "cs_suite c9 = Some suite" "cs_transcript c9 = writes (envelopes (msgs @ clientMessages c6 cke sig)) NewTranscript"
    unfolding c9 c6 c4 by simp_all
  obtain cvd svd l where f: "finished X suite ms (msgs @ clientMessages c6 cke sig) cvd svd" "protected X sp rp cvd svd l"
    and c11: "c11 = c9\<lparr>cs_layer := l, cs_hsBuf := [],
       cs_transcript := writes (envelopes ((msgs @ clientMessages c6 cke sig) @ [(TypeFinished, cvd), (TypeFinished, svd)])) NewTranscript\<rparr>"
    by (rule finishing_Inr [OF d(1-3) s9])
  have cc: "selectClientSigAlg c' = selectClientSigAlg c6" "clientMessages c' cke sig = clientMessages c6 cke sig"
    "clientCertificateOf c' = clientCertificateOf c6"
    by (intro clientMessages_cong; simp add: d(4) c11 c9)+
  have c6_fields: "p_Certificates (cs_params c6) = p_Certificates params" "cs_transcript c6 = writes (envelopes msgs) NewTranscript"
    unfolding c6 c4 by simp_all
  have c'_fields: "cs_certReq c' = r" "cs_certReq c6 = r" "cs_masterSecret c' = ms" "cs_clientCertSent c' \<longleftrightarrow> ?sent" "cs_layer c' = l"
    unfolding d(4) c11 c9 c6 c4 by simp_all
  show thesis
  proof (rule that [OF neg])
    show "keyed X suite leaf serverParams random (sh_Random sh) cke (cs_masterSecret c') sp rp" using k c4 c'_fields by simp
    show "cs_clientCertSent c' \<longrightarrow> cvSigned X (p_Certificates params) (fst (selectClientSigAlg c'))
       (writes (envelopes (msgs @ [(TypeCertificate, Certificate_Marshal (clientCertificateOf c')), (TypeClientKeyExchange, cke)])) NewTranscript) sig"
      using sg unfolding c'_fields(4) cc c6_fields by simp
    show "cs_clientCertSent c' \<longleftrightarrow> cs_certReq c' \<noteq> None \<and> snd (selectClientSigAlg c')" using cc c'_fields by simp
    show "finished X suite (cs_masterSecret c') (msgs @ clientMessages c' cke sig) cvd svd" using f(1) cc c'_fields by simp
    show "protected X sp rp cvd svd (cs_layer c')" using f(2) c'_fields by simp
    show "cs_transcript c' = writes (envelopes (msgs @ clientMessages c' cke sig @ [(TypeFinished, cvd), (TypeFinished, svd)])) NewTranscript"
      unfolding cc by (simp add: d(4) c11)
  qed (use r c'_fields(1) in \<open>simp_all add: d(4) c11 c9 c6 c4\<close>)
qed

end
