(* ===== verification/HandshakeErrors.thy ===== *)
theory HandshakeErrors
  imports HandshakeSteps "HOL-Library.Sublist"
begin

text \<open>
  The error paths of \<open>ClientState.Handshake\<close>: by a structural argument over its steps, every
  error after the ClientHello is reported to the peer with a fatal alert, and no failing run sets
  the completion flag.
\<close>

section \<open>What a run does to the transport\<close>

text \<open>The transport only moves forward: output is appended, the outcomes of coming writes and the
  input are used up from the front.\<close>

definition advanced :: "Layer \<Rightarrow> Layer \<Rightarrow> bool" where
  "advanced l l' \<longleftrightarrow>
     prefix (n_out (l_rw l)) (n_out (l_rw l')) \<and> suffix (n_plan (l_rw l')) (n_plan (l_rw l)) \<and>
     suffix (r_data (n_in (l_rw l'))) (r_data (n_in (l_rw l)))"

lemma advanced_refl [simp, intro]: "advanced l l"
  by (simp add: advanced_def)

lemma advanced_trans [trans]: "advanced l l1 \<Longrightarrow> advanced l1 l2 \<Longrightarrow> advanced l l2"
  unfolding advanced_def by (blast intro: prefix_order.trans suffix_order.trans)

lemma advanced_rw: "l_rw l1 = l_rw l \<Longrightarrow> l_rw l2 = l_rw l' \<Longrightarrow> advanced l1 l2 = advanced l l'"
  by (simp add: advanced_def)

definition advances :: "(Layer, 'a) sm \<Rightarrow> bool" where
  "advances m \<longleftrightarrow> (\<forall>l. advanced l (snd (m l)))"

lemma advancesD: "advances m \<Longrightarrow> m l = (r, l') \<Longrightarrow> advanced l l'"
  unfolding advances_def by (metis snd_conv)

lemma advancesI: "(\<And>l r l'. m l = (r, l') \<Longrightarrow> advanced l l') \<Longrightarrow> advances m"
  unfolding advances_def by (metis prod.collapse)

lemma advances_bindS: "advances m \<Longrightarrow> (\<And>x. advances (f x)) \<Longrightarrow> advances (bindS m f)"
  by (rule advancesI) (auto simp: bindS_def dest: advancesD intro: advanced_trans split: prod.splits sum.splits)

lemma advances_simple: "advances (failS e)" "advances (returnS x)"
  by (simp_all add: advances_def failS_def returnS_def)

lemma advances_modifyS: "(\<And>l. l_rw (f l) = l_rw l) \<Longrightarrow> advances (modifyS f)"
  by (simp add: advances_def modifyS_def advanced_def)

lemma advances_if: "advances m \<Longrightarrow> advances m' \<Longrightarrow> advances (if b then m else m')"
  by simp

lemma advances_read: "advances (layer_ReadFull n)" "advances (layer_Open X hdr frag)"
  by (auto simp: advances_def layer_ReadFull_def net_ReadFull_def ReadFull_def layer_Open_def advanced_def suffix_drop
      split: prod.splits)

lemma advances_write: "advances (layer_Write b)" "advances (layer_Seal X hdr payload)"
  by (auto simp: advances_def layer_Write_def net_Write_def layer_Seal_def advanced_def suffix_Cons
      split: prod.splits list.splits option.splits)

lemmas advances_intros = advances_bindS advances_simple advances_modifyS advances_if advances_read advances_write

lemma advanced_ReadRecord: "advanced l (snd (ReadRecord X l))"
proof (cases "l_recvSeq l = - 1")
  case False
  show ?thesis unfolding ReadRecord_def Let_def if_not_P [OF False]
    by (rule advances_def [THEN iffD1, rule_format]) (intro advances_intros, simp)
qed (simp add: ReadRecord_def)

lemma advances_sealed:
  "advances (bindS (layer_Seal X hdr b) (\<lambda>fragment. bindS (layer_Write (h fragment)) (\<lambda>_.
     bindS (layer_Write fragment) (\<lambda>_. modifyS (\<lambda>l. l\<lparr>l_sendSeq := l_sendSeq l + 1\<rparr>)))))"
  by (intro advances_intros) simp

lemma advanced_WriteRecord: "advanced l (snd (WriteRecord X ct payload l))"
proof (cases "isKnownContentType ct \<and> length payload \<le> tlsMaxPlaintextLen \<and> l_sendSeq l \<noteq> - 1")
  case True
  then have "isKnownContentType ct" "\<not> length payload > tlsMaxPlaintextLen" "l_sendSeq l \<noteq> - 1" by simp_all
  then show ?thesis unfolding WriteRecord_def Let_def
    by (simp only: if_False not_True_eq_False) (rule advances_def [THEN iffD1, rule_format, OF advances_sealed])
qed (auto simp: WriteRecord_def)

section \<open>How the handshake fails\<close>

text \<open>A computation is \<open>quiet\<close> if it leaves the completion flag alone and moves the transport
  forward.  It is \<open>steady\<close> if, moreover, every error that is not a panic is reported to the peer:
  the last thing it did was the attempt to send a fatal alert, on the transport as the run had left
  it.\<close>

definition quiet :: "(ClientState, 'a) sm \<Rightarrow> bool" where
  "quiet m \<longleftrightarrow> (\<forall>c. cs_done (snd (m c)) = cs_done c \<and> advanced (cs_layer c) (cs_layer (snd (m c))))"

definition reported :: "('x) ccrypto_scheme \<Rightarrow> ClientState \<Rightarrow> err \<Rightarrow> ClientState \<Rightarrow> bool" where
  "reported X c e c' \<longleftrightarrow>
     (\<exists>p. e = Panic p) \<or>
     (\<exists>desc s. advanced (cs_layer c) (cs_layer s) \<and>
        c' = snd (onLayer (WriteRecord X ContentTypeAlert (EncodeAlert AlertLevelFatal desc)) s))"

definition steady :: "('x) ccrypto_scheme \<Rightarrow> (ClientState, 'a) sm \<Rightarrow> bool" where
  "steady X m \<longleftrightarrow> quiet m \<and> (\<forall>c e c'. m c = (Inl e, c') \<longrightarrow> reported X c e c')"

lemma quietD: "quiet m \<Longrightarrow> m c = (r, c') \<Longrightarrow> cs_done c' = cs_done c \<and> advanced (cs_layer c) (cs_layer c')"
  unfolding quiet_def by (metis snd_conv)

lemma quietI: "(\<And>c r c'. m c = (r, c') \<Longrightarrow> cs_done c' = cs_done c \<and> advanced (cs_layer c) (cs_layer c')) \<Longrightarrow> quiet m"
  unfolding quiet_def by (metis prod.collapse)

lemma reported_after: "advanced (cs_layer c) (cs_layer c1) \<Longrightarrow> reported X c1 e c' \<Longrightarrow> reported X c e c'"
  unfolding reported_def by (blast intro: advanced_trans)

lemma quiet_bindS [intro]: "quiet m \<Longrightarrow> (\<And>x. quiet (f x)) \<Longrightarrow> quiet (bindS m f)"
proof (rule quietI)
  fix c r c'
  assume q: "quiet m" "\<And>x. quiet (f x)" and b: "bindS m f c = (r, c')"
  obtain r1 c1 where m: "m c = (r1, c1)" by fastforce
  show "cs_done c' = cs_done c \<and> advanced (cs_layer c) (cs_layer c')"
  proof (cases r1)
    case (Inl e)
    then show ?thesis using b m quietD [OF q(1) m] by (simp add: bindS_def)
  next
    case (Inr x)
    then have "f x c1 = (r, c')" using b m by (simp add: bindS_def)
    from quietD [OF q(2) this] quietD [OF q(1) m] show ?thesis by (auto intro: advanced_trans)
  qed
qed

lemma quiet_basic [intro]:
  "quiet (liftS r)" "quiet (getS f)" "quiet (returnS x)" "quiet (failS e)" "quiet (transcriptWrite b)" "quiet theSuite"
  by (simp_all add: quiet_def transcriptWrite_def theSuite_def split: option.split)

lemma quiet_modifyS [intro]:
  "(\<And>c. cs_done (f c) = cs_done c \<and> l_rw (cs_layer (f c)) = l_rw (cs_layer c)) \<Longrightarrow> quiet (modifyS f)"
  by (simp add: quiet_def advanced_def)

lemma ChangeCipherSpec_rw [simp]: "l_rw (ChangeCipherSpec p q l) = l_rw l"
  by (simp add: ChangeCipherSpec_def Let_def split: option.split)

lemma quiet_ReadRecord [intro]: "quiet (onLayer (ReadRecord X))"
  using advanced_ReadRecord [of _ X] by (simp add: quiet_def onLayer_def split: prod.split) (metis snd_conv)

lemma quiet_WriteRecord [intro]: "quiet (onLayer (WriteRecord X ct payload))"
  using advanced_WriteRecord [of _ X ct payload] by (simp add: quiet_def onLayer_def split: prod.split) (metis snd_conv)

lemma quiet_withSysRand [intro]: "quiet (withSysRand m)"
  by (rule quietI) (auto simp: advanced_def dest!: withSysRand_eq)

lemma quiet_withParamsRand [intro]: "quiet (withParamsRand m)"
  by (rule quietI) (auto simp: advanced_def dest!: withParamsRand_eq)

lemma readHandshakeRecord_advanced: "readHandshakeRecord X c = (r, c') \<Longrightarrow> advanced (cs_layer c) (cs_layer c')"
proof (induction X c arbitrary: r c' rule: readHandshakeRecord.induct)
  case (1 X c)
  show ?case
  proof (cases "bufferedMessage (cs_hsBuf c)")
    case (Some m)
    then show ?thesis using "1.prems" by (subst (asm) readHandshakeRecord.simps) (auto split: sum.splits)
  next
    case None
    obtain q l where rd: "ReadRecord X (cs_layer c) = (q, l)" by fastforce
    then have l: "advanced (cs_layer c) l" using advanced_ReadRecord [of "cs_layer c" X] by simp
    note unroll = "1.prems" [unfolded readHandshakeRecord.simps [of X c] None rd, simplified]
    show ?thesis
    proof (cases q)
      case (Inl e)
      then show ?thesis using unroll l by auto
    next
      case (Inr a)
      obtain ct payload where a: "a = (ct, payload)" by fastforce
      show ?thesis
      proof (cases "ct = ContentTypeHandshake")
        case True
        then show ?thesis using "1.IH" [OF None rd [symmetric] Inr a [symmetric] True] unroll Inr a advanced_trans [OF l] by fastforce
      qed (use unroll Inr a l in auto)
    qed
  qed
qed

lemma quiet_readHandshakeRecord [intro]: "quiet (readHandshakeRecord X)"
  by (rule quietI) (auto dest: readHandshakeRecord_eq readHandshakeRecord_advanced)

lemma quiet_if [intro]: "quiet m \<Longrightarrow> quiet m' \<Longrightarrow> quiet (if b then m else m')"
  by simp

lemma quiet_option [intro]: "quiet m \<Longrightarrow> (\<And>x. quiet (f x)) \<Longrightarrow> quiet (case x of None \<Rightarrow> m | Some y \<Rightarrow> f y)"
  by (cases x) simp_all

lemma fatal_state:
  "snd (fatal X desc e c) = snd (onLayer (WriteRecord X ContentTypeAlert (EncodeAlert AlertLevelFatal desc)) c)"
  by (auto simp: fatal_def Let_def split: prod.splits sum.splits err.splits)

lemma quiet_fatal [intro]: "quiet (fatal X desc e)"
  by (rule quietI) (metis fatal_state quiet_WriteRecord quiet_def snd_conv)

lemma quiet_catchS [intro]: "quiet m \<Longrightarrow> (\<And>e. quiet (h e)) \<Longrightarrow> quiet (catchS m h)"
proof (rule quietI)
  fix c r c'
  assume q: "quiet m" "\<And>e. quiet (h e)" and b: "catchS m h c = (r, c')"
  obtain r1 c1 where m: "m c = (r1, c1)" by fastforce
  show "cs_done c' = cs_done c \<and> advanced (cs_layer c) (cs_layer c')"
  proof (cases r1)
    case (Inl e)
    then have "h e c1 = (r, c')" using b m by (simp add: catchS_def)
    from quietD [OF q(2) this] quietD [OF q(1) m] show ?thesis by (auto intro: advanced_trans)
  next
    case (Inr x)
    then show ?thesis using b m quietD [OF q(1) m] by (simp add: catchS_def)
  qed
qed

lemma quiet_orFatal [intro]: "quiet m \<Longrightarrow> quiet (orFatal X desc m)"
  unfolding orFatal_def by (rule quiet_catchS) (auto split: err.split)

lemma fatal_reported: "fatal X desc e c = (Inl e', c') \<Longrightarrow> reported X c e' c'"
  unfolding reported_def by (metis advanced_refl fatal_state snd_conv)

lemma steady_fatal [intro]: "steady X (fatal X desc e)"
  unfolding steady_def by (auto dest: fatal_reported)

lemma steady_orFatal [intro]:
  fixes m :: "(ClientState, 'a) sm"
  shows "quiet m \<Longrightarrow> steady X (orFatal X desc m)"
  unfolding steady_def orFatal_def
proof (intro conjI allI impI)
  assume "quiet m"
  then show "quiet (catchS m (\<lambda>e. case e of Panic p \<Rightarrow> failS (Panic p) | _ \<Rightarrow> fatal X desc e))"
    using quiet_orFatal [of m X desc] by (simp add: orFatal_def)
next
  fix c e c'
  assume "quiet m" "catchS m (\<lambda>e. case e of Panic p \<Rightarrow> failS (Panic p) | _ \<Rightarrow> fatal X desc e) c = (Inl e, c')"
  then obtain e' s where m: "m c = (Inl e', s)"
    and h: "((case e' of Panic p \<Rightarrow> failS (Panic p) | _ \<Rightarrow> fatal X desc e') :: (ClientState, 'a) sm) s = (Inl e, c')"
    unfolding catchS_eq_Inl by blast
  have "reported X s e c'" using h by (cases e') (auto simp: reported_def [of X _ "Panic _"] dest: fatal_reported)
  then show "reported X c e c'" using quietD [OF \<open>quiet m\<close> m] reported_after by blast
qed

lemma steady_bindS [intro]: "steady X m \<Longrightarrow> (\<And>x. steady X (f x)) \<Longrightarrow> steady X (bindS m f)"
proof -
  assume s: "steady X m" "\<And>x. steady X (f x)"
  have "reported X c e c'" if b: "bindS m f c = (Inl e, c')" for c e c'
  proof (cases "m c = (Inl e, c')")
    case True
    then show ?thesis using s(1) by (simp add: steady_def)
  next
    case False
    then obtain x c1 where m: "m c = (Inr x, c1)" "f x c1 = (Inl e, c')" using b unfolding bindS_eq_Inl by blast
    have "advanced (cs_layer c) (cs_layer c1)" using s(1) quietD [of m c, OF _ m(1)] by (simp add: steady_def)
    moreover have "reported X c1 e c'" using s(2) [of x] m(2) by (simp add: steady_def)
    ultimately show ?thesis by (rule reported_after)
  qed
  then show ?thesis using s quiet_bindS [of m f] by (simp add: steady_def)
qed

lemma steady_basic [intro]:
  "steady X (getS f)" "steady X (returnS x)" "steady X (transcriptWrite b)" "steady X theSuite" "steady X (failS (Panic p))"
  by (simp_all add: steady_def quiet_basic transcriptWrite_def reported_def quiet_def)
    (simp add: theSuite_def split: option.split)

lemma steady_modifyS [intro]:
  "(\<And>c. cs_done (f c) = cs_done c \<and> l_rw (cs_layer (f c)) = l_rw (cs_layer c)) \<Longrightarrow> steady X (modifyS f)"
  unfolding steady_def by auto

lemma steady_if [intro]: "steady X m \<Longrightarrow> steady X m' \<Longrightarrow> steady X (if b then m else m')"
  by simp

lemma steady_option [intro]: "steady X m \<Longrightarrow> (\<And>x. steady X (f x)) \<Longrightarrow> steady X (case x of None \<Rightarrow> m | Some y \<Rightarrow> f y)"
  by (cases x) simp_all

lemma steady_prod [intro]: "(\<And>x y. steady X (f x y)) \<Longrightarrow> steady X (case z of (x, y) \<Rightarrow> f x y)"
  by (cases z) simp

lemma steady_Message [intro]:
  "(\<And>m. steady X (f m)) \<Longrightarrow> steady X (case msg of MServerHello m \<Rightarrow> f m | _ \<Rightarrow> fatal X a e)"
  "(\<And>m. steady X (g m)) \<Longrightarrow> steady X (case msg of MCertificate m \<Rightarrow> g m | _ \<Rightarrow> fatal X a e)"
  "(\<And>m. steady X (h m)) \<Longrightarrow> steady X (case msg of MServerKeyExchange m \<Rightarrow> h m | _ \<Rightarrow> fatal X a e)"
  "(\<And>m. steady X (i m)) \<Longrightarrow> steady X (case msg of MCertificateRequest m \<Rightarrow> i m | _ \<Rightarrow> fatal X a e)"
  "(\<And>m. steady X (j m)) \<Longrightarrow> steady X (case msg of MFinished m \<Rightarrow> j m | _ \<Rightarrow> fatal X a e)"
  by (cases msg; simp add: steady_fatal)+

lemmas steady_intros = steady_bindS steady_basic steady_modifyS steady_if steady_option steady_prod steady_Message
  steady_fatal steady_orFatal quiet_bindS quiet_basic quiet_modifyS quiet_ReadRecord quiet_WriteRecord quiet_withSysRand quiet_withParamsRand
  quiet_readHandshakeRecord quiet_if quiet_option

lemma steady_recvServerHello: "steady X (recvServerHello X)"
  unfolding recvServerHello_def by (intro steady_intros) simp_all

lemma quiet_parseAndVerifyChain [intro]: "quiet (parseAndVerifyChain X raw)"
  unfolding parseAndVerifyChain_def verifyChain_def Let_def by (intro steady_intros) simp_all

lemma steady_recvCertificate: "steady X (recvCertificate X)"
  unfolding recvCertificate_def by (intro steady_intros quiet_parseAndVerifyChain)

lemma steady_verifySKESignature: "steady X (verifySKESignature X sp sigData cert e1 e2)"
  unfolding verifySKESignature_def Let_def by (intro steady_intros)

lemma steady_verifyServerKeyExchange: "steady X (verifyServerKeyExchange X body cert)"
  unfolding verifyServerKeyExchange_def verifyECDHEServerKeyExchange_def verifyDHEServerKeyExchange_def Let_def
  by (intro steady_intros steady_verifySKESignature)

lemma steady_flightStep: "steady X (flightStep X cert fl)"
  unfolding flightStep_def flightMessage_def by (intro steady_intros steady_verifyServerKeyExchange) simp_all

lemma steady_recvServerFlight_loop: "steady X (recvServerFlight_loop X cert fl)"
proof -
  have "(cs_done (snd (recvServerFlight_loop X cert fl c)) = cs_done c \<and>
      advanced (cs_layer c) (cs_layer (snd (recvServerFlight_loop X cert fl c)))) \<and>
    (\<forall>e c'. recvServerFlight_loop X cert fl c = (Inl e, c') \<longrightarrow> reported X c e c')" for c
  proof (induction X cert fl c rule: recvServerFlight_loop.induct)
    case (1 X cert fl c)
    obtain r c1 where st: "flightStep X cert fl c = (r, c1)" by fastforce
    have d: "cs_done c1 = cs_done c" "advanced (cs_layer c) (cs_layer c1)"
      using quietD [of "flightStep X cert fl" c, OF _ st] steady_flightStep [of X cert fl] by (simp_all add: steady_def)
    note unroll = recvServerFlight_loop.simps [of X cert fl c, unfolded st]
    show ?case
    proof (cases r)
      case (Inl e)
      then have "recvServerFlight_loop X cert fl c = (Inl e, c1)" using unroll by simp
      then show ?thesis using st Inl d steady_flightStep [of X cert fl] unfolding steady_def by simp
    next
      case (Inr v)
      show ?thesis
      proof (cases v)
        case (Inl fl')
        then show ?thesis using unroll "1.IH" [OF st [symmetric] Inr Inl] d \<open>r = Inr v\<close>
          by (auto intro: advanced_trans reported_after)
      next
        case v: (Inr w)
        then show ?thesis using unroll d \<open>r = Inr v\<close> by simp
      qed
    qed
  qed
  then show ?thesis unfolding steady_def quiet_def by blast
qed

lemma steady_recvServerFlight: "steady X (recvServerFlight X cert)"
  unfolding recvServerFlight_def by (intro steady_intros steady_recvServerFlight_loop)

lemma quiet_Exchange: "quiet (Exchange_ClientKeyExchange X ex sp)"
  by (cases ex) auto

lemma quiet_buildGOSTExchange: "quiet (buildGOSTExchange X)"
  unfolding buildGOSTExchange_def buildGOST2018Exchange_def by (intro steady_intros)

lemma steady_chooseExchange: "steady X (chooseExchange X cert suite)"
  using quiet_buildGOSTExchange [of X]
  by (auto simp: chooseExchange_def split: KexKind.split option.split PublicKey.split intro: steady_orFatal)

lemma steady_computeKeyExchange: "steady X (computeKeyExchange X cert sp raw)"
  unfolding computeKeyExchange_def by (intro steady_intros steady_chooseExchange quiet_Exchange)

lemma steady_expandKeys: "steady X (expandKeys X)"
  unfolding expandKeys_def Let_def by (intro steady_intros)

lemma steady_sendHandshake: "steady X (sendHandshake X msg)"
  unfolding sendHandshake_def Let_def by (intro steady_intros)

lemma steady_clientCertificateStep: "steady X (clientCertificateStep X)"
  unfolding clientCertificateStep_def sendClientCertificate_def Let_def by (intro steady_intros steady_sendHandshake) simp_all

lemma steady_sendCertificateVerify: "steady X (sendCertificateVerify X alg)"
  unfolding sendCertificateVerify_def
  by (auto split: list.split PrivateKey.split intro!: steady_intros steady_sendHandshake)

lemma steady_certificateVerifyStep: "steady X (certificateVerifyStep X)"
  unfolding certificateVerifyStep_def by (intro steady_intros steady_sendCertificateVerify)

lemma steady_sendClientFinished: "steady X (sendClientFinished X ms sp)"
  unfolding sendClientFinished_def by (intro steady_intros steady_sendHandshake) simp_all

lemma steady_receiveServerFinished: "steady X (receiveServerFinished X ms rp)"
  unfolding receiveServerFinished_def by (intro steady_intros) simp_all

text \<open>The handshake sets the flag in its last step only; a failing run has not reached it.\<close>

definition unfinished :: "('x) ccrypto_scheme \<Rightarrow> (ClientState, 'a) sm \<Rightarrow> bool" where
  "unfinished X m \<longleftrightarrow>
     (\<forall>c r c'. m c = (r, c') \<longrightarrow> advanced (cs_layer c) (cs_layer c')) \<and>
     (\<forall>c e c'. m c = (Inl e, c') \<longrightarrow> cs_done c' = cs_done c \<and> reported X c e c')"

lemma unfinished_steady: "steady X m \<Longrightarrow> unfinished X m"
  unfolding steady_def unfinished_def by (blast dest: quietD)

lemma unfinished_quiet_bindS:
  assumes "quiet m" "\<And>x. unfinished X (f x)" "bindS m f c = (r, c')"
  shows "advanced (cs_layer c) (cs_layer c')"
    and "r = Inl e \<Longrightarrow> cs_done c' = cs_done c \<and> (m c = (Inl e, c') \<or> reported X c e c')"
proof -
  obtain r1 c1 where m: "m c = (r1, c1)" by fastforce
  have c1: "cs_done c1 = cs_done c" "advanced (cs_layer c) (cs_layer c1)" using quietD [OF assms(1) m] by simp_all
  have "advanced (cs_layer c) (cs_layer c') \<and> (r = Inl e \<longrightarrow> cs_done c' = cs_done c \<and> (m c = (Inl e, c') \<or> reported X c e c'))"
  proof (cases r1)
    case (Inl e1)
    then show ?thesis using assms(3) m c1 by (auto simp: bindS_def)
  next
    case (Inr x)
    then have f: "f x c1 = (r, c')" using assms(3) m by (simp add: bindS_def)
    then have "advanced (cs_layer c1) (cs_layer c')" "r = Inl e \<longrightarrow> cs_done c' = cs_done c1 \<and> reported X c1 e c'"
      using assms(2) [of x] by (simp_all add: unfinished_def)
    then show ?thesis using c1 advanced_trans [OF c1(2)] reported_after [OF c1(2)] by metis
  qed
  then show "advanced (cs_layer c) (cs_layer c')" "r = Inl e \<Longrightarrow> cs_done c' = cs_done c \<and> (m c = (Inl e, c') \<or> reported X c e c')"
    by simp_all
qed

lemma unfinished_bindS:
  assumes "steady X m" "\<And>x. unfinished X (f x)"
  shows "unfinished X (bindS m f)"
proof -
  have q: "quiet m" "\<And>c e c'. m c = (Inl e, c') \<Longrightarrow> reported X c e c'" using assms(1) by (simp_all add: steady_def)
  show ?thesis unfolding unfinished_def
    using unfinished_quiet_bindS [where X = X and m = m and f = f, OF q(1) assms(2)] q(2) by blast
qed

lemma unfinished_prod: "(\<And>x y. unfinished X (f x y)) \<Longrightarrow> unfinished X (case z of (x, y) \<Rightarrow> f x y)"
  by (cases z) simp

lemma unfinished_if: "unfinished X m \<Longrightarrow> unfinished X m' \<Longrightarrow> unfinished X (if b then m else m')"
  by simp

lemma unfinished_modifyS: "(\<And>c. cs_layer (f c) = cs_layer c) \<Longrightarrow> unfinished X (modifyS f)"
  by (simp add: unfinished_def)

lemma ClientState_Handshake_split:
  "\<exists>k. ClientState_Handshake X = bindS (sendClientHello X) k \<and> (\<forall>x. unfinished X (k x))"
  unfolding ClientState_Handshake_def
  by (rule exI, rule conjI, rule refl, rule allI)
    (intro unfinished_bindS unfinished_prod unfinished_if unfinished_modifyS unfinished_steady [OF steady_fatal]
      steady_recvServerHello steady_recvCertificate steady_recvServerFlight steady_computeKeyExchange steady_expandKeys
      steady_clientCertificateStep steady_sendHandshake steady_certificateVerifyStep steady_sendClientFinished
      steady_receiveServerFinished steady_basic steady_orFatal steady_modifyS quiet_basic; simp)

lemma quiet_sendClientHello: "quiet (sendClientHello X)"
  unfolding sendClientHello_def Let_def by (intro steady_intros) simp_all

lemma ClientState_Handshake_Inl:
  assumes "ClientState_Handshake X c = (Inl e, c')"
  shows "cs_done c' = cs_done c \<and> (sendClientHello X c = (Inl e, c') \<or> reported X c e c')"
proof -
  obtain k where k: "ClientState_Handshake X = bindS (sendClientHello X) k" "\<And>x. unfinished X (k x)"
    using ClientState_Handshake_split by blast
  from unfinished_quiet_bindS(2) [where m = "sendClientHello X" and f = k and X = X, OF quiet_sendClientHello k(2), where c = c and c' = c' and e = e] assms show ?thesis unfolding k(1) by blast
qed

lemma ClientState_Handshake_advanced:
  assumes "ClientState_Handshake X c = (r, c')"
  shows "advanced (cs_layer c) (cs_layer c')"
proof -
  obtain k where k: "ClientState_Handshake X = bindS (sendClientHello X) k" "\<And>x. unfinished X (k x)"
    using ClientState_Handshake_split by blast
  from unfinished_quiet_bindS(1) [where m = "sendClientHello X" and f = k and X = X, OF quiet_sendClientHello k(2), where c = c and c' = c' and r = r] assms show ?thesis unfolding k(1) by blast
qed

section \<open>The alert on the wire\<close>

text \<open>When the transport takes every write, an alert that could be sealed is the last record the peer
  sees.\<close>

lemma net_Write_empty: "n_plan w = [] \<Longrightarrow> net_Write b w = (Inr (), w\<lparr>n_out := n_out w @ b\<rparr>)"
  by (simp add: net_Write_def)

lemma WriteRecord_empty_plan:
  assumes "n_plan (l_rw l) = []" "isKnownContentType ct" "length payload \<le> 16384" "l_sendSeq l \<noteq> - 1"
    "Protector_Seal X (l_sendProt l) (n_rand (l_rw l)) (l_sendSeq l) [ct, 3, 3, 0, 0] payload = (Inr frag, p, rnd)"
  shows "\<exists>l'. WriteRecord X ct payload l = (Inr (), l') \<and> n_out (l_rw l') = n_out (l_rw l) @ record_bytes ct frag"
  using assms
  by (simp add: WriteRecord_def record_const_defs version_bytes [unfolded tlsVersion_def] layer_Seal_def layer_Write_def
      net_Write_empty bindS_def modifyS_def Let_def record_bytes_def)

lemma Protector_Seal_null:
  "Protector_Seal X p rnd seq hdr plain = (res, q, rnd') \<Longrightarrow> q = NullProtector \<longleftrightarrow> p = NullProtector"
  by (cases p) (auto split: prod.splits)

lemma layer_Seal_null:
  "layer_Seal X hdr plain l = (res, l') \<Longrightarrow> l_sendProt l' = NullProtector \<longleftrightarrow> l_sendProt l = NullProtector"
  by (auto simp: layer_Seal_def dest: Protector_Seal_null split: prod.splits)

lemma WriteRecord_null:
  assumes "WriteRecord X ct payload l = (res, l')"
  shows "(l_sendProt l' = NullProtector \<longleftrightarrow> l_sendProt l = NullProtector) \<and> l_recvProt l' = l_recvProt l"
proof (cases res)
  case (Inl e)
  with assms have w: "WriteRecord X ct payload l = (Inl e, l')" by simp
  then show ?thesis using WriteRecord_Inl(3) [OF w] unfolding WriteRecord_def
    by (auto simp: bindS_eq_Inl Let_def modifyS_def split: if_splits dest!: layer_Write_fields layer_Seal_null)
next
  case (Inr u)
  with assms have "WriteRecord X ct payload l = (Inr (), l')" by simp
  then show ?thesis by (rule WriteRecord_Inr) (auto dest: Protector_Seal_null)
qed

lemma WriteRecord_NullProtector:
  assumes "n_plan (l_rw l) = []" "isKnownContentType ct" "length payload \<le> 16384"
    "l_sendProt (snd (WriteRecord X ct payload l)) = NullProtector" "l_sendSeq (snd (WriteRecord X ct payload l)) \<noteq> - 1"
  shows "n_out (l_rw (snd (WriteRecord X ct payload l))) = n_out (l_rw l) @ record_bytes ct payload"
proof -
  obtain r l' where w: "WriteRecord X ct payload l = (r, l')" by fastforce
  have null: "l_sendProt l = NullProtector" using WriteRecord_null [OF w] assms(4) w by simp
  have seq: "l_sendSeq l \<noteq> - 1"
  proof
    assume "l_sendSeq l = - 1"
    then have "snd (WriteRecord X ct payload l) = l" by (simp add: WriteRecord_def)
    then show False using assms(5) \<open>l_sendSeq l = - 1\<close> by simp
  qed
  have "Protector_Seal X (l_sendProt l) (n_rand (l_rw l)) (l_sendSeq l) [ct, 3, 3, 0, 0] payload = (Inr payload, NullProtector, n_rand (l_rw l))"
    using null by (simp add: nullProtector_Seal_def)
  from WriteRecord_empty_plan [OF assms(1-3) seq this] show ?thesis by auto
qed

lemma alert_on_wire:
  assumes "advanced (cs_layer c) (cs_layer s)"
    "c' = snd (onLayer (WriteRecord X ContentTypeAlert (EncodeAlert AlertLevelFatal desc)) s)" "n_plan (l_rw (cs_layer c)) = []"
  shows "\<forall>frag p rnd. l_sendSeq (cs_layer s) \<noteq> - 1 \<and>
      Protector_Seal X (l_sendProt (cs_layer s)) (n_rand (l_rw (cs_layer s))) (l_sendSeq (cs_layer s))
        [ContentTypeAlert, 3, 3, 0, 0] (EncodeAlert AlertLevelFatal desc) = (Inr frag, p, rnd) \<longrightarrow>
      (\<exists>out. n_out (l_rw (cs_layer c')) = n_out (l_rw (cs_layer c)) @ out @ record_bytes ContentTypeAlert frag)"
    and "l_sendProt (cs_layer c') = NullProtector \<and> l_sendSeq (cs_layer c') \<noteq> - 1 \<longrightarrow>
      (\<exists>out. n_out (l_rw (cs_layer c')) = n_out (l_rw (cs_layer c)) @ out @ [21, 3, 3, 0, 2, 2, desc])"
proof -
  let ?b = "EncodeAlert AlertLevelFatal desc"
  have s: "n_plan (l_rw (cs_layer s)) = []" using assms(1,3) by (simp add: advanced_def)
  have k: "isKnownContentType ContentTypeAlert" "length ?b \<le> 16384" by (simp_all add: isKnownContentType_def EncodeAlert_def)
  have c': "cs_layer c' = snd (WriteRecord X ContentTypeAlert ?b (cs_layer s))"
    using assms(2) by (simp add: onLayer_def split: prod.split)
  obtain out where out: "n_out (l_rw (cs_layer s)) = n_out (l_rw (cs_layer c)) @ out"
    using assms(1) by (auto simp: advanced_def prefix_def)
  show "\<forall>frag p rnd. l_sendSeq (cs_layer s) \<noteq> - 1 \<and>
      Protector_Seal X (l_sendProt (cs_layer s)) (n_rand (l_rw (cs_layer s))) (l_sendSeq (cs_layer s))
        [ContentTypeAlert, 3, 3, 0, 0] ?b = (Inr frag, p, rnd) \<longrightarrow>
      (\<exists>out. n_out (l_rw (cs_layer c')) = n_out (l_rw (cs_layer c)) @ out @ record_bytes ContentTypeAlert frag)"
    using WriteRecord_empty_plan [OF s k] out unfolding c' by (metis append_assoc snd_conv)
  have "record_bytes ContentTypeAlert ?b = [21, 3, 3, 0, 2, 2, desc]"
    by (simp add: record_bytes_def EncodeAlert_def ContentTypeAlert_def AlertLevelFatal_def put16_def)
  then show "l_sendProt (cs_layer c') = NullProtector \<and> l_sendSeq (cs_layer c') \<noteq> - 1 \<longrightarrow>
      (\<exists>out. n_out (l_rw (cs_layer c')) = n_out (l_rw (cs_layer c)) @ out @ [21, 3, 3, 0, 2, 2, desc])"
    using WriteRecord_NullProtector [OF s k, of X] out unfolding c' by (metis append_assoc)
qed

end
