(* ===== verification/Reassembly.thy ===== *)
theory Reassembly
  imports ServerFlight
begin

text \<open>
  Reassembly of handshake messages (\<open>readHandshakeRecord\<close> of \<open>client.go\<close>): however a
  peer cuts a sequence of messages into handshake records, the client reads back the sequence.
\<close>

section \<open>Reassembly\<close>

lemma append_eq_longer:
  assumes "xs @ ys = us @ vs" "length us \<le> length xs"
  shows "\<exists>b. xs = us @ b \<and> b @ ys = vs"
proof -
  have "take (length us) (xs @ ys) = us" "drop (length us) (xs @ ys) = vs" using assms(1) by simp_all
  then have "take (length us) xs = us" "drop (length us) xs @ ys = vs" using assms(2) by simp_all
  then show ?thesis by (metis append_take_drop_id)
qed

lemma bufferedMessage_complete:
  assumes "length body \<le> maxHandshakeMsg"
  shows "bufferedMessage (buildEnvelope t body @ rest) = Some (Inr (t, body, rest))"
proof -
  let ?n = "of_nat (length body) :: u32"
  have n: "unat ?n = length body" using assms by (simp add: maxHandshakeMsg_def)
  then have g: "get24 (ucast (drop_bit 16 ?n)) (ucast (drop_bit 8 ?n)) (ucast ?n) = ?n"
    using assms by (intro get24_put24) (simp add: maxHandshakeMsg_def)
  have c: "consumeBuffered (buildEnvelope t body @ rest) (4 + length body) = rest"
    by (simp add: consumeBuffered_def add.commute)
  show ?thesis
    unfolding bufferedMessage_def Let_def
    using assms n g c by (simp add: buildEnvelope_def put24_def slice_def)
qed

lemma bufferedMessage_incomplete:
  assumes "buf @ tail = buildEnvelope t body @ rest" "length buf < length body + 4" "length body \<le> maxHandshakeMsg"
  shows "bufferedMessage buf = None"
proof (cases "4 \<le> length buf")
  case True
  let ?n = "of_nat (length body) :: u32"
  have n: "unat ?n = length body" using assms(3) by (simp add: maxHandshakeMsg_def)
  then have g: "get24 (ucast (drop_bit 16 ?n)) (ucast (drop_bit 8 ?n)) (ucast ?n) = ?n"
    using assms(3) by (intro get24_put24) (simp add: maxHandshakeMsg_def)
  have "take 4 buf = take 4 (buildEnvelope t body @ rest)" using assms(1) True by (metis take_append diff_is_0_eq take0 append.right_neutral)
  then obtain bs where "buf = t # ucast (drop_bit 16 ?n) # ucast (drop_bit 8 ?n) # ucast ?n # bs"
    using True by (auto simp: buildEnvelope_def put24_def numeral_eq_Suc Suc_le_length_iff)
  then show ?thesis unfolding bufferedMessage_def Let_def using n g assms by simp
qed (simp add: bufferedMessage_def)

lemma readHandshakeRecord_fragments:
  assumes "in_sync X s (cs_layer c)" "WriteRecords X (map (Pair ContentTypeHandshake) frags) s = (Inr (), s')"
    "n_out (l_rw s') = n_out (l_rw s) @ wire" "r_data (n_in (l_rw (cs_layer c))) = wire @ rest"
    "cs_hsBuf c @ concat frags = buildEnvelope t body @ later" "length body \<le> maxHandshakeMsg"
  shows "\<exists>c' n s1 wire'. readHandshakeRecord X c = (Inr (t, body), c') \<and> cs_hsBuf c' @ concat (drop n frags) = later \<and>
    in_sync X s1 (cs_layer c') \<and> WriteRecords X (map (Pair ContentTypeHandshake) (drop n frags)) s1 = (Inr (), s') \<and>
    n_out (l_rw s') = n_out (l_rw s1) @ wire' \<and> r_data (n_in (l_rw (cs_layer c'))) = wire' @ rest"
  using assms
proof (induction frags arbitrary: c s wire)
  case Nil
  have "bufferedMessage (cs_hsBuf c) = Some (Inr (t, body, later))"
    using Nil.prems(5,6) bufferedMessage_complete by simp
  then have "readHandshakeRecord X c = (Inr (t, body), c\<lparr>cs_hsBuf := later\<rparr>)"
    by (subst readHandshakeRecord.simps) simp
  with Nil.prems show ?case by (intro exI [of _ "c\<lparr>cs_hsBuf := later\<rparr>"] exI [of _ 0] exI [of _ s] exI [of _ wire]) simp
next
  case (Cons f frags)
  show ?case
  proof (cases "length (cs_hsBuf c) < length body + 4")
    case False
    then obtain b where b: "cs_hsBuf c = buildEnvelope t body @ b" "b @ concat (f # frags) = later"
      using append_eq_longer [OF Cons.prems(5)] by auto
    then have "readHandshakeRecord X c = (Inr (t, body), c\<lparr>cs_hsBuf := b\<rparr>)"
      using bufferedMessage_complete [OF Cons.prems(6)] by (subst readHandshakeRecord.simps) simp
    with Cons.prems b(2) show ?thesis
      by (intro exI [of _ "c\<lparr>cs_hsBuf := b\<rparr>"] exI [of _ 0] exI [of _ s] exI [of _ wire]) simp
  next
    case True
    have none: "bufferedMessage (cs_hsBuf c) = None" using bufferedMessage_incomplete [OF Cons.prems(5) True Cons.prems(6)] .
    obtain s1 where w: "WriteRecord X ContentTypeHandshake f s = (Inr (), s1)"
      and ws: "WriteRecords X (map (Pair ContentTypeHandshake) frags) s1 = (Inr (), s')"
      using Cons.prems(2) by (auto simp: bindS_eq_Inr)
    obtain w1 where w1: "n_out (l_rw s1) = n_out (l_rw s) @ w1" using w by (rule WriteRecord_Inr) auto
    obtain w2 where w2: "n_out (l_rw s') = n_out (l_rw s1) @ w2" using WriteRecords_out [OF ws] by blast
    have "r_data (n_in (l_rw (cs_layer c))) = w1 @ (w2 @ rest)" using Cons.prems(3,4) w1 w2 by simp
    then obtain l where l: "ReadRecord X (cs_layer c) = (Inr (ContentTypeHandshake, f), l)" "in_sync X s1 l"
      "r_data (n_in (l_rw l)) = w2 @ rest"
      using ReadRecord_WriteRecord [OF Cons.prems(1) w w1] by blast
    let ?c = "c\<lparr>cs_layer := l, cs_hsBuf := cs_hsBuf c @ f\<rparr>"
    have rec: "readHandshakeRecord X c = readHandshakeRecord X ?c"
      using none l(1) by (subst readHandshakeRecord.simps) simp
    have "cs_hsBuf ?c @ concat frags = buildEnvelope t body @ later" using Cons.prems(5) by simp
    from Cons.IH [OF _ ws w2 _ this Cons.prems(6)] l(2,3)
    obtain c' n s2 wire' where "readHandshakeRecord X ?c = (Inr (t, body), c')" "cs_hsBuf c' @ concat (drop n frags) = later"
      "in_sync X s2 (cs_layer c')" "WriteRecords X (map (Pair ContentTypeHandshake) (drop n frags)) s2 = (Inr (), s')"
      "n_out (l_rw s') = n_out (l_rw s2) @ wire'" "r_data (n_in (l_rw (cs_layer c'))) = wire' @ rest" by auto
    then show ?thesis unfolding rec by (intro exI [of _ c'] exI [of _ "Suc n"] exI [of _ s2] exI [of _ wire']) simp
  qed
qed

fun readHandshakeRecords :: "('x) ccrypto_scheme \<Rightarrow> nat \<Rightarrow> (ClientState, (Type \<times> bytes) list) sm" where
  "readHandshakeRecords X 0 = returnS []"
| "readHandshakeRecords X (Suc n) =
     bindS (readHandshakeRecord X) (\<lambda>m. bindS (readHandshakeRecords X n) (\<lambda>ms. returnS (m # ms)))"

lemma readHandshakeRecords_fragments:
  assumes "in_sync X s (cs_layer c)" "WriteRecords X (map (Pair ContentTypeHandshake) frags) s = (Inr (), s')"
    "n_out (l_rw s') = n_out (l_rw s) @ wire" "r_data (n_in (l_rw (cs_layer c))) = wire @ rest"
    "cs_hsBuf c @ concat frags = concat (envelopes ms)" "\<forall>(t, body) \<in> set ms. length body \<le> maxHandshakeMsg" "[] \<notin> set frags"
  shows "\<exists>c'. readHandshakeRecords X (length ms) c = (Inr ms, c') \<and> cs_hsBuf c' = [] \<and>
    in_sync X s' (cs_layer c') \<and> r_data (n_in (l_rw (cs_layer c'))) = rest"
  using assms
proof (induction ms arbitrary: c s wire frags)
  case Nil
  then have "frags = []" by (cases frags) auto
  with Nil show ?case by simp
next
  case (Cons m ms)
  obtain t body where m: "m = (t, body)" by (cases m)
  have "cs_hsBuf c @ concat frags = buildEnvelope t body @ concat (envelopes ms)" "length body \<le> maxHandshakeMsg"
    using Cons.prems(5,6) m by auto
  from readHandshakeRecord_fragments [OF Cons.prems(1-4) this]
  obtain c1 n s1 wire' where rd: "readHandshakeRecord X c = (Inr (t, body), c1)" and a: "cs_hsBuf c1 @ concat (drop n frags) = concat (envelopes ms)"
    "in_sync X s1 (cs_layer c1)" "WriteRecords X (map (Pair ContentTypeHandshake) (drop n frags)) s1 = (Inr (), s')"
    "n_out (l_rw s') = n_out (l_rw s1) @ wire'" "r_data (n_in (l_rw (cs_layer c1))) = wire' @ rest" by blast
  have "\<forall>(t, body) \<in> set ms. length body \<le> maxHandshakeMsg" "[] \<notin> set (drop n frags)"
    using Cons.prems(6,7) by (auto dest: in_set_dropD)
  from Cons.IH [OF a(2-5,1) this] rd m show ?case by (auto simp: bindS_def)
qed

end
