(* ===== verification/ExampleRun.thy ===== *)
theory ExampleRun
  imports HandshakeErrors Reassembly Instances
begin

text \<open>
  A complete handshake of the client with an RSA server in the environment of theory
  \<open>Instances\<close>, evaluated step by step: it shows that the hypotheses of the theorems on
  completed handshakes can hold.  The lemmas on unprotected records are general.
\<close>

section \<open>Records in the clear\<close>

text \<open>A layer without protection over a transport that accepts every write: its sequence numbers,
  the input still to come and the randomness at least available.\<close>

definition plainLayer :: "u64 \<Rightarrow> u64 \<Rightarrow> bytes \<Rightarrow> nat \<Rightarrow> Layer \<Rightarrow> bool" where
  "plainLayer k j data n l \<longleftrightarrow>
     n_plan (l_rw l) = [] \<and> l_sendProt l = NullProtector \<and> l_recvProt l = NullProtector \<and>
     l_sendSeq l = k \<and> l_recvSeq l = j \<and> n_in (l_rw l) = \<lparr>r_data = data, r_err = EOF\<rparr> \<and> n_rand (l_rw l) = \<lparr>r_data = replicate n 7, r_err = EOF\<rparr>"

lemma WriteRecord_plain:
  assumes "plainLayer k j data n l" "k \<noteq> - 1" "isKnownContentType ct" "length p \<le> 16384"
  shows "\<exists>l'. WriteRecord X ct p l = (Inr (), l') \<and> plainLayer (k + 1) j data n l'"
  using assms
  by (simp add: plainLayer_def WriteRecord_def layer_Seal_def nullProtector_Seal_def layer_Write_def net_Write_def
      record_const_defs bindS_def modifyS_def Let_def)

lemma ReadRecord_plain:
  assumes "plainLayer k j (record_bytes ct p @ rest) n l" "j \<noteq> - 1" "isKnownContentType ct" "length p \<le> 16384"
  shows "\<exists>l'. ReadRecord X l = (Inr (ct, p), l') \<and> plainLayer k (j + 1) rest n l'"
proof -
  have "r_data (n_in (l_rw l)) = record_bytes ct p @ rest" "l_recvProt l = NullProtector" "l_recvSeq l = j"
    using assms(1) by (simp_all add: plainLayer_def)
  from ReadRecord_data [OF this(1) assms(3), of X p NullProtector] this(2,3) assms
  show ?thesis by (simp add: nullProtector_Open_def) (simp add: plainLayer_def)
qed

lemma readHandshakeRecord_buffer:
  assumes "ReadRecord X (cs_layer c) = (Inr (ContentTypeHandshake, buildEnvelope t body), l)" "cs_hsBuf c = []"
    "length body \<le> 16380"
  shows "readHandshakeRecord X c = (Inr (t, body), c\<lparr>cs_layer := l\<rparr>)"
proof -
  have e: "bufferedMessage [] = None" by (simp add: bufferedMessage_def)
  have "bufferedMessage (buildEnvelope t body) = Some (Inr (t, body, []))"
    using bufferedMessage_complete [of body t "[]"] assms(3) by (simp add: maxHandshakeMsg_def)
  then have "readHandshakeRecord X (c\<lparr>cs_layer := l, cs_hsBuf := buildEnvelope t body\<rparr>) = (Inr (t, body), c\<lparr>cs_layer := l, cs_hsBuf := []\<rparr>)"
    by (subst readHandshakeRecord.simps) simp
  then show ?thesis using assms(1,2) e by (subst readHandshakeRecord.simps) simp
qed

lemma readHandshakeRecord_plain:
  assumes "plainLayer k j (record_bytes ContentTypeHandshake (buildEnvelope t body) @ rest) n (cs_layer c)" "j \<noteq> - 1"
    "cs_hsBuf c = []" "length body \<le> 16380"
  shows "\<exists>l'. readHandshakeRecord X c = (Inr (t, body), c\<lparr>cs_layer := l'\<rparr>) \<and> plainLayer k (j + 1) rest n l'"
proof -
  have "isKnownContentType ContentTypeHandshake" "length (buildEnvelope t body) \<le> 16384"
    using assms(4) by (simp_all add: isKnownContentType_def)
  from ReadRecord_plain [OF assms(1,2) this, of X] readHandshakeRecord_buffer [OF _ assms(3,4), of X]
  show ?thesis by blast
qed

text \<open>A transcript with room for more.\<close>

definition roomy :: "nat \<Rightarrow> Transcript \<Rightarrow> bool" where
  "roomy n t \<longleftrightarrow> \<not> t_overflow t \<and> length (t_buf t) \<le> n"

lemma roomy_Write:
  assumes "roomy n t" "n \<le> 10000" "length m \<le> 200"
  shows "roomy (n + 200) (Transcript_Write m t)"
  using assms by (simp add: roomy_def Transcript_Write_def maxTranscriptBytes_def)

section \<open>A complete handshake\<close>

definition exampleParams :: ClientParams where
  "exampleParams = \<lparr>p_Rand = None, p_ServerName = [97], p_OfferedSuites = [suiteRSAAES128GCMSHA256], p_RootCAs = None,
     p_InsecureSkipVerify = False, p_VerifyPeerCertificate = None, p_GOSTRoots = AnyNil, p_GOSTIntermediates = AnyNil,
     p_Certificates = []\<rparr>"

definition exampleServerHello :: ServerHello where
  "exampleServerHello = \<lparr>sh_Version = 0x0303, sh_Random = replicate 32 9, sh_SessionID = [], sh_CipherSuite = suiteRSAAES128GCMSHA256,
     sh_CompressionMethod = 0, sh_ExtendedMasterSecret = False, sh_RenegotiationInfo = False, sh_ExtensionTypes = []\<rparr>"

definition exampleServerFinished :: bytes where
  "exampleServerFinished = replicate 8 0 @ buildEnvelope TypeFinished (replicate 12 0) @ replicate 16 0"

definition exampleInput :: bytes where
  "exampleInput =
     record_bytes ContentTypeHandshake (buildEnvelope TypeServerHello (ServerHello_Marshal exampleServerHello)) @
     record_bytes ContentTypeHandshake (buildEnvelope TypeCertificate [0, 0, 4, 0, 0, 1, 1]) @
     record_bytes ContentTypeHandshake (buildEnvelope TypeServerHelloDone []) @
     record_bytes ContentTypeChangeCipherSpec [1] @
     record_bytes ContentTypeHandshake exampleServerFinished"

definition exampleLayer :: Layer where
  "exampleLayer = NewLayer (exampleNet exampleInput)"

abbreviation exampleClient :: ClientState where
  "exampleClient \<equiv> NewClientState exampleLayer exampleParams"

lemma exampleHello_sizes:
  "length (MarshalMessage (MClientHello (clientHelloOf exampleParams (replicate 32 7)))) = 100"
  by code_simp

lemma exampleServerHello_parses:
  "parseBody TypeServerHello (ServerHello_Marshal exampleServerHello) = Inr (MServerHello exampleServerHello)"
  "length (ServerHello_Marshal exampleServerHello) = 38"
  by code_simp+

lemma exampleCertificate_parses:
  "parseBody TypeCertificate [0, 0, 4, 0, 0, 1, 1] = Inr (MCertificate \<lparr>cert_RawCerts = [[1]]\<rparr>)"
  by code_simp

lemma exampleSuite_Lookup: "Lookup globalRegistry suiteRSAAES128GCMSHA256 = Some exampleSuite"
  by code_simp

lemma exampleLayer_plain: "plainLayer 0 0 exampleInput 300 exampleLayer"
  by (simp add: plainLayer_def exampleLayer_def NewLayer_def NewLayerWithSeq_def exampleNet_def)

lemma ReadFull_sevens:
  "n \<le> m \<Longrightarrow> ReadFull n \<lparr>r_data = replicate m 7, r_err = EOF\<rparr> = (Inr (replicate n 7), \<lparr>r_data = replicate (m - n) 7, r_err = EOF\<rparr>)"
  by (simp add: ReadFull_def)

lemma example_sendClientHello:
  assumes "plainLayer 0 0 data 300 layer"
  shows "\<exists>l t. sendClientHello exampleEnv (NewClientState layer exampleParams) =
      (Inr (), (NewClientState layer exampleParams)\<lparr>cs_clientRandom := replicate 32 7, cs_layer := l, cs_transcript := t\<rparr>) \<and>
     plainLayer 1 0 data 268 l \<and> roomy 200 t"
proof -
  let ?c = "NewClientState layer exampleParams"
  let ?hello = "MarshalMessage (MClientHello (clientHelloOf exampleParams (replicate 32 7)))"
  have room: "roomy 200 (Transcript_Write ?hello (cs_transcript ?c))"
    using roomy_Write [of 0 NewTranscript ?hello] exampleHello_sizes
    by (simp add: roomy_def NewTranscript_def NewClientState_def)
  let ?l = "layer\<lparr>l_rw := (l_rw layer)\<lparr>n_rand := \<lparr>r_data = replicate 268 7, r_err = EOF\<rparr>\<rparr>\<rparr>"
  have r: "withParamsRand (ReadFull 32) ?c = (Inr (replicate 32 7), ?c\<lparr>cs_layer := ?l\<rparr>)"
    using assms ReadFull_sevens [of 32 300]
    by (simp add: withParamsRand_def withSysRand_def NewClientState_def exampleParams_def plainLayer_def)
  have "plainLayer 0 0 data 268 ?l" using assms by (simp add: plainLayer_def)
  then obtain l where l: "WriteRecord exampleEnv ContentTypeHandshake ?hello ?l = (Inr (), l)" "plainLayer (0 + 1) 0 data 268 l"
    using WriteRecord_plain [of 0 0 data 268 ?l ContentTypeHandshake ?hello exampleEnv] exampleHello_sizes
    by (auto simp: isKnownContentType_def)
  have p: "cs_params ?c = exampleParams" by (simp add: NewClientState_def)
  show ?thesis
    using r l p room by (simp add: sendClientHello_def onLayer_def transcriptWrite_def Let_def bindS_def) blast
qed

lemma example_recvServerHello:
  assumes "plainLayer 1 0 exampleInput 268 (cs_layer c)" "cs_hsBuf c = []" "cs_params c = exampleParams" "roomy 200 (cs_transcript c)"
  shows "\<exists>l t. recvServerHello exampleEnv c = (Inr (), c\<lparr>cs_layer := l, cs_suite := Some exampleSuite, cs_serverRandom := replicate 32 9, cs_transcript := t\<rparr>) \<and>
     plainLayer 1 1 (record_bytes ContentTypeHandshake (buildEnvelope TypeCertificate [0, 0, 4, 0, 0, 1, 1]) @
       record_bytes ContentTypeHandshake (buildEnvelope TypeServerHelloDone []) @
       record_bytes ContentTypeChangeCipherSpec [1] @ record_bytes ContentTypeHandshake exampleServerFinished) 268 l \<and> roomy 400 t"
proof -
  have room: "roomy 400 (Transcript_Write (buildEnvelope TypeServerHello (ServerHello_Marshal exampleServerHello)) (cs_transcript c))"
    using roomy_Write [OF assms(4), of "buildEnvelope TypeServerHello (ServerHello_Marshal exampleServerHello)"] exampleServerHello_parses(2) by simp
  obtain l where l: "readHandshakeRecord exampleEnv c = (Inr (TypeServerHello, ServerHello_Marshal exampleServerHello), c\<lparr>cs_layer := l\<rparr>)"
    "plainLayer 1 (0 + 1) (record_bytes ContentTypeHandshake (buildEnvelope TypeCertificate [0, 0, 4, 0, 0, 1, 1]) @
       record_bytes ContentTypeHandshake (buildEnvelope TypeServerHelloDone []) @
       record_bytes ContentTypeChangeCipherSpec [1] @ record_bytes ContentTypeHandshake exampleServerFinished) 268 l"
    using readHandshakeRecord_plain [OF assms(1) [unfolded exampleInput_def] _ assms(2), of exampleEnv] exampleServerHello_parses(2) by auto
  have p: "ParseMessage (buildEnvelope TypeServerHello (ServerHello_Marshal exampleServerHello)) = Inr (MServerHello exampleServerHello, [])"
    using ParseMessage_buildEnvelope [of "ServerHello_Marshal exampleServerHello"] exampleServerHello_parses by (simp add: maxHandshakeMsg_def)
  have s: "sh_Version exampleServerHello = tlsVersion12" "sh_CipherSuite exampleServerHello = suiteRSAAES128GCMSHA256"
    "sh_CompressionMethod exampleServerHello = 0" "\<not> sh_ExtendedMasterSecret exampleServerHello" "sh_ExtensionTypes exampleServerHello = []"
    "sh_Random exampleServerHello = replicate 32 9" "p_OfferedSuites exampleParams = [suiteRSAAES128GCMSHA256]"
    by (simp_all add: exampleServerHello_def exampleParams_def tlsVersion12_def)
  show ?thesis
    using l p s assms(3) exampleSuite_Lookup room
    by (simp add: recvServerHello_def orFatal_def catchS_def bindS_def transcriptWrite_def) blast
qed

lemma example_certificates:
  "x509gost_ParseCertificate exampleEnv b = Inr exampleGOSTLeaf" "x509_Verify exampleEnv leaf opts = Inr [[leaf]]"
  "gx_Stdlib exampleGOSTLeaf = Some exampleLeaf" "\<not> gx_HasGOSTPubKey exampleGOSTLeaf" "\<not> gx_IsGOST exampleGOSTLeaf"
  by (simp_all add: exampleEnv_def exampleGOSTLeaf_def)

lemma example_recvCertificate:
  assumes "plainLayer 1 1 (record_bytes ContentTypeHandshake (buildEnvelope TypeCertificate [0, 0, 4, 0, 0, 1, 1]) @ rest) 268 (cs_layer c)"
    "cs_hsBuf c = []" "cs_params c = exampleParams" "roomy 400 (cs_transcript c)"
  shows "\<exists>l t. recvCertificate exampleEnv c = (Inr (Some exampleLeaf, \<lparr>cert_RawCerts = [[1]]\<rparr>), c\<lparr>cs_layer := l, cs_transcript := t\<rparr>) \<and>
     plainLayer 1 2 rest 268 l \<and> roomy 600 t"
proof -
  have room: "roomy 600 (Transcript_Write (buildEnvelope TypeCertificate [0, 0, 4, 0, 0, 1, 1]) (cs_transcript c))"
    using roomy_Write [OF assms(4), of "buildEnvelope TypeCertificate [0, 0, 4, 0, 0, 1, 1]"] by simp
  obtain l where l: "readHandshakeRecord exampleEnv c = (Inr (TypeCertificate, [0, 0, 4, 0, 0, 1, 1]), c\<lparr>cs_layer := l\<rparr>)"
    "plainLayer 1 (1 + 1) rest 268 l"
    using readHandshakeRecord_plain [OF assms(1) _ assms(2), of exampleEnv] by auto
  have p: "ParseMessage (buildEnvelope TypeCertificate [0, 0, 4, 0, 0, 1, 1]) = Inr (MCertificate \<lparr>cert_RawCerts = [[1]]\<rparr>, [])"
    using ParseMessage_buildEnvelope [of "[0, 0, 4, 0, 0, 1, 1]"] exampleCertificate_parses by (simp add: maxHandshakeMsg_def)
  have "parseAndVerifyChain exampleEnv [[1]] c' = (Inr (Some exampleLeaf, [[Some exampleLeaf]]), c')" if "cs_params c' = exampleParams" for c'
    using that by (simp add: parseAndVerifyChain_def verifyChain_def example_certificates exampleParams_def Let_def)
  moreover have "p_VerifyPeerCertificate exampleParams = None" by (simp add: exampleParams_def)
  ultimately show ?thesis
    using l p assms(3) room by (simp add: recvCertificate_def orFatal_def catchS_def bindS_def transcriptWrite_def) blast
qed

lemma example_recvServerFlight:
  assumes "plainLayer 1 2 (record_bytes ContentTypeHandshake (buildEnvelope TypeServerHelloDone []) @ rest) 268 (cs_layer c)"
    "cs_hsBuf c = []" "cs_suite c = Some exampleSuite" "roomy 600 (cs_transcript c)"
  shows "\<exists>l t. recvServerFlight exampleEnv cert c = (Inr [], c\<lparr>cs_layer := l, cs_transcript := t\<rparr>) \<and> plainLayer 1 3 rest 268 l \<and> roomy 800 t"
proof -
  have room: "roomy 800 (Transcript_Write (buildEnvelope TypeServerHelloDone []) (cs_transcript c))"
    using roomy_Write [OF assms(4), of "buildEnvelope TypeServerHelloDone []"] by simp
  obtain l where l: "readHandshakeRecord exampleEnv c = (Inr (TypeServerHelloDone, []), c\<lparr>cs_layer := l\<rparr>)"
    "plainLayer 1 (2 + 1) rest 268 l"
    using readHandshakeRecord_plain [OF assms(1) _ assms(2), of exampleEnv] by auto
  have p: "ParseMessage (buildEnvelope TypeServerHelloDone []) = Inr (MServerHelloDone, [])" by code_simp
  have "flightStep exampleEnv cert flightStart c = (Inr (Inr flightStart), c\<lparr>cs_layer := l,
      cs_transcript := Transcript_Write (buildEnvelope TypeServerHelloDone []) (cs_transcript c)\<rparr>)"
    using l p by (simp add: flightStep_def flightMessage_def orFatal_def catchS_def bindS_def transcriptWrite_def type_defs)
  then have "recvServerFlight_loop exampleEnv cert flightStart c = (Inr flightStart, c\<lparr>cs_layer := l,
      cs_transcript := Transcript_Write (buildEnvelope TypeServerHelloDone []) (cs_transcript c)\<rparr>)"
    by (subst recvServerFlight_loop.simps) simp
  then show ?thesis
    using l assms(3) room by (simp add: recvServerFlight_def bindS_def theSuite_def exampleSuite_def) blast
qed

lemma example_computeKeyExchange:
  assumes "plainLayer 1 3 rest 268 (cs_layer c)" "cs_suite c = Some exampleSuite" "cs_params c = exampleParams"
  shows "\<exists>l. computeKeyExchange exampleEnv (Some exampleLeaf) [] raw c =
      (Inr ([3, 3] @ replicate 46 7, put16 48 @ [3, 3] @ replicate 46 7), c\<lparr>cs_layer := l\<rparr>) \<and> plainLayer 1 3 rest 222 l"
proof -
  let ?l = "(cs_layer c)\<lparr>l_rw := (l_rw (cs_layer c))\<lparr>n_rand := \<lparr>r_data = replicate 222 7, r_err = EOF\<rparr>\<rparr>\<rparr>"
  let ?pm = "[3, 3] @ replicate 46 (7 :: byte)"
  have n: "n_rand (l_rw (cs_layer c)) = \<lparr>r_data = replicate 268 7, r_err = EOF\<rparr>" using assms(1) by (simp add: plainLayer_def)
  have pm: "length ?pm = 48" by simp
  have "rsa_EncryptPKCS1v15 exampleEnv k ?pm = returnS ?pm" for k unfolding exampleEnv_def using pm by simp
  then have "rsaExchangeWithRand_ClientKeyExchange exampleEnv \<lparr>rsa_N = 15, rsa_E = 3\<rparr> [] \<lparr>r_data = replicate 268 7, r_err = EOF\<rparr> =
      (Inr (put16 48 @ ?pm, ?pm), \<lparr>r_data = replicate 222 7, r_err = EOF\<rparr>)"
    using ReadFull_sevens [of 46 268]
    by (simp add: rsaExchangeWithRand_ClientKeyExchange_def rsaPreMasterLen_def rsaCKELenPrefixSize_def Let_def bindS_def)
  then have "withParamsRand (rsaExchangeWithRand_ClientKeyExchange exampleEnv \<lparr>rsa_N = 15, rsa_E = 3\<rparr> []) c =
      (Inr (put16 48 @ ?pm, ?pm), c\<lparr>cs_layer := ?l\<rparr>)"
    using n assms(3) by (simp add: withParamsRand_def withSysRand_def exampleParams_def)
  then have "computeKeyExchange exampleEnv (Some exampleLeaf) [] raw c = (Inr (?pm, put16 48 @ ?pm), c\<lparr>cs_layer := ?l\<rparr>)"
    using assms(2)
    by (simp add: computeKeyExchange_def chooseExchange_def theSuite_def exampleSuite_def exampleLeaf_def orFatal_def catchS_def bindS_def)
  moreover have "plainLayer 1 3 rest 222 ?l" using assms(1) by (simp add: plainLayer_def)
  ultimately show ?thesis by blast
qed

lemma exampleSuite_fields:
  "s_PRF exampleSuite = SHA256New" "s_KX exampleSuite = KexRSA" "m_KeyLen (s_MAC exampleSuite) = 0" "c_KeyLen (s_Cipher exampleSuite) = 16"
  by code_simp+

lemma example_expandKeys:
  assumes "cs_suite c = Some exampleSuite"
  shows "expandKeys exampleEnv c = (Inr (exampleKeys, AEADProtector exampleAEAD, AEADProtector exampleAEAD), c)"
  using assms exampleSuite_keys [of "cs_masterSecret c" "cs_clientRandom c" "cs_serverRandom c"] exampleSuite_protectors
  by (simp add: expandKeys_def theSuite_def exampleSuite_ivLen exampleSuite_fields orFatal_def catchS_def bindS_def)

lemma example_sendHandshake:
  assumes "plainLayer k j data n (cs_layer c)" "k \<noteq> - 1" "length (MarshalMessage msg) \<le> 200" "roomy m (cs_transcript c)" "m \<le> 10000"
  shows "\<exists>l t. sendHandshake X msg c = (Inr (), c\<lparr>cs_layer := l, cs_transcript := t\<rparr>) \<and> plainLayer (k + 1) j data n l \<and> roomy (m + 200) t"
proof -
  obtain l where l: "WriteRecord X ContentTypeHandshake (MarshalMessage msg) (cs_layer c) = (Inr (), l)" "plainLayer (k + 1) j data n l"
    using WriteRecord_plain [OF assms(1,2), of ContentTypeHandshake "MarshalMessage msg" X] assms(3) by (auto simp: isKnownContentType_def)
  then show ?thesis using roomy_Write [OF assms(4,5,3)] by (simp add: sendHandshake_def onLayer_def orFatal_def catchS_def bindS_def transcriptWrite_def Let_def) blast
qed

text \<open>The digests and the verify data do not depend on the transcript in this environment, as long as
  it has not overflowed.\<close>

lemma example_verifyData:
  "label \<noteq> [] \<Longrightarrow> FinishedVerifyData (newHash exampleEnv) exampleSuite ms label digest = Inr (replicate 12 0)"
  by (simp add: FinishedVerifyData_def exampleSuite_fields PRF_zeroHash bytes_of_def)

lemma AEAD_write:
  assumes "n_plan (l_rw l) = []" "length p \<le> 16000"
  shows "\<exists>l'. WriteRecord exampleEnv ContentTypeHandshake p (ChangeCipherSpec (Some (AEADProtector exampleAEAD)) None l) = (Inr (), l') \<and>
    n_in (l_rw l') = n_in (l_rw l) \<and> l_recvProt l' = l_recvProt l \<and> l_recvSeq l' = l_recvSeq l \<and> n_plan (l_rw l') = []"
  using assms
  by (simp add: WriteRecord_def ChangeCipherSpec_def layer_Seal_def layer_Write_def net_Write_def isKnownContentType_def
      record_const_defs aeadProtector_Seal_def exampleAEAD_def zeroTagAEAD_def bindS_def modifyS_def Let_def)

lemma example_sendClientFinished:
  assumes "plainLayer k j data n (cs_layer c)" "k \<noteq> - 1" "cs_suite c = Some exampleSuite" "\<not> t_overflow (cs_transcript c)"
  shows "\<exists>l t. sendClientFinished exampleEnv ms (AEADProtector exampleAEAD) c = (Inr (), c\<lparr>cs_layer := l, cs_transcript := t\<rparr>) \<and>
    t = Transcript_Write (buildEnvelope TypeFinished (replicate 12 0)) (cs_transcript c) \<and>
    r_data (n_in (l_rw l)) = data \<and> l_recvProt l = NullProtector \<and> l_recvSeq l = j"
proof -
  obtain l1 where l1: "WriteRecord exampleEnv ContentTypeChangeCipherSpec [1] (cs_layer c) = (Inr (), l1)" "plainLayer (k + 1) j data n l1"
    using WriteRecord_plain [OF assms(1,2), of ContentTypeChangeCipherSpec "[1]" exampleEnv] by (auto simp: isKnownContentType_def)
  let ?fin = "MFinished \<lparr>fin_VerifyData = replicate 12 0\<rparr>"
  obtain l where l: "WriteRecord exampleEnv ContentTypeHandshake (MarshalMessage ?fin) (ChangeCipherSpec (Some (AEADProtector exampleAEAD)) None l1) = (Inr (), l)"
    "n_in (l_rw l) = n_in (l_rw l1)" "l_recvProt l = l_recvProt l1" "l_recvSeq l = l_recvSeq l1"
    using AEAD_write [of l1 "MarshalMessage ?fin"] l1(2) by (auto simp: plainLayer_def MarshalMessage_envelope)
  have "sendClientFinished exampleEnv ms (AEADProtector exampleAEAD) c =
      (Inr (), c\<lparr>cs_layer := l, cs_transcript := Transcript_Write (MarshalMessage ?fin) (cs_transcript c)\<rparr>)"
    using l1(1) l(1) assms(3,4) example_verifyData [of "''client finished''"]
    by (simp add: sendClientFinished_def sendHandshake_def onLayer_def orFatal_def catchS_def bindS_def transcriptWrite_def
        theSuite_def Transcript_Sum_def Let_def)
  then show ?thesis using l(2-4) l1(2) by (auto simp: plainLayer_def MarshalMessage_envelope)
qed

lemma example_receiveServerFinished:
  assumes "r_data (n_in (l_rw (cs_layer c))) = record_bytes ContentTypeChangeCipherSpec [1] @ record_bytes ContentTypeHandshake exampleServerFinished"
    "l_recvProt (cs_layer c) = NullProtector" "l_recvSeq (cs_layer c) = 3" "cs_hsBuf c = []" "cs_suite c = Some exampleSuite"
    "\<not> t_overflow (cs_transcript c)"
  shows "\<exists>c'. receiveServerFinished exampleEnv ms (AEADProtector exampleAEAD) c = (Inr (), c')"
proof -
  obtain l where l: "ReadRecord exampleEnv (cs_layer c) = (Inr (ContentTypeChangeCipherSpec, [1]), l)"
    "r_data (n_in (l_rw l)) = record_bytes ContentTypeHandshake exampleServerFinished @ []"
    using ReadRecord_data [OF assms(1), of exampleEnv "[1]" NullProtector] assms(2,3)
    by (simp add: isKnownContentType_def nullProtector_Open_def)
  let ?l = "ChangeCipherSpec None (Some (AEADProtector exampleAEAD)) l"
  have d: "r_data (n_in (l_rw ?l)) = record_bytes ContentTypeHandshake exampleServerFinished @ []"
    "l_recvProt ?l = AEADProtector exampleAEAD" "l_recvSeq ?l = 0"
    using l(2) by (simp_all add: ChangeCipherSpec_def)
  have n: "length exampleServerFinished = 40" by (simp add: exampleServerFinished_def)
  have "aeadProtector_Open exampleAEAD 0 hdr exampleServerFinished = Inr (buildEnvelope TypeFinished (replicate 12 0))" for hdr
    by (simp add: aeadProtector_Open_def exampleAEAD_def zeroTagAEAD_def exampleServerFinished_def aeadExplicitNonceLen_def)
  then obtain l2 where "ReadRecord exampleEnv ?l = (Inr (ContentTypeHandshake, buildEnvelope TypeFinished (replicate 12 0)), l2)"
    using ReadRecord_data [OF d(1), of exampleEnv "buildEnvelope TypeFinished (replicate 12 0)" "AEADProtector exampleAEAD"] d(2,3) n
    by (auto simp: isKnownContentType_def)
  then have rd: "readHandshakeRecord exampleEnv (c\<lparr>cs_layer := ?l\<rparr>) = (Inr (TypeFinished, replicate 12 0), c\<lparr>cs_layer := l2\<rparr>)"
    using readHandshakeRecord_buffer [of exampleEnv "c\<lparr>cs_layer := ?l\<rparr>" TypeFinished "replicate 12 0" l2] assms(4) by simp
  have p: "ParseMessage (buildEnvelope TypeFinished (replicate 12 0)) = Inr (MFinished \<lparr>fin_VerifyData = replicate 12 0\<rparr>, [])"
    by code_simp
  show ?thesis
    using l(1) rd p assms(4-6) example_verifyData [of "''server finished''"]
    by (simp add: receiveServerFinished_def onLayer_def orFatal_def catchS_def bindS_def transcriptWrite_def
        theSuite_def Transcript_Sum_def EqualVerifyData_def ConstantTimeCompare_def Let_def)
qed

lemma exampleHandshake_finish:
  assumes "plainLayer 1 3 (record_bytes ContentTypeChangeCipherSpec [1] @ record_bytes ContentTypeHandshake exampleServerFinished) 222 (cs_layer c)"
    "cs_hsBuf c = []" "cs_suite c = Some exampleSuite" "roomy 800 (cs_transcript c)" "cs_certReq c = None" "\<not> cs_clientCertSent c"
  shows "\<exists>c7 c8 c10 c11. clientCertificateStep exampleEnv c = (Inr (), c7) \<and>
    sendHandshake exampleEnv (MClientKeyExchange \<lparr>cke_Body = put16 48 @ [3, 3] @ replicate 46 7\<rparr>) c7 = (Inr (), c8) \<and>
    certificateVerifyStep exampleEnv c8 = (Inr (), c8) \<and> sendClientFinished exampleEnv ms (AEADProtector exampleAEAD) c8 = (Inr (), c10) \<and>
    cs_hsBuf c10 = [] \<and> receiveServerFinished exampleEnv ms (AEADProtector exampleAEAD) c10 = (Inr (), c11)"
proof -
  let ?msg = "MClientKeyExchange \<lparr>cke_Body = put16 48 @ [3, 3] @ replicate 46 7\<rparr>"
  let ?data = "record_bytes ContentTypeChangeCipherSpec [1] @ record_bytes ContentTypeHandshake exampleServerFinished"
  have c7: "clientCertificateStep exampleEnv c = (Inr (), c)" using assms(5) by (simp add: clientCertificateStep_def)
  have "length (MarshalMessage ?msg) \<le> 200" by (simp add: MarshalMessage_envelope)
  from example_sendHandshake [OF assms(1) _ this assms(4), of exampleEnv]
  obtain l t where s: "sendHandshake exampleEnv ?msg c = (Inr (), c\<lparr>cs_layer := l, cs_transcript := t\<rparr>)"
    "plainLayer 2 3 ?data 222 l" "roomy 1000 t" by auto
  let ?c8 = "c\<lparr>cs_layer := l, cs_transcript := t\<rparr>"
  have cv: "certificateVerifyStep exampleEnv ?c8 = (Inr (), ?c8)" using assms(6) by (simp add: certificateVerifyStep_def)
  have f: "plainLayer 2 3 ?data 222 (cs_layer ?c8)" "(2 :: u64) \<noteq> - 1" "cs_suite ?c8 = Some exampleSuite" "\<not> t_overflow (cs_transcript ?c8)"
    using s assms(3) by (simp_all add: roomy_def)
  from example_sendClientFinished [OF this]
  obtain l' where fin: "sendClientFinished exampleEnv ms (AEADProtector exampleAEAD) ?c8 = (Inr (), ?c8\<lparr>cs_layer := l',
      cs_transcript := Transcript_Write (buildEnvelope TypeFinished (replicate 12 0)) t\<rparr>)"
    and l': "r_data (n_in (l_rw l')) = ?data" "l_recvProt l' = NullProtector" "l_recvSeq l' = 3" by auto
  have "roomy 1200 (Transcript_Write (buildEnvelope TypeFinished (replicate 12 0)) t)"
    using roomy_Write [OF s(3), of "buildEnvelope TypeFinished (replicate 12 0)"] by simp
  then obtain c11 where "receiveServerFinished exampleEnv ms (AEADProtector exampleAEAD) (?c8\<lparr>cs_layer := l',
      cs_transcript := Transcript_Write (buildEnvelope TypeFinished (replicate 12 0)) t\<rparr>) = (Inr (), c11)"
    using example_receiveServerFinished [of "?c8\<lparr>cs_layer := l', cs_transcript := Transcript_Write (buildEnvelope TypeFinished (replicate 12 0)) t\<rparr>" ms]
      l' assms(2,3) by (auto simp: roomy_def)
  with c7 s(1) cv fin assms(2) show ?thesis
    by (intro exI [of _ c] exI [of _ ?c8] exI [of _ "?c8\<lparr>cs_layer := l', cs_transcript := Transcript_Write (buildEnvelope TypeFinished (replicate 12 0)) t\<rparr>"]
        exI [of _ c11]) simp
qed

lemma ClientState_Handshake_run:
  assumes "sendClientHello X c = (Inr (), c1)" "recvServerHello X c1 = (Inr (), c2)"
    "recvCertificate X c2 = (Inr (leaf, certMsg), c3)" "recvServerFlight X leaf c3 = (Inr params, c4)"
    "computeKeyExchange X leaf params (cert_RawCerts certMsg) c4 = (Inr (pm, cke), c5)" "cs_suite c5 = Some suite"
    "MasterSecret (newHash X) suite pm (cs_clientRandom c5) (cs_serverRandom c5) = Inr ms"
    "expandKeys X (c5\<lparr>cs_masterSecret := ms\<rparr>) = (Inr (km, sp, rp), c6)" "clientCertificateStep X c6 = (Inr (), c7)"
    "sendHandshake X (MClientKeyExchange \<lparr>cke_Body = cke\<rparr>) c7 = (Inr (), c8)" "certificateVerifyStep X c8 = (Inr (), c9)"
    "sendClientFinished X ms sp c9 = (Inr (), c10)" "cs_hsBuf c10 = []" "receiveServerFinished X ms rp c10 = (Inr (), c11)"
  shows "ClientState_Handshake X c = (Inr (), c11\<lparr>cs_done := True\<rparr>)"
  using assms by (simp add: ClientState_Handshake_def theSuite_def orFatal_def catchS_def)

text \<open>The handshake completes.\<close>

lemma exampleHandshake: "\<exists>c'. ClientState_Handshake exampleEnv exampleClient = (Inr (), c')"
proof -
  let ?fin = "record_bytes ContentTypeChangeCipherSpec [1] @ record_bytes ContentTypeHandshake exampleServerFinished"
  obtain l1 t1 where s1: "sendClientHello exampleEnv exampleClient =
      (Inr (), exampleClient\<lparr>cs_clientRandom := replicate 32 7, cs_layer := l1, cs_transcript := t1\<rparr>)" "plainLayer 1 0 exampleInput 268 l1" "roomy 200 t1"
    using example_sendClientHello [OF exampleLayer_plain] by blast
  let ?c1 = "exampleClient\<lparr>cs_clientRandom := replicate 32 7, cs_layer := l1, cs_transcript := t1\<rparr>"
  obtain l2 t2 where s2: "recvServerHello exampleEnv ?c1 = (Inr (), ?c1\<lparr>cs_layer := l2, cs_suite := Some exampleSuite, cs_serverRandom := replicate 32 9, cs_transcript := t2\<rparr>)"
    "plainLayer 1 1 (record_bytes ContentTypeHandshake (buildEnvelope TypeCertificate [0, 0, 4, 0, 0, 1, 1]) @
       record_bytes ContentTypeHandshake (buildEnvelope TypeServerHelloDone []) @
       record_bytes ContentTypeChangeCipherSpec [1] @ record_bytes ContentTypeHandshake exampleServerFinished) 268 l2" "roomy 400 t2"
    using example_recvServerHello [of ?c1] s1 by (auto simp: NewClientState_def)
  let ?c2 = "?c1\<lparr>cs_layer := l2, cs_suite := Some exampleSuite, cs_serverRandom := replicate 32 9, cs_transcript := t2\<rparr>"
  obtain l3 t3 where s3: "recvCertificate exampleEnv ?c2 = (Inr (Some exampleLeaf, \<lparr>cert_RawCerts = [[1]]\<rparr>), ?c2\<lparr>cs_layer := l3, cs_transcript := t3\<rparr>)"
    "plainLayer 1 2 (record_bytes ContentTypeHandshake (buildEnvelope TypeServerHelloDone []) @
       record_bytes ContentTypeChangeCipherSpec [1] @ record_bytes ContentTypeHandshake exampleServerFinished) 268 l3" "roomy 600 t3"
    using example_recvCertificate [of "record_bytes ContentTypeHandshake (buildEnvelope TypeServerHelloDone []) @ ?fin" ?c2] s2 by (auto simp: NewClientState_def)
  let ?c3 = "?c2\<lparr>cs_layer := l3, cs_transcript := t3\<rparr>"
  obtain l4 t4 where s4: "recvServerFlight exampleEnv (Some exampleLeaf) ?c3 = (Inr [], ?c3\<lparr>cs_layer := l4, cs_transcript := t4\<rparr>)"
    "plainLayer 1 3 (record_bytes ContentTypeChangeCipherSpec [1] @ record_bytes ContentTypeHandshake exampleServerFinished) 268 l4" "roomy 800 t4"
    using example_recvServerFlight [of ?fin ?c3 "Some exampleLeaf"] s3 by (auto simp: NewClientState_def)
  let ?c4 = "?c3\<lparr>cs_layer := l4, cs_transcript := t4\<rparr>"
  obtain l5 where s5: "computeKeyExchange exampleEnv (Some exampleLeaf) [] [[1]] ?c4 =
      (Inr ([3, 3] @ replicate 46 7, put16 48 @ [3, 3] @ replicate 46 7), ?c4\<lparr>cs_layer := l5\<rparr>)"
    "plainLayer 1 3 (record_bytes ContentTypeChangeCipherSpec [1] @ record_bytes ContentTypeHandshake exampleServerFinished) 222 l5"
    using example_computeKeyExchange [of ?fin ?c4 "[[1]]"] s4 by (auto simp: NewClientState_def)
  let ?c5 = "?c4\<lparr>cs_layer := l5\<rparr>"
  have ms: "MasterSecret (newHash exampleEnv) exampleSuite ([3, 3] @ replicate 46 7) (replicate 32 7) (replicate 32 9) = Inr (replicate 48 0)"
    using PRF_zeroHash [of 32 "bytes_of ''master secret''" 48] by (simp add: MasterSecret_def exampleSuite_fields bytes_of_def)
  let ?c6 = "?c5\<lparr>cs_masterSecret := replicate 48 0\<rparr>"
  have k: "expandKeys exampleEnv ?c6 = (Inr (exampleKeys, AEADProtector exampleAEAD, AEADProtector exampleAEAD), ?c6)"
    by (rule example_expandKeys) simp
  obtain c7 c8 c10 c11 where f: "clientCertificateStep exampleEnv ?c6 = (Inr (), c7)"
    "sendHandshake exampleEnv (MClientKeyExchange \<lparr>cke_Body = put16 48 @ [3, 3] @ replicate 46 7\<rparr>) c7 = (Inr (), c8)"
    "certificateVerifyStep exampleEnv c8 = (Inr (), c8)" "sendClientFinished exampleEnv (replicate 48 0) (AEADProtector exampleAEAD) c8 = (Inr (), c10)"
    "cs_hsBuf c10 = []" "receiveServerFinished exampleEnv (replicate 48 0) (AEADProtector exampleAEAD) c10 = (Inr (), c11)"
    using exampleHandshake_finish [of ?c6 "replicate 48 0"] s5 s4 by (auto simp: NewClientState_def)
  have ke: "computeKeyExchange exampleEnv (Some exampleLeaf) [] (cert_RawCerts \<lparr>cert_RawCerts = [[1]]\<rparr>) ?c4 =
      (Inr ([3, 3] @ replicate 46 7, put16 48 @ [3, 3] @ replicate 46 7), ?c5)"
    using s5(1) by (simp only: Certificate.simps)
  have su: "cs_suite ?c5 = Some exampleSuite"
    and ms': "MasterSecret (newHash exampleEnv) exampleSuite ([3, 3] @ replicate 46 7) (cs_clientRandom ?c5) (cs_serverRandom ?c5) = Inr (replicate 48 0)"
    using ms by simp_all
  from ClientState_Handshake_run [OF s1(1) s2(1) s3(1) s4(1) ke su ms' k f]
  show ?thesis by blast
qed

section \<open>A handshake that fails\<close>

text \<open>The peer closes the connection instead of answering.\<close>

definition exampleDeadLayer :: Layer where
  "exampleDeadLayer = NewLayer (exampleNet [])"

lemma exampleDeadHandshake:
  "\<exists>c1 c'. sendClientHello exampleEnv (NewClientState exampleDeadLayer exampleParams) = (Inr (), c1) \<and>
     ClientState_Handshake exampleEnv (NewClientState exampleDeadLayer exampleParams) = (Inl EOF, c') \<and>
     l_sendProt (cs_layer c') = NullProtector \<and> l_sendSeq (cs_layer c') = 2"
proof -
  let ?c = "NewClientState exampleDeadLayer exampleParams"
  have "plainLayer 0 0 [] 300 exampleDeadLayer"
    by (simp add: plainLayer_def exampleDeadLayer_def NewLayer_def NewLayerWithSeq_def exampleNet_def)
  from example_sendClientHello [OF this] obtain l t where s: "sendClientHello exampleEnv ?c =
      (Inr (), ?c\<lparr>cs_clientRandom := replicate 32 7, cs_layer := l, cs_transcript := t\<rparr>)" "plainLayer 1 0 [] 268 l" by blast
  let ?c1 = "?c\<lparr>cs_clientRandom := replicate 32 7, cs_layer := l, cs_transcript := t\<rparr>"
  have "ReadRecord exampleEnv l = (Inl EOF, l)"
    using s(2) by (simp add: plainLayer_def ReadRecord_def layer_ReadFull_def net_ReadFull_def ReadFull_def recordHeaderLen_def bindS_def)
  moreover have "bufferedMessage [] = None" by (simp add: bufferedMessage_def)
  ultimately have r: "readHandshakeRecord exampleEnv ?c1 = (Inl EOF, ?c1)"
    by (subst readHandshakeRecord.simps) (simp add: NewClientState_def)
  obtain l' where "WriteRecord exampleEnv ContentTypeAlert (EncodeAlert AlertLevelFatal AlertHandshakeFailure) l = (Inr (), l')"
    and l': "plainLayer 2 0 [] 268 l'"
    using WriteRecord_plain [OF s(2), of ContentTypeAlert "EncodeAlert AlertLevelFatal AlertHandshakeFailure" exampleEnv]
    by (auto simp: isKnownContentType_def EncodeAlert_def)
  with r have "recvServerHello exampleEnv ?c1 = (Inl EOF, ?c1\<lparr>cs_layer := l'\<rparr>)"
    by (simp add: recvServerHello_def orFatal_def catchS_def fatal_def onLayer_def bindS_def)
  with s(1) have "ClientState_Handshake exampleEnv ?c = (Inl EOF, ?c1\<lparr>cs_layer := l'\<rparr>)"
    by (simp add: ClientState_Handshake_def)
  with s(1) l' show ?thesis by (fastforce simp: plainLayer_def)
qed

section \<open>A server flight with a signed key exchange\<close>

definition exampleECDHESuite :: Suite where
  "exampleECDHESuite = exampleSuite\<lparr>s_KX := KexECDHE\<rparr>"

definition exampleSKE :: bytes where
  "exampleSKE = [3, 0, 0x1D, 1, 5] @ [4, 1] @ put16 32 @ replicate 32 0"

definition exampleFlightClient :: ClientState where
  "exampleFlightClient = (NewClientState (NewLayer (exampleNet
      (record_bytes ContentTypeHandshake (buildEnvelope TypeServerKeyExchange exampleSKE) @
       record_bytes ContentTypeHandshake (buildEnvelope TypeServerHelloDone [])))) exampleParams)
     \<lparr>cs_suite := Some exampleECDHESuite\<rparr>"

lemma exampleSKE_verifies:
  assumes "cs_suite c = Some exampleECDHESuite"
  shows "verifyServerKeyExchange exampleEnv exampleSKE (Some exampleLeaf) c = (Inr [3, 0, 0x1D, 1, 5], c)"
proof -
  have v: "verifySignature exampleEnv (Some exampleLeaf) 4 1 d (replicate 32 0) = Inr ()" for d
    by (simp add: verifySignature_def verifyRSASignature_def hashForSigAlg_def sig_const_defs exampleLeaf_def)
      (simp add: exampleEnv_def zeroHash_def)
  have s: "s_KX exampleECDHESuite = KexECDHE" "s_Auth exampleECDHESuite = AuthRSA"
    by (simp_all add: exampleECDHESuite_def exampleSuite_def)
  have p: "length exampleSKE = 41" "exampleSKE ! 0 = curveTypeNamed" "unat (exampleSKE ! 3) = 1" "take 5 exampleSKE = [3, 0, 0x1D, 1, 5]"
    "drop 5 exampleSKE = [4, 1, 0, 32] @ replicate 32 0" "slice 4 36 ([4, 1, 0, 32] @ replicate 32 (0 :: byte)) = replicate 32 0"
    "unat (get16 0 32) = 32" "sigAlgAdvertised 4 1" "skeSigAlgMatchesAuth 1 AuthRSA"
    by code_simp+
  have "verifySKESignature exampleEnv [3, 0, 0x1D, 1, 5] ([4, 1, 0, 32] @ replicate 32 0) (Some exampleLeaf) e1 e2 c = (Inr [3, 0, 0x1D, 1, 5], c)" for e1 e2
    unfolding verifySKESignature_def using p(6-9) v s(2) assms
    by (simp add: theSuite_def orFatal_def catchS_def bindS_def)
  then show ?thesis
    using p(1-5) s(1) assms
    by (simp add: verifyServerKeyExchange_def verifyECDHEServerKeyExchange_def theSuite_def bindS_def)
qed

lemma exampleFlight:
  "\<exists>c'. recvServerFlight exampleEnv (Some exampleLeaf) exampleFlightClient = (Inr [3, 0, 0x1D, 1, 5], c')"
proof -
  let ?done = "record_bytes ContentTypeHandshake (buildEnvelope TypeServerHelloDone [])"
  let ?fl = "flightStart\<lparr>fl_sawSKE := True, fl_params := [3, 0, 0x1D, 1, 5]\<rparr>"
  have "plainLayer 0 0 (record_bytes ContentTypeHandshake (buildEnvelope TypeServerKeyExchange exampleSKE) @ ?done @ []) 300 (cs_layer exampleFlightClient)"
    "cs_hsBuf exampleFlightClient = []" "length exampleSKE \<le> 16380"
    by (simp_all add: plainLayer_def exampleFlightClient_def NewClientState_def NewLayer_def NewLayerWithSeq_def exampleNet_def exampleSKE_def)
  from readHandshakeRecord_plain [OF this(1) _ this(2,3), of exampleEnv]
  obtain l where r1: "readHandshakeRecord exampleEnv exampleFlightClient = (Inr (TypeServerKeyExchange, exampleSKE), exampleFlightClient\<lparr>cs_layer := l\<rparr>)"
    "plainLayer 0 1 (?done @ []) 300 l" by auto
  have p1: "ParseMessage (buildEnvelope TypeServerKeyExchange exampleSKE) = Inr (MServerKeyExchange \<lparr>ske_Body = exampleSKE\<rparr>, [])"
    using ParseMessage_buildEnvelope [of exampleSKE TypeServerKeyExchange]
    by (simp add: maxHandshakeMsg_def exampleSKE_def parseBody_def type_defs parseServerKeyExchange_def)
  let ?c1 = "exampleFlightClient\<lparr>cs_layer := l,
      cs_transcript := Transcript_Write (buildEnvelope TypeServerKeyExchange exampleSKE) (cs_transcript exampleFlightClient)\<rparr>"
  have su: "cs_suite exampleFlightClient = Some exampleECDHESuite" "cs_hsBuf exampleFlightClient = []"
    by (simp_all add: exampleFlightClient_def NewClientState_def)
  have s1: "flightStep exampleEnv (Some exampleLeaf) flightStart exampleFlightClient = (Inr (Inl ?fl), ?c1)"
    using r1(1) p1 exampleSKE_verifies [of ?c1] su
    by (simp add: flightStep_def flightMessage_def orFatal_def catchS_def bindS_def transcriptWrite_def)
  from readHandshakeRecord_plain [of 0 1 TypeServerHelloDone "[]" "[]" 300 ?c1 exampleEnv] r1(2) su
  obtain l' where r2: "readHandshakeRecord exampleEnv ?c1 = (Inr (TypeServerHelloDone, []), ?c1\<lparr>cs_layer := l'\<rparr>)" by auto
  have p2: "ParseMessage (buildEnvelope TypeServerHelloDone []) = Inr (MServerHelloDone, [])" by code_simp
  obtain c2 where s2: "flightStep exampleEnv (Some exampleLeaf) ?fl ?c1 = (Inr (Inr ?fl), c2)" "cs_suite c2 = Some exampleECDHESuite"
    using r2 p2 su by (simp add: flightStep_def flightMessage_def orFatal_def catchS_def bindS_def transcriptWrite_def type_defs)
  have "recvServerFlight_loop exampleEnv (Some exampleLeaf) flightStart exampleFlightClient = (Inr ?fl, c2)"
    using s1 s2 recvServerFlight_loop.simps [of exampleEnv "Some exampleLeaf" flightStart exampleFlightClient]
      recvServerFlight_loop.simps [of exampleEnv "Some exampleLeaf" ?fl ?c1] by simp
  then show ?thesis using s2(2) by (simp add: recvServerFlight_def theSuite_def bindS_def)
qed

end
