(* ===== verification/HandshakeProperties.thy ===== *)
theory HandshakeProperties
  imports ExampleRun
begin

text \<open>
  Properties of the handshake client as a whole: what a completed handshake guarantees, the order
  of its messages, how it fails, and how messages are reassembled from records.
\<close>

section \<open>A completed handshake\<close>

text \<open>C2 (safety).  When the handshake returns without an error the server has been authenticated:
  the third message of the transcript is a Certificate with at least one entry, the first entry
  parsed as the leaf, the chain passed the configured verification (none only under
  \<open>InsecureSkipVerify\<close>) and the configured callback; the key exchange that produced the master
  secret fits the negotiated suite, and for an ephemeral suite it ran on the parameters of the
  ServerKeyExchange in the transcript, whose signature over both randoms and the parameters was
  verified with the leaf's key under an advertised algorithm that fits the suite.\<close>

theorem handshake_authenticates_server:
  assumes "ClientState_Handshake X (NewClientState layer params) = (Inr (), c')"
  shows "\<exists>msgs certBody raw gc chains suite serverParams cke sp rp.
    cs_transcript c' = writes (envelopes msgs) NewTranscript \<and> 2 < length msgs \<and> msgs ! 2 = (TypeCertificate, certBody) \<and>
    parseBody TypeCertificate certBody = Inr (MCertificate \<lparr>cert_RawCerts = raw\<rparr>) \<and> raw \<noteq> [] \<and>
    x509gost_ParseCertificate X (hd raw) = Inr gc \<and> chainAccepted X params gc raw chains \<and>
    (\<forall>f. p_VerifyPeerCertificate params = Some f \<longrightarrow> f raw chains = Inr ()) \<and> cs_suite c' = Some suite \<and>
    keyed X suite (gx_Stdlib gc) serverParams (cs_clientRandom c') (cs_serverRandom c') cke (cs_masterSecret c') sp rp \<and>
    (s_KX suite \<in> {KexDHE, KexECDHE} \<longrightarrow>
       (\<exists>body. (TypeServerKeyExchange, body) \<in> set msgs \<and>
          skeSigned X (gx_Stdlib gc) suite (cs_clientRandom c' @ cs_serverRandom c') body serverParams))"
  using assms
proof (rule ClientState_Handshake_Inr)
  fix msgs random sh suite leaf serverParams cke sp rp sig cvd svd
  assume neg: "negotiated X params msgs random sh suite leaf serverParams"
    and k: "keyed X suite leaf serverParams random (sh_Random sh) cke (cs_masterSecret c') sp rp"
    and t: "cs_transcript c' = writes (envelopes (msgs @ clientMessages c' cke sig @ [(TypeFinished, cvd), (TypeFinished, svd)])) NewTranscript"
    and st: "cs_suite c' = Some suite" "cs_clientRandom c' = random" "cs_serverRandom c' = sh_Random sh"
  from neg obtain shBody certBody certMsg gc chains ms fl r where
    m: "msgs = [(TypeClientHello, Marshal (MClientHello (clientHelloOf params random))), (TypeServerHello, shBody), (TypeCertificate, certBody)] @ ms"
    and ct: "parseBody TypeCertificate certBody = Inr (MCertificate certMsg)" "cert_RawCerts certMsg \<noteq> []"
      "x509gost_ParseCertificate X (hd (cert_RawCerts certMsg)) = Inr gc" "leaf = gx_Stdlib gc"
      "chainAccepted X params gc (cert_RawCerts certMsg) chains"
      "\<forall>f. p_VerifyPeerCertificate params = Some f \<longrightarrow> f (cert_RawCerts certMsg) chains = Inr ()"
    and fl: "server_flight X leaf suite (random @ sh_Random sh) flightStart None ms fl r" "serverParams = fl_params fl"
      "fl_sawSKE fl \<longleftrightarrow> s_KX suite \<in> {KexDHE, KexECDHE}"
    unfolding negotiated_def by blast
  have ske: "s_KX suite \<in> {KexDHE, KexECDHE} \<longrightarrow>
      (\<exists>body. (TypeServerKeyExchange, body) \<in> set ms \<and> skeSigned X leaf suite (random @ sh_Random sh) body serverParams)"
    using server_flight_SKE [OF fl(1)] fl(2,3) by auto
  have "certMsg = \<lparr>cert_RawCerts = cert_RawCerts certMsg\<rparr>" by simp
  with ct k t st ske m show ?thesis
    by (intro exI [of _ "msgs @ clientMessages c' cke sig @ [(TypeFinished, cvd), (TypeFinished, svd)]"] exI [of _ certBody]
        exI [of _ "cert_RawCerts certMsg"] exI [of _ gc] exI [of _ chains] exI [of _ suite] exI [of _ serverParams]
        exI [of _ cke] exI [of _ sp] exI [of _ rp]) auto
qed

text \<open>C9 (safety).  The negotiated parameters are ones the client offered: the suite is one of the 32
  registered ones and its number is in the ClientHello and in the ServerHello; version 1.2, null
  compression, no extended master secret and no extension the client did not offer; both randoms are
  32 bytes.\<close>

theorem handshake_negotiates_offer:
  assumes "ClientState_Handshake X (NewClientState layer params) = (Inr (), c')"
  shows "\<exists>suite shBody sh msgs. cs_suite c' = Some suite \<and> suite \<in> set allSuites \<and>
    s_ID suite \<in> set (p_OfferedSuites params) \<and> s_ID suite = sh_CipherSuite sh \<and>
    cs_transcript c' = writes (envelopes msgs) NewTranscript \<and> 1 < length msgs \<and>
    msgs ! 0 = (TypeClientHello, ClientHello_Marshal (clientHelloOf params (cs_clientRandom c'))) \<and>
    msgs ! 1 = (TypeServerHello, shBody) \<and> parseBody TypeServerHello shBody = Inr (MServerHello sh) \<and>
    sh_Version sh = 0x0303 \<and> sh_CompressionMethod sh = 0 \<and> \<not> sh_ExtendedMasterSecret sh \<and>
    set (sh_ExtensionTypes sh) \<subseteq> set (offeredExt params) \<and> cs_serverRandom c' = sh_Random sh \<and>
    length (cs_clientRandom c') = 32 \<and> length (cs_serverRandom c') = 32"
  using assms
proof (rule ClientState_Handshake_Inr)
  fix msgs random sh suite leaf serverParams cke sp rp sig cvd svd
  assume neg: "negotiated X params msgs random sh suite leaf serverParams"
    and t: "cs_transcript c' = writes (envelopes (msgs @ clientMessages c' cke sig @ [(TypeFinished, cvd), (TypeFinished, svd)])) NewTranscript"
    and st: "cs_suite c' = Some suite" "cs_clientRandom c' = random" "cs_serverRandom c' = sh_Random sh"
  from neg obtain shBody certBody ms where
    m: "msgs = [(TypeClientHello, Marshal (MClientHello (clientHelloOf params random))), (TypeServerHello, shBody), (TypeCertificate, certBody)] @ ms"
    and h: "length random = 32" "parseBody TypeServerHello shBody = Inr (MServerHello sh)" "sh_Version sh = tlsVersion12"
      "sh_CipherSuite sh \<in> set (p_OfferedSuites params)" "Lookup globalRegistry (sh_CipherSuite sh) = Some suite"
      "sh_CompressionMethod sh = 0" "\<not> sh_ExtendedMasterSecret sh" "set (sh_ExtensionTypes sh) \<subseteq> set (offeredExt params)"
    unfolding negotiated_def by blast
  have l: "suite \<in> set allSuites" "s_ID suite = sh_CipherSuite sh" using Lookup_globalRegistry [OF h(5)] by simp_all
  have "length (sh_Random sh) = 32" using parseBody_ServerHello_random [OF h(2)] .
  with h l t st m show ?thesis
    by (intro exI [of _ suite] exI [of _ shBody] exI [of _ sh]
        exI [of _ "msgs @ clientMessages c' cke sig @ [(TypeFinished, cvd), (TypeFinished, svd)]"]) (simp add: tlsVersion12_def)
qed

text \<open>C3 (safety).  Both Finished messages are checked: the last two messages of the transcript are Finished
  messages, the client's carrying the verify data of the master secret over everything before it
  and the server's, which was received, the verify data over everything including the client's.  The
  completion flag is set and no handshake byte is left over.\<close>

theorem handshake_finished_verified:
  assumes "ClientState_Handshake X (NewClientState layer params) = (Inr (), c')"
  shows "\<exists>msgs suite cvd svd. cs_suite c' = Some suite \<and>
    cs_transcript c' = writes (envelopes (msgs @ [(TypeFinished, cvd), (TypeFinished, svd)])) NewTranscript \<and>
    FinishedVerifyData (newHash X) suite (cs_masterSecret c') ''client finished''
      (h_Sum (newHash X (s_PRF suite)) (concat (envelopes msgs))) = Inr cvd \<and>
    FinishedVerifyData (newHash X) suite (cs_masterSecret c') ''server finished''
      (h_Sum (newHash X (s_PRF suite)) (concat (envelopes (msgs @ [(TypeFinished, cvd)])))) = Inr svd \<and>
    cs_done c' \<and> cs_hsBuf c' = []"
  using assms
proof (rule ClientState_Handshake_Inr)
  fix msgs suite cke sig cvd svd
  assume "cs_suite c' = Some suite" "cs_done c'" "cs_hsBuf c' = []"
    and t: "cs_transcript c' = writes (envelopes (msgs @ clientMessages c' cke sig @ [(TypeFinished, cvd), (TypeFinished, svd)])) NewTranscript"
    and "finished X suite (cs_masterSecret c') (msgs @ clientMessages c' cke sig) cvd svd"
  then show ?thesis
    unfolding finished_def
    by (intro exI [of _ "msgs @ clientMessages c' cke sig"] exI [of _ suite] exI [of _ cvd] exI [of _ svd]) simp
qed

text \<open>C4 (functional).  The keys in force after the handshake are those of the negotiated secret: the
  master secret is the PRF of the premaster secret of the exchange that fits the suite, both
  protectors are built from its key block, the client's Finished is the first record sealed
  under the new send protector (so the next send sequence number is 1) and the server's Finished
  was opened under the new receive protector.\<close>

theorem handshake_keys_in_force:
  assumes "ClientState_Handshake X (NewClientState layer params) = (Inr (), c')"
  shows "\<exists>suite leaf serverParams ex s s' cke pm km sp rp cvd svd.
    cs_suite c' = Some suite \<and> exchangeFits leaf (s_KX suite) ex \<and>
    Exchange_ClientKeyExchange X ex serverParams s = (Inr (cke, pm), s') \<and>
    MasterSecret (newHash X) suite pm (cs_clientRandom c') (cs_serverRandom c') = Inr (cs_masterSecret c') \<and>
    expandKeysManual X suite (cs_masterSecret c') (cs_clientRandom c') (cs_serverRandom c') (expandKeysIVLen suite) = Inr km \<and>
    buildProtectors X suite km = Inr (sp, rp) \<and> protected X sp rp cvd svd (cs_layer c')"
  using assms
proof (rule ClientState_Handshake_Inr)
  fix sh suite leaf serverParams cke sp rp cvd svd random
  assume k: "keyed X suite leaf serverParams random (sh_Random sh) cke (cs_masterSecret c') sp rp"
    "protected X sp rp cvd svd (cs_layer c')" "cs_suite c' = Some suite"
    and st: "cs_clientRandom c' = random" "cs_serverRandom c' = sh_Random sh"
  show ?thesis using k unfolding keyed_def st by blast
qed

text \<open>C8 (invariant of the run).  The messages of a completed handshake follow RFC 5246 section 7.3: ClientHello,
  ServerHello, Certificate; a ServerKeyExchange exactly for the ephemeral suites; a
  CertificateRequest exactly when the client recorded one; ServerHelloDone; the client Certificate
  exactly when requested; ClientKeyExchange; a CertificateVerify exactly when the Certificate sent
  was not empty; and the two Finished messages.\<close>

theorem handshake_message_order:
  assumes "ClientState_Handshake X (NewClientState layer params) = (Inr (), c')"
  shows "\<exists>msgs suite. cs_transcript c' = writes (envelopes msgs) NewTranscript \<and> cs_suite c' = Some suite \<and>
    map fst msgs = [TypeClientHello, TypeServerHello, TypeCertificate]
      @ (if s_KX suite \<in> {KexDHE, KexECDHE} then [TypeServerKeyExchange] else [])
      @ (if cs_certReq c' \<noteq> None then [TypeCertificateRequest] else [])
      @ [TypeServerHelloDone]
      @ (if cs_certReq c' \<noteq> None then [TypeCertificate] else [])
      @ [TypeClientKeyExchange]
      @ (if cs_clientCertSent c' then [TypeCertificateVerify] else [])
      @ [TypeFinished, TypeFinished]"
  using assms
proof (rule ClientState_Handshake_Inr)
  fix msgs random sh suite leaf serverParams cke sig cvd svd
  assume neg: "negotiated X params msgs random sh suite leaf serverParams"
    and r: "cs_certReq c' \<noteq> None \<longleftrightarrow> TypeCertificateRequest \<in> fst ` set msgs"
    and sent: "cs_clientCertSent c' \<longleftrightarrow> cs_certReq c' \<noteq> None \<and> snd (selectClientSigAlg c')"
    and t: "cs_transcript c' = writes (envelopes (msgs @ clientMessages c' cke sig @ [(TypeFinished, cvd), (TypeFinished, svd)])) NewTranscript"
    and st: "cs_suite c' = Some suite"
  from neg obtain shBody certBody ms fl q where
    m: "msgs = [(TypeClientHello, Marshal (MClientHello (clientHelloOf params random))), (TypeServerHello, shBody), (TypeCertificate, certBody)] @ ms"
    and fl: "server_flight X leaf suite (random @ sh_Random sh) flightStart None ms fl q"
      "fl_sawSKE fl \<longleftrightarrow> s_KX suite \<in> {KexDHE, KexECDHE}"
    unfolding negotiated_def by blast
  have ske: "s_KX suite \<in> {KexDHE, KexECDHE} \<longleftrightarrow> TypeServerKeyExchange \<in> set (map fst ms)"
    using server_flight_SKE [OF fl(1)] fl(2) by simp
  have cr: "cs_certReq c' \<noteq> None \<longleftrightarrow> TypeCertificateRequest \<in> set (map fst ms)"
    using r m by (auto simp: type_defs)
  have "map fst ms = (if s_KX suite \<in> {KexDHE, KexECDHE} then [TypeServerKeyExchange] else [])
      @ (if cs_certReq c' \<noteq> None then [TypeCertificateRequest] else []) @ [TypeServerHelloDone]"
    using server_flight_order [OF fl(1)] unfolding ske cr by (auto simp: type_defs)
  then show ?thesis
    using m t st sent
    by (intro exI [of _ "msgs @ clientMessages c' cke sig @ [(TypeFinished, cvd), (TypeFinished, svd)]"] exI [of _ suite])
      (simp add: clientMessages_def)
qed

text \<open>C12 (refinement).  The receive loop of the server flight refines the abstract transition system
  \<open>server_flight\<close>: a flight it accepts is a path of that system from the start state, the
  messages are added to the transcript in order, the parameters returned and the certificate
  request recorded are those of the path, and a ServerKeyExchange was seen exactly for the
  ephemeral suites.\<close>

theorem server_flight_refines:
  assumes "recvServerFlight X cert c = (Inr params, c')" "cs_suite c = Some suite"
  shows "\<exists>ms fl r. server_flight X cert suite (cs_clientRandom c @ cs_serverRandom c) flightStart (cs_certReq c) ms fl r \<and>
    params = fl_params fl \<and> cs_certReq c' = r \<and> (fl_sawSKE fl \<longleftrightarrow> s_KX suite \<in> {KexDHE, KexECDHE}) \<and>
    cs_transcript c' = writes (envelopes ms) (cs_transcript c) \<and>
    map fst ms \<in> {[TypeServerHelloDone], [TypeCertificateRequest, TypeServerHelloDone],
      [TypeServerKeyExchange, TypeServerHelloDone], [TypeServerKeyExchange, TypeCertificateRequest, TypeServerHelloDone]}"
  using assms
proof (rule recvServerFlight_Inr)
  fix ms fl l b r
  assume a: "server_flight X cert suite (cs_clientRandom c @ cs_serverRandom c) flightStart (cs_certReq c) ms fl r"
    "params = fl_params fl" "fl_sawSKE fl \<longleftrightarrow> s_KX suite \<in> {KexDHE, KexECDHE}"
    "c' = c\<lparr>cs_layer := l, cs_hsBuf := b, cs_certReq := r, cs_transcript := writes (envelopes ms) (cs_transcript c)\<rparr>"
  then show ?thesis using server_flight_order [OF a(1)] by (intro exI [of _ ms] exI [of _ fl] exI [of _ r]) simp
qed

text \<open>C14 (error).  A handshake that fails has not set the completion flag, and unless the ClientHello
  itself could not be sent, the error is a run-time panic or the last thing done was to hand the record
  layer a fatal alert, on the transport as the run had left it: its output extends the one at the start,
  its input and the outcomes of its coming writes are what the run has not used.  On a transport that
  takes every write, an alert that can be sealed is then the last record the peer sees; in particular,
  before the keys are installed, the output ends with the alert in the clear.\<close>

theorem handshake_failure_reported:
  assumes "ClientState_Handshake X c = (Inl e, c')"
  shows "cs_done c' = cs_done c \<and>
    (sendClientHello X c = (Inl e, c') \<or> (\<exists>p. e = Panic p) \<or>
     (\<exists>desc s. advanced (cs_layer c) (cs_layer s) \<and>
        c' = snd (onLayer (WriteRecord X ContentTypeAlert (EncodeAlert AlertLevelFatal desc)) s) \<and>
        (n_plan (l_rw (cs_layer c)) = [] \<longrightarrow>
           (\<forall>frag p rnd. l_sendSeq (cs_layer s) \<noteq> - 1 \<and>
              Protector_Seal X (l_sendProt (cs_layer s)) (n_rand (l_rw (cs_layer s))) (l_sendSeq (cs_layer s))
                [ContentTypeAlert, 3, 3, 0, 0] (EncodeAlert AlertLevelFatal desc) = (Inr frag, p, rnd) \<longrightarrow>
              (\<exists>out. n_out (l_rw (cs_layer c')) = n_out (l_rw (cs_layer c)) @ out @ record_bytes ContentTypeAlert frag)) \<and>
           (l_sendProt (cs_layer c') = NullProtector \<and> l_sendSeq (cs_layer c') \<noteq> - 1 \<longrightarrow>
              (\<exists>out. n_out (l_rw (cs_layer c')) = n_out (l_rw (cs_layer c)) @ out @ [21, 3, 3, 0, 2, 2, desc])))))"
proof -
  from ClientState_Handshake_Inl [OF assms]
  consider "sendClientHello X c = (Inl e, c')" | p where "e = Panic p"
    | desc s where "advanced (cs_layer c) (cs_layer s)"
        "c' = snd (onLayer (WriteRecord X ContentTypeAlert (EncodeAlert AlertLevelFatal desc)) s)"
    unfolding reported_def by blast
  then show ?thesis
  proof cases
    case (3 desc s)
    note wire = alert_on_wire [OF 3]
    show ?thesis using ClientState_Handshake_Inl [OF assms] 3 wire by blast
  qed (use ClientState_Handshake_Inl [OF assms] in blast)+
qed

text \<open>C15 (functional).  Reassembly does not depend on fragmentation: when a peer in step with the client
  writes any cut of a sequence of handshake messages into non-empty handshake records, the client reads
  back exactly that sequence, its buffer is empty again, the two ends stay in step and the following
  input is untouched.\<close>

theorem handshake_reassembly:
  assumes "in_sync X s (cs_layer c)" "WriteRecords X (map (Pair ContentTypeHandshake) frags) s = (Inr (), s')"
    "n_out (l_rw s') = n_out (l_rw s) @ wire" "r_data (n_in (l_rw (cs_layer c))) = wire @ rest"
    "concat frags = concat (envelopes ms)" "[] \<notin> set frags" "cs_hsBuf c = []"
    "list_all (\<lambda>(t, body). length body \<le> 262144) ms"
  shows "\<exists>c'. readHandshakeRecords X (length ms) c = (Inr ms, c') \<and> cs_hsBuf c' = [] \<and>
    in_sync X s' (cs_layer c') \<and> r_data (n_in (l_rw (cs_layer c'))) = rest"
  using readHandshakeRecords_fragments [OF assms(1-4), of ms] assms(5-8)
  by (auto simp: list_all_iff maxHandshakeMsg_def)

section \<open>Witnesses\<close>

theorem handshake_authenticates_server_witness:
  "\<exists>c' msgs raw gc chains. ClientState_Handshake exampleEnv exampleClient = (Inr (), c') \<and>
     cs_transcript c' = writes (envelopes msgs) NewTranscript \<and> raw \<noteq> [] \<and>
     x509gost_ParseCertificate exampleEnv (hd raw) = Inr gc \<and> chainAccepted exampleEnv exampleParams gc raw chains"
proof -
  obtain c' where c': "ClientState_Handshake exampleEnv exampleClient = (Inr (), c')" using exampleHandshake by blast
  from handshake_authenticates_server [OF c'] c' show ?thesis by blast
qed

theorem handshake_negotiates_offer_witness:
  "\<exists>c' suite. ClientState_Handshake exampleEnv exampleClient = (Inr (), c') \<and> cs_suite c' = Some suite \<and>
     s_ID suite = suiteRSAAES128GCMSHA256 \<and> length (cs_serverRandom c') = 32"
proof -
  obtain c' where c': "ClientState_Handshake exampleEnv exampleClient = (Inr (), c')" using exampleHandshake by blast
  have "p_OfferedSuites exampleParams = [suiteRSAAES128GCMSHA256]" by (simp add: exampleParams_def)
  with handshake_negotiates_offer [OF c'] c' show ?thesis by auto
qed

theorem handshake_finished_verified_witness:
  "\<exists>c' msgs cvd svd. ClientState_Handshake exampleEnv exampleClient = (Inr (), c') \<and>
     cs_transcript c' = writes (envelopes (msgs @ [(TypeFinished, cvd), (TypeFinished, svd)])) NewTranscript \<and> cs_done c'"
proof -
  obtain c' where c': "ClientState_Handshake exampleEnv exampleClient = (Inr (), c')" using exampleHandshake by blast
  from handshake_finished_verified [OF c'] c' show ?thesis by blast
qed

theorem handshake_keys_in_force_witness:
  "\<exists>c' sp rp cvd svd. ClientState_Handshake exampleEnv exampleClient = (Inr (), c') \<and>
     protected exampleEnv sp rp cvd svd (cs_layer c')"
proof -
  obtain c' where c': "ClientState_Handshake exampleEnv exampleClient = (Inr (), c')" using exampleHandshake by blast
  from handshake_keys_in_force [OF c'] c' show ?thesis by blast
qed

theorem handshake_message_order_witness:
  "\<exists>c' msgs. ClientState_Handshake exampleEnv exampleClient = (Inr (), c') \<and>
     cs_transcript c' = writes (envelopes msgs) NewTranscript \<and>
     take 3 (map fst msgs) = [TypeClientHello, TypeServerHello, TypeCertificate]"
proof -
  obtain c' where c': "ClientState_Handshake exampleEnv exampleClient = (Inr (), c')" using exampleHandshake by blast
  from handshake_message_order [OF c'] obtain msgs where "cs_transcript c' = writes (envelopes msgs) NewTranscript"
    "take 3 (map fst msgs) = [TypeClientHello, TypeServerHello, TypeCertificate]"
    by (elim exE conjE) (simp del: take_map)
  with c' show ?thesis by blast
qed

theorem server_flight_refines_witness:
  "\<exists>c' ms fl r. recvServerFlight exampleEnv (Some exampleLeaf) exampleFlightClient = (Inr [3, 0, 0x1D, 1, 5], c') \<and>
     server_flight exampleEnv (Some exampleLeaf) exampleECDHESuite (replicate 64 0) flightStart None ms fl r \<and> fl_sawSKE fl"
proof -
  obtain c' where c': "recvServerFlight exampleEnv (Some exampleLeaf) exampleFlightClient = (Inr [3, 0, 0x1D, 1, 5], c')"
    using exampleFlight by blast
  have "cs_suite exampleFlightClient = Some exampleECDHESuite" "cs_certReq exampleFlightClient = None"
    "cs_clientRandom exampleFlightClient @ cs_serverRandom exampleFlightClient = replicate 64 0"
    "s_KX exampleECDHESuite = KexECDHE"
    by (simp_all add: exampleFlightClient_def NewClientState_def exampleECDHESuite_def replicate_add [symmetric])
  with server_flight_refines [OF c' this(1)] c' show ?thesis by auto
qed

theorem handshake_failure_reported_witness:
  "\<exists>c' out desc. ClientState_Handshake exampleEnv (NewClientState exampleDeadLayer exampleParams) = (Inl EOF, c') \<and> \<not> cs_done c' \<and>
     n_out (l_rw (cs_layer c')) = out @ [21, 3, 3, 0, 2, 2, desc]"
proof -
  let ?c = "NewClientState exampleDeadLayer exampleParams"
  obtain c1 c' where c: "sendClientHello exampleEnv ?c = (Inr (), c1)" "ClientState_Handshake exampleEnv ?c = (Inl EOF, c')"
    "l_sendProt (cs_layer c') = NullProtector" "l_sendSeq (cs_layer c') = 2"
    using exampleDeadHandshake by blast
  have n: "\<not> cs_done ?c" "n_plan (l_rw (cs_layer ?c)) = []" "n_out (l_rw (cs_layer ?c)) = []"
    by (simp_all add: NewClientState_def exampleDeadLayer_def NewLayer_def NewLayerWithSeq_def exampleNet_def)
  from handshake_failure_reported [OF c(2)] obtain desc out where
    "\<not> cs_done c'" "n_out (l_rw (cs_layer c')) = n_out (l_rw (cs_layer ?c)) @ out @ [21, 3, 3, 0, 2, 2, desc]"
    using c n by auto
  with c(2) n(3) show ?thesis by auto
qed

theorem handshake_reassembly_witness:
  "\<exists>c'. readHandshakeRecords exampleEnv 1
      (NewClientState (NewLayer (exampleNet (record_bytes ContentTypeHandshake [14, 0] @ record_bytes ContentTypeHandshake [0, 0] @ [9]))) exampleParams) =
    (Inr [(TypeServerHelloDone, [])], c')"
proof -
  let ?s = "NewLayer (exampleNet [])"
  let ?wire = "record_bytes ContentTypeHandshake [14, 0] @ record_bytes ContentTypeHandshake [0, 0]"
  let ?c = "NewClientState (NewLayer (exampleNet (?wire @ [9]))) exampleParams"
  have y: "in_sync exampleEnv ?s (cs_layer ?c)"
    by (simp add: in_sync_def NewClientState_def NewLayer_def NewLayerWithSeq_def)
  obtain s' where w: "WriteRecords exampleEnv (map (Pair ContentTypeHandshake) [[14, 0], [0, 0]]) ?s = (Inr (), s')"
    "n_out (l_rw s') = n_out (l_rw ?s) @ ?wire"
    by (simp add: WriteRecord_def layer_Seal_def nullProtector_Seal_def layer_Write_def net_Write_def isKnownContentType_def
        record_const_defs record_bytes_def NewLayer_def NewLayerWithSeq_def exampleNet_def bindS_def modifyS_def Let_def)
  have "concat [[14, 0], [0, 0]] = concat (envelopes [(TypeServerHelloDone, [])])"
    by (simp add: buildEnvelope_def put24_def type_defs)
  with handshake_reassembly [OF y w, of "[9]" "[(TypeServerHelloDone, [])]"]
  show ?thesis by (simp add: NewClientState_def NewLayer_def NewLayerWithSeq_def exampleNet_def) blast
qed

end
