(* ===== verification/Config.thy ===== *)
theory Config
  imports ClientState
begin

text \<open>
  \<open>config.go\<close>: the client configuration and the functions that turn it into handshake
  parameters.  A Go pointer, slice or function that the code compares with \<open>nil\<close> is an
  option.  The PEM decoder and the certificate parser behind \<open>AppendCertsFromPEM\<close> are the
  fields of the record \<open>pemlib\<close>; the law \<open>pem_ok\<close> states that a decoded block is
  consumed.  The index of the offending entry that the error texts mention is not part of the error
  value.
\<close>

section \<open>The PEM library\<close>

record pemlib =
  x509_CertsFromPEM :: "bytes \<Rightarrow> x509Cert list"  \<comment> \<open>the certificates \<open>AppendCertsFromPEM\<close> appends\<close>
  pem_Decode :: "bytes \<Rightarrow> (string \<times> bytes) option"  \<comment> \<open>type of the next block and the rest of the input\<close>

definition pem_ok :: "pemlib \<Rightarrow> bool" where
  "pem_ok P \<longleftrightarrow> (\<forall>data t rest. pem_Decode P data = Some (t, rest) \<longrightarrow> length rest < length data)"

section \<open>The configuration\<close>

record CfgCertificate =
  cfc_Certificate :: "x509Cert option"
  cfc_RawCertificate :: bytes
  cfc_PrivateKey :: PrivateKey

record Config =
  cfg_RootCAs :: "x509Cert list option"
  cfg_RootCAPEMs :: "bytes list"
  cfg_GOSTRoots :: "x509gostCert list option"
  cfg_GOSTIntermediates :: "x509gostCert list option"
  cfg_Certificates :: "CfgCertificate list"
  cfg_ServerName :: bytes
  cfg_CipherSuites :: "u16 list option"
  cfg_InsecureSkipVerify :: bool
  cfg_VerifyPeerCertificate :: "(bytes list \<Rightarrow> chains \<Rightarrow> unit res) option"
  cfg_Rand :: "reader option"

text \<open>The zero value of the struct.\<close>

definition zeroConfig :: Config where
  "zeroConfig = \<lparr>cfg_RootCAs = None, cfg_RootCAPEMs = [], cfg_GOSTRoots = None, cfg_GOSTIntermediates = None,
     cfg_Certificates = [], cfg_ServerName = [], cfg_CipherSuites = None, cfg_InsecureSkipVerify = False,
     cfg_VerifyPeerCertificate = None, cfg_Rand = None\<rparr>"

text \<open>\<open>None\<close> stands for \<open>crypto/rand.Reader\<close>, as in the handshake parameters.\<close>

definition Config_rand :: "Config option \<Rightarrow> reader option" where
  "Config_rand c = (case c of None \<Rightarrow> None | Some cfg \<Rightarrow> cfg_Rand cfg)"

definition gostCertsParam :: "x509gostCert list option \<Rightarrow> anyCerts" where
  "gostCertsParam certs = (case certs of None \<Rightarrow> AnyNil | Some cs \<Rightarrow> AnyGOSTCerts cs)"

text \<open>The scan for a CERTIFICATE block in an element that yielded no certificate.  The first argument
  is fuel; an element of \<open>n\<close> bytes holds at most \<open>n\<close> blocks.\<close>

fun hasCertBlock :: "pemlib \<Rightarrow> nat \<Rightarrow> bytes \<Rightarrow> bool" where
  "hasCertBlock P 0 rest = False"
| "hasCertBlock P (Suc n) rest =
     (case pem_Decode P rest of
        None \<Rightarrow> False
      | Some (t, rest) \<Rightarrow> if t = ''CERTIFICATE'' then True else hasCertBlock P n rest)"

text \<open>The loop over \<open>RootCAPEMs\<close>, with the pool built so far.\<close>

fun appendRootPEMs :: "pemlib \<Rightarrow> x509Cert list \<Rightarrow> bytes list \<Rightarrow> x509Cert list res" where
  "appendRootPEMs P pool [] = Inr pool"
| "appendRootPEMs P pool (block # blocks) =
     (if x509_CertsFromPEM P block = [] then
        if hasCertBlock P (Suc (length block)) block then Inl (Sentinel ''errRootCAPEMParseFailed'')
        else Inl (Sentinel ''errRootCAPEMNoCerts'')
      else appendRootPEMs P (pool @ x509_CertsFromPEM P block) blocks)"

definition rootCAPool :: "pemlib \<Rightarrow> Config option \<Rightarrow> x509Cert list option res" where
  "rootCAPool P c =
     (case c of
        None \<Rightarrow> Inr None
      | Some cfg \<Rightarrow>
          if cfg_RootCAs cfg \<noteq> None \<and> length (cfg_RootCAPEMs cfg) > 0 then Inl (Sentinel ''errRootCAsMutuallyExclusive'')
          else if cfg_RootCAs cfg \<noteq> None then Inr (cfg_RootCAs cfg)
          else if length (cfg_RootCAPEMs cfg) = 0 then Inr None
          else bindR (appendRootPEMs P [] (cfg_RootCAPEMs cfg)) (\<lambda>pool. Inr (Some pool)))"

text \<open>One iteration of \<open>clientCerts\<close>.\<close>

definition clientCert :: "('x) ccrypto_scheme \<Rightarrow> CfgCertificate \<Rightarrow> ClientCertificate res" where
  "clientCert X cert =
     (if cfc_PrivateKey cert = PrivOther then Inl (Sentinel ''errCertUnsupportedKeyType'')
      else if length (cfc_RawCertificate cert) = 0 then Inl (Sentinel ''errCertEmptyRaw'')
      else
        bindR (case cfc_Certificate cert of
                 None \<Rightarrow> bindR (x509_ParseCertificate X (cfc_RawCertificate cert)) (\<lambda>parsed. Inr (Some parsed))
               | Some crt \<Rightarrow> Inr (Some crt)) (\<lambda>parsed.
        Inr \<lparr>cc_RawCertificate = cfc_RawCertificate cert, cc_PrivateKey = cfc_PrivateKey cert, cc_Certificate = parsed\<rparr>))"

fun clientCerts_loop :: "('x) ccrypto_scheme \<Rightarrow> CfgCertificate list \<Rightarrow> ClientCertificate list res" where
  "clientCerts_loop X [] = Inr []"
| "clientCerts_loop X (cert # certs) =
     bindR (clientCert X cert) (\<lambda>c. bindR (clientCerts_loop X certs) (\<lambda>cs. Inr (c # cs)))"

definition clientCerts :: "('x) ccrypto_scheme \<Rightarrow> Config \<Rightarrow> ClientCertificate list res" where
  "clientCerts X cfg =
     (if length (cfg_Certificates cfg) = 0 then Inr [] else clientCerts_loop X (cfg_Certificates cfg))"

section \<open>What the configuration functions guarantee\<close>

text \<open>The fuel of the scan is enough.\<close>

lemma hasCertBlock_fuel:
  assumes "pem_ok P" "length data < n" "length data < m"
  shows "hasCertBlock P n data = hasCertBlock P m data"
  using assms(2,3)
proof (induction n arbitrary: data m)
  case (Suc n)
  then obtain k where m: "m = Suc k" by (cases m) auto
  show ?case
  proof (cases "pem_Decode P data")
    case (Some r)
    obtain t rest where r: "r = (t, rest)" by (cases r)
    then have "length rest < length data" using Some assms(1) unfolding pem_ok_def by blast
    then show ?thesis using Some r m Suc.IH [of rest k] Suc.prems by simp
  qed (simp add: m)
qed simp

lemma appendRootPEMs_Inr:
  "appendRootPEMs P pool blocks = Inr roots \<Longrightarrow>
     roots = pool @ concat (map (x509_CertsFromPEM P) blocks) \<and> (\<forall>b \<in> set blocks. x509_CertsFromPEM P b \<noteq> [])"
  by (induction blocks arbitrary: pool) (fastforce split: if_splits)+

lemma rootCAPool_Inr:
  assumes "rootCAPool P (Some cfg) = Inr pool"
  shows "pool = (if cfg_RootCAs cfg \<noteq> None then cfg_RootCAs cfg
                 else if cfg_RootCAPEMs cfg = [] then None
                 else Some (concat (map (x509_CertsFromPEM P) (cfg_RootCAPEMs cfg))))"
  using assms
  by (auto simp: rootCAPool_def bindR_eq_Inr dest: appendRootPEMs_Inr split: if_splits)

lemma clientCerts_loop_Inr:
  assumes "clientCerts_loop X certs = Inr cs"
  shows "list_all2 (\<lambda>cert c. cc_RawCertificate c = cfc_RawCertificate cert \<and> cc_PrivateKey c = cfc_PrivateKey cert) certs cs \<and>
    (\<forall>c \<in> set cs. cc_RawCertificate c \<noteq> [] \<and> cc_PrivateKey c \<noteq> PrivOther)"
  using assms
  by (induction certs arbitrary: cs) (auto simp: bindR_eq_Inr clientCert_def split: if_splits)

end
