(* ===== verification/Conn.thy ===== *)
theory Conn
  imports Handshake Config
begin

text \<open>
  \<open>conn.go\<close>, \<open>dialer.go\<close> and \<open>dialer_default.go\<close>: the connection a user of the
  package holds.  Each method is one atomic step on the record \<open>Conn\<close>: the mutexes and the
  \<open>sync.Once\<close> of the source serialise the methods, and \<open>TryLock\<close> in \<open>Close\<close> is an
  argument that says whether a concurrent \<open>Write\<close> holds the mutex; theory \<open>ConnThreads\<close>
  cuts the methods at these points and treats the interleavings.  Deadlines change nothing in
  the model but the errors the transport reports.  A panic unwinds through the method: it is the
  error \<open>Panic\<close>, and the assignments after the panicking call are not made.
\<close>

section \<open>The connection\<close>

definition alertMinLen :: nat where "alertMinLen = 2"
definition maxEmptyRecords :: nat where "maxEmptyRecords = 32"
definition maxChunk :: nat where "maxChunk = 2 ^ 14"

text \<open>\<open>cn_once\<close> is the state of \<open>handshakeOnce\<close>, \<open>cn_closes\<close> counts the calls of the
  transport's \<open>Close\<close> and \<open>cn_closeErr\<close> is what that call returns.\<close>

record Conn =
  cn_config :: Config
  cn_layer :: Layer
  cn_once :: bool
  cn_handshakeErr :: "err option"
  cn_closed :: bool
  cn_readBuf :: bytes
  cn_readErr :: "err option"
  cn_handshakeOK :: bool
  cn_serverNameFromDial :: bytes
  cn_closes :: nat
  cn_closeErr :: "err option"

definition newConn :: "net \<Rightarrow> err option \<Rightarrow> Config option \<Rightarrow> Conn" where
  "newConn c closeErr config =
     \<lparr>cn_config = (case config of None \<Rightarrow> zeroConfig | Some cfg \<Rightarrow> cfg), cn_layer = NewLayer c,
      cn_once = False, cn_handshakeErr = None, cn_closed = False, cn_readBuf = [], cn_readErr = None,
      cn_handshakeOK = False, cn_serverNameFromDial = [], cn_closes = 0, cn_closeErr = closeErr\<rparr>"

definition NewConn :: "net \<Rightarrow> err option \<Rightarrow> Config option \<Rightarrow> Conn" where
  "NewConn c closeErr config = newConn c closeErr config"

section \<open>The handshake\<close>

text \<open>\<open>handshake.NewClientState(c.layer, params).Handshake()\<close> on the connection's layer; the configured
  random source is shared with the configuration.\<close>

definition runHandshake :: "('x) ccrypto_scheme \<Rightarrow> ClientParams \<Rightarrow> (Conn, unit) sm" where
  "runHandshake X params c =
     (case ClientState_Handshake X (NewClientState (cn_layer c) params) of
        (res, s) \<Rightarrow> (res, c\<lparr>cn_layer := cs_layer s, cn_config := (cn_config c)\<lparr>cfg_Rand := p_Rand (cs_params s)\<rparr>\<rparr>))"

definition clientParams :: "Config \<Rightarrow> bytes \<Rightarrow> u16 list \<Rightarrow> x509Cert list option \<Rightarrow> ClientCertificate list \<Rightarrow> ClientParams" where
  "clientParams cfg serverName offeredSuites rootCAs certs =
     \<lparr>p_Rand = Config_rand (Some cfg), p_ServerName = serverName, p_OfferedSuites = offeredSuites, p_RootCAs = rootCAs,
      p_InsecureSkipVerify = cfg_InsecureSkipVerify cfg, p_VerifyPeerCertificate = cfg_VerifyPeerCertificate cfg,
      p_GOSTRoots = gostCertsParam (cfg_GOSTRoots cfg), p_GOSTIntermediates = gostCertsParam (cfg_GOSTIntermediates cfg),
      p_Certificates = certs\<rparr>"

text \<open>The suites to offer and the name to verify, as \<open>doHandshake\<close> resolves them.\<close>

definition offeredSuitesOf :: "Config \<Rightarrow> u16 list" where
  "offeredSuitesOf cfg = (case cfg_CipherSuites cfg of None \<Rightarrow> AvailableSuites | Some s \<Rightarrow> s)"

definition serverNameOf :: "Config \<Rightarrow> bytes \<Rightarrow> bytes" where
  "serverNameOf cfg serverNameFromDial = (if cfg_ServerName cfg = [] then serverNameFromDial else cfg_ServerName cfg)"

definition doHandshake :: "pemlib \<Rightarrow> ('x) ccrypto_scheme \<Rightarrow> (Conn, unit) sm" where
  "doHandshake P X =
     bindS (getS (\<lambda>c. (cn_config c, cn_serverNameFromDial c))) (\<lambda>(cfg, serverNameFromDial).
     let offeredSuites = offeredSuitesOf cfg in
     if length offeredSuites = 0 then failS (Sentinel ''errNoSuites'')
     else
       bindS (liftS (rootCAPool P (Some cfg))) (\<lambda>rootCAs.
       bindS (liftS (clientCerts X cfg)) (\<lambda>certs.
       let serverName = serverNameOf cfg serverNameFromDial in
       if serverName = [] \<and> \<not> cfg_InsecureSkipVerify cfg then failS (Sentinel ''errNoServerName'')
       else runHandshake X (clientParams cfg serverName offeredSuites rootCAs certs))))"

text \<open>\<open>sync.Once\<close> counts a function that panicked as done.\<close>

definition Conn_Handshake :: "pemlib \<Rightarrow> ('x) ccrypto_scheme \<Rightarrow> (Conn, unit) sm" where
  "Conn_Handshake P X c =
     (if cn_once c then
        (case cn_handshakeErr c of None \<Rightarrow> (Inr (), c) | Some e \<Rightarrow> (Inl e, c))
      else
        let c = c\<lparr>cn_once := True\<rparr> in
        if cn_closed c then
          (Inl (Sentinel ''errConnClosed''), c\<lparr>cn_handshakeErr := Some (Sentinel ''errConnClosed'')\<rparr>)
        else
          (case doHandshake P X c of
             (Inr _, c) \<Rightarrow> (Inr (), c\<lparr>cn_handshakeOK := True\<rparr>)
           | (Inl (Panic p), c) \<Rightarrow> (Inl (Panic p), c)
           | (Inl e, c) \<Rightarrow> (Inl e, c\<lparr>cn_handshakeErr := Some e\<rparr>)))"

section \<open>Reading\<close>

text \<open>The state after an error that ends the read side.\<close>

definition failRead :: "err \<Rightarrow> Conn \<Rightarrow> bytes res \<times> Conn" where
  "failRead e c = (Inl e, c\<lparr>cn_readErr := Some e\<rparr>)"

text \<open>What is done with an alert record.\<close>

definition readAlert :: "bytes \<Rightarrow> Conn \<Rightarrow> bytes res \<times> Conn" where
  "readAlert payload c =
     (if length payload < alertMinLen then failRead (Sentinel ''errAlertTruncated'') c
      else
        (case DecodeAlert payload of
           Inl e \<Rightarrow> (Inl e, c)
         | Inr (level, desc) \<Rightarrow>
             if desc = AlertCloseNotify then failRead EOF c else failRead (Sentinel ''errAlertReceived'') c))"

text \<open>The loop of \<open>Read\<close> for a buffer of \<open>n\<close> bytes.  The result is what was copied into
  the buffer.\<close>

function Conn_Read_loop :: "('x) ccrypto_scheme \<Rightarrow> nat \<Rightarrow> nat \<Rightarrow> Conn \<Rightarrow> bytes res \<times> Conn" where
  "Conn_Read_loop X n emptyRecords c =
     (case ReadRecord X (cn_layer c) of
        (Inl (Panic p), l) \<Rightarrow> (Inl (Panic p), c\<lparr>cn_layer := l\<rparr>)
      | (Inl e, l) \<Rightarrow> failRead e (c\<lparr>cn_layer := l\<rparr>)
      | (Inr (ct, payload), l) \<Rightarrow>
          if ct = ContentTypeApplicationData then
            if length payload = 0 then
              if Suc emptyRecords > maxEmptyRecords then failRead (Sentinel ''errTooManyEmptyRecords'') (c\<lparr>cn_layer := l\<rparr>)
              else Conn_Read_loop X n (Suc emptyRecords) (c\<lparr>cn_layer := l\<rparr>)
            else
              (Inr (take n payload), c\<lparr>cn_layer := l, cn_readBuf := cn_readBuf c @ drop n payload\<rparr>)
          else if ct = ContentTypeAlert then readAlert payload (c\<lparr>cn_layer := l\<rparr>)
          else failRead (Sentinel ''errUnexpectedRecord'') (c\<lparr>cn_layer := l\<rparr>))"
  by pat_completeness auto
termination
  by (relation "measure (\<lambda>(X, n, k, c). length (r_data (n_in (l_rw (cn_layer c)))))")
    (auto dest!: ReadRecord_Inr(9) [OF sym])

declare Conn_Read_loop.simps [simp del]

definition Conn_Read :: "pemlib \<Rightarrow> ('x) ccrypto_scheme \<Rightarrow> nat \<Rightarrow> (Conn, bytes) sm" where
  "Conn_Read P X n =
     bindS (Conn_Handshake P X) (\<lambda>_ c.
       if cn_closed c then (Inl (Sentinel ''errConnClosed''), c)
       else if length (cn_readBuf c) > 0 then
         (Inr (take n (cn_readBuf c)), c\<lparr>cn_readBuf := drop n (cn_readBuf c)\<rparr>)
       else
         (case cn_readErr c of
            Some e \<Rightarrow> (Inl e, c)
          | None \<Rightarrow> Conn_Read_loop X n 0 c))"

section \<open>Writing\<close>

text \<open>The number of bytes written is returned with an error, too.\<close>

function Conn_Write_loop :: "('x) ccrypto_scheme \<Rightarrow> nat \<Rightarrow> bytes \<Rightarrow> Conn \<Rightarrow> (nat \<times> err option) \<times> Conn" where
  "Conn_Write_loop X written b c =
     (if length b > 0 then
        let chunk = (if length b > maxChunk then take maxChunk b else b) in
        case WriteRecord X ContentTypeApplicationData chunk (cn_layer c) of
          (Inl e, l) \<Rightarrow> ((written, Some e), c\<lparr>cn_layer := l\<rparr>)
        | (Inr _, l) \<Rightarrow> Conn_Write_loop X (written + length chunk) (drop (length chunk) b) (c\<lparr>cn_layer := l\<rparr>)
      else ((written, None), c))"
  by pat_completeness auto
termination
  by (relation "measure (\<lambda>(X, w, b, c). length b)") (auto simp: maxChunk_def split: if_splits)

declare Conn_Write_loop.simps [simp del]

definition Conn_Write :: "pemlib \<Rightarrow> ('x) ccrypto_scheme \<Rightarrow> bytes \<Rightarrow> Conn \<Rightarrow> (nat \<times> err option) \<times> Conn" where
  "Conn_Write P X b c =
     (case Conn_Handshake P X c of
        (Inl e, c) \<Rightarrow> ((0, Some e), c)
      | (Inr _, c) \<Rightarrow>
          if cn_closed c then ((0, Some (Sentinel ''errConnClosed'')), c)
          else Conn_Write_loop X 0 b c)"

section \<open>Closing\<close>

text \<open>The best-effort close notification; its error is ignored, a panic is not.\<close>

definition sendCloseNotify :: "('x) ccrypto_scheme \<Rightarrow> (Conn, unit) sm" where
  "sendCloseNotify X c =
     (case WriteRecord X ContentTypeAlert (EncodeAlert AlertLevelWarning AlertCloseNotify) (cn_layer c) of
        (Inl (Panic p), l) \<Rightarrow> (Inl (Panic p), c\<lparr>cn_layer := l\<rparr>)
      | (_, l) \<Rightarrow> (Inr (), c\<lparr>cn_layer := l\<rparr>))"

definition closeTransport :: "(Conn, unit) sm" where
  "closeTransport c =
     (case cn_closeErr c of
        None \<Rightarrow> (Inr (), c\<lparr>cn_closes := Suc (cn_closes c)\<rparr>)
      | Some e \<Rightarrow> (Inl e, c\<lparr>cn_closes := Suc (cn_closes c)\<rparr>))"

definition Conn_Close :: "('x) ccrypto_scheme \<Rightarrow> bool \<Rightarrow> (Conn, unit) sm" where
  "Conn_Close X outMuHeld c =
     (if cn_closed c then (Inr (), c)
      else
        bindS (\<lambda>c. if cn_handshakeOK c \<and> \<not> outMuHeld then sendCloseNotify X c else (Inr (), c))
          (\<lambda>_. closeTransport) (c\<lparr>cn_closed := True\<rparr>))"

text \<open>The state a caller could ask for; no method fills it in.\<close>

record ConnectionState =
  cst_Version :: u16
  cst_CipherSuite :: u16
  cst_Suite :: "Suite option"

section \<open>Dialling\<close>

text \<open>\<open>net.SplitHostPort\<close>, up to the choice of the error.\<close>

definition indexByte :: "bytes \<Rightarrow> byte \<Rightarrow> nat option" where
  "indexByte s b = (if b \<in> set s then Some (length (takeWhile (\<lambda>x. x \<noteq> b) s)) else None)"

definition lastIndexByte :: "bytes \<Rightarrow> byte \<Rightarrow> nat option" where
  "lastIndexByte s b = (case indexByte (rev s) b of None \<Rightarrow> None | Some i \<Rightarrow> Some (length s - 1 - i))"

definition SplitHostPort :: "bytes \<Rightarrow> (bytes \<times> bytes) option" where
  "SplitHostPort hostport =
     (case lastIndexByte hostport 58 of
        None \<Rightarrow> None
      | Some i \<Rightarrow>
          let finish = (\<lambda>host m k.
            if 91 \<in> set (drop m hostport) \<or> 93 \<in> set (drop k hostport) then None
            else Some (host, drop (i + 1) hostport)) in
          if hostport ! 0 = 91 then
            (case indexByte hostport 93 of
               None \<Rightarrow> None
             | Some j \<Rightarrow>
                 if j + 1 = length hostport then None
                 else if j + 1 = i then finish (slice 1 j hostport) 1 (j + 1)
                 else None)
          else
            let host = take i hostport in
            if 58 \<in> set host then None else finish host 0 0)"

text \<open>A context: \<open>None\<close> when \<open>ctx.Done() == nil\<close>, and otherwise what the watching goroutine sends
  when the handshake is over, \<open>ctx.Err()\<close> if it saw the context end first.\<close>

type_synonym ctx = "err option option"

definition handshakeContext :: "pemlib \<Rightarrow> ('x) ccrypto_scheme \<Rightarrow> ctx \<Rightarrow> (Conn, unit) sm" where
  "handshakeContext P X ctx c =
     (case ctx of
        None \<Rightarrow> Conn_Handshake P X c
      | Some interrupt \<Rightarrow>
          (case Conn_Handshake P X c of
             (Inl (Panic p), c) \<Rightarrow> (Inl (Panic p), c)
           | (res, c) \<Rightarrow> (case interrupt of Some ctxErr \<Rightarrow> (Inl ctxErr, c) | None \<Rightarrow> (res, c))))"

text \<open>The result of dialling the transport is an argument.  A failure carries the connection, if one
  was made, in its final state.\<close>

definition dialBackend ::
  "pemlib \<Rightarrow> ('x) ccrypto_scheme \<Rightarrow> ctx \<Rightarrow> bytes \<Rightarrow> (net \<times> err option) res \<Rightarrow> Config option \<Rightarrow> (err \<times> Conn option) + Conn" where
  "dialBackend P X ctx addr dialled cfg =
     (case dialled of
        Inl e \<Rightarrow> Inl (e, None)
      | Inr (rawConn, closeErr) \<Rightarrow>
          let tlsConn = newConn rawConn closeErr cfg;
              tlsConn = (if (case cfg of None \<Rightarrow> True | Some c \<Rightarrow> cfg_ServerName c = []) then
                           (case SplitHostPort addr of
                              Some (host, _) \<Rightarrow> tlsConn\<lparr>cn_serverNameFromDial := host\<rparr>
                            | None \<Rightarrow> tlsConn)
                         else tlsConn) in
          (case handshakeContext P X ctx tlsConn of
             (Inl (Panic p), c) \<Rightarrow> Inl (Panic p, Some c)
           | (Inl e, c) \<Rightarrow> Inl (e, Some (snd (closeTransport c)))
           | (Inr _, c) \<Rightarrow> Inr c))"

definition DialContext ::
  "pemlib \<Rightarrow> ('x) ccrypto_scheme \<Rightarrow> ctx \<Rightarrow> bytes \<Rightarrow> (net \<times> err option) res \<Rightarrow> Config option \<Rightarrow> (err \<times> Conn option) + Conn" where
  "DialContext P X ctx addr dialled config =
     dialBackend P X ctx addr dialled (Some (case config of None \<Rightarrow> zeroConfig | Some cfg \<Rightarrow> cfg))"

end
