(* ===== verification/ConnSteps.thy ===== *)
theory ConnSteps
  imports HandshakeErrors Conn
begin

text \<open>
  What the methods of a connection do: the record protection that a completed handshake installs and
  no later operation removes, runs of a connection as sequences of method calls, and the byte
  stream that \<open>Write\<close> and \<open>Read\<close> carry.
\<close>

section \<open>Protection stays in force\<close>

definition guarded :: "Layer \<Rightarrow> bool" where
  "guarded l \<longleftrightarrow> l_sendProt l \<noteq> NullProtector \<and> l_recvProt l \<noteq> NullProtector"

lemma Protector_Open_null:
  "Protector_Open X p seq hdr frag = (res, q) \<Longrightarrow> q = NullProtector \<longleftrightarrow> p = NullProtector"
  by (cases p) (auto split: prod.splits)

lemma layer_Open_null:
  "layer_Open X hdr frag l = (res, l') \<Longrightarrow> l_recvProt l' = NullProtector \<longleftrightarrow> l_recvProt l = NullProtector"
  by (auto simp: layer_Open_def dest: Protector_Open_null split: prod.splits)

lemma ReadRecord_null:
  assumes "ReadRecord X l = (res, l')"
  shows "(l_recvProt l' = NullProtector \<longleftrightarrow> l_recvProt l = NullProtector) \<and> l_sendProt l' = l_sendProt l"
proof (cases res)
  case (Inl e)
  with assms have w: "ReadRecord X l = (Inl e, l')" by simp
  then show ?thesis using ReadRecord_Inl(3) [OF w] unfolding ReadRecord_def
    by (auto simp: bindS_eq_Inl Let_def modifyS_def returnS_def failS_def split: if_splits
        dest!: layer_ReadFull_fields layer_Open_null)
next
  case (Inr r)
  with assms have w: "ReadRecord X l = (Inr (fst r, snd r), l')" by simp
  then show ?thesis using ReadRecord_Inr(6) [OF w] unfolding ReadRecord_def
    by (auto simp: bindS_eq_Inr Let_def modifyS_def returnS_def failS_def split: if_splits
        dest!: layer_ReadFull_fields layer_Open_null)
qed

lemma WriteRecord_guarded: "WriteRecord X ct payload l = (res, l') \<Longrightarrow> guarded l' = guarded l"
  unfolding guarded_def by (auto dest: WriteRecord_null)

lemma ReadRecord_guarded: "ReadRecord X l = (res, l') \<Longrightarrow> guarded l' = guarded l"
  unfolding guarded_def by (auto dest: ReadRecord_null)

lemma readHandshakeRecord_null:
  "readHandshakeRecord X c = (res, c') \<Longrightarrow>
     l_recvProt (cs_layer c') = NullProtector \<longleftrightarrow> l_recvProt (cs_layer c) = NullProtector"
proof (induction X c arbitrary: res c' rule: readHandshakeRecord.induct)
  case (1 X c)
  show ?case
  proof (cases "\<exists>x l. bufferedMessage (cs_hsBuf c) = None \<and> ReadRecord X (cs_layer c) = (Inr (ContentTypeHandshake, x), l)")
    case True
    then obtain x l where b: "bufferedMessage (cs_hsBuf c) = None" and r: "ReadRecord X (cs_layer c) = (Inr (ContentTypeHandshake, x), l)"
      by blast
    then have "readHandshakeRecord X (c\<lparr>cs_layer := l, cs_hsBuf := cs_hsBuf c @ x\<rparr>) = (res, c')"
      using "1.prems" by (subst (asm) readHandshakeRecord.simps) simp
    from "1.IH" [OF b r [symmetric] refl refl refl this] ReadRecord_null [OF r] show ?thesis by simp
  next
    case False
    then show ?thesis
      using "1.prems" by (subst (asm) readHandshakeRecord.simps)
        (auto dest: ReadRecord_null split: option.splits sum.splits prod.splits if_splits)
  qed
qed

lemma buildProtector_not_null: "buildProtector X suite encKey macKey iv = Inr p \<Longrightarrow> p \<noteq> NullProtector"
  by (auto simp: buildProtector_def buildGOSTProtector_def buildKuznyechikCTROMACProtector_def
      buildMagmaCTROMACProtector_def bindR_eq_Inr Let_def split: if_splits)

lemma buildProtectors_not_null:
  "buildProtectors X suite km = Inr (p, q) \<Longrightarrow> p \<noteq> NullProtector \<and> q \<noteq> NullProtector"
  by (auto simp: buildProtectors_def bindR_eq_Inr dest: buildProtector_not_null)

lemma Handshake_guarded:
  assumes "ClientState_Handshake X (NewClientState layer params) = (Inr (), c')"
  shows "guarded (cs_layer c')"
  using assms
proof (rule ClientState_Handshake_Inr)
  fix suite leaf serverParams random sh cke sp rp cvd svd
  assume "keyed X suite leaf serverParams random (sh_Random sh) cke (cs_masterSecret c') sp rp"
    and p: "protected X sp rp cvd svd (cs_layer c')"
  then have n: "sp \<noteq> NullProtector" "rp \<noteq> NullProtector" unfolding keyed_def by (auto dest: buildProtectors_not_null)
  from p obtain l0 l1 s l2 s' where w: "WriteRecord X ContentTypeHandshake (buildEnvelope TypeFinished cvd) (ChangeCipherSpec (Some sp) None l0) = (Inr (), l1)"
    "l_sendProt (cs_layer c') = l_sendProt l1"
    and r: "readHandshakeRecord X (s\<lparr>cs_layer := ChangeCipherSpec None (Some rp) l2, cs_hsBuf := []\<rparr>) = (Inr (TypeFinished, svd), s')"
    "cs_layer c' = cs_layer s'"
    unfolding protected_def by blast
  show ?thesis
    using WriteRecord_null [OF w(1)] w(2) readHandshakeRecord_null [OF r(1)] r(2) n
    by (simp add: guarded_def ChangeCipherSpec_def)
qed

section \<open>The methods, one by one\<close>

lemma runHandshake_eq:
  assumes "runHandshake X params c = (res, c')"
  obtains l q where "c' = c\<lparr>cn_layer := l, cn_config := (cn_config c)\<lparr>cfg_Rand := q\<rparr>\<rparr>"
    "res = Inr () \<longrightarrow> guarded l"
proof -
  obtain r s where h: "ClientState_Handshake X (NewClientState (cn_layer c) params) = (r, s)" by fastforce
  with assms have c': "r = res" "c' = c\<lparr>cn_layer := cs_layer s, cn_config := (cn_config c)\<lparr>cfg_Rand := p_Rand (cs_params s)\<rparr>\<rparr>"
    by (simp_all add: runHandshake_def)
  have "res = Inr () \<longrightarrow> guarded (cs_layer s)" using Handshake_guarded h c'(1) by blast
  with c'(2) show thesis by (rule that)
qed

lemma doHandshake_eq:
  assumes "doHandshake P X c = (res, c')"
  obtains l q where "c' = c\<lparr>cn_layer := l, cn_config := (cn_config c)\<lparr>cfg_Rand := q\<rparr>\<rparr>"
    "res = Inr () \<longrightarrow> guarded l"
proof -
  have "(\<exists>e. res = Inl e \<and> c' = c) \<or> (\<exists>params. runHandshake X params c = (res, c'))"
    using assms unfolding doHandshake_def
    by (cases res) (auto simp: bindS_eq_Inr bindS_eq_Inl Let_def split: if_splits)
  then show thesis
  proof
    assume "\<exists>e. res = Inl e \<and> c' = c"
    then show thesis by (intro that [where l = "cn_layer c" and q = "cfg_Rand (cn_config c)"]) auto
  next
    assume "\<exists>params. runHandshake X params c = (res, c')"
    then show thesis by (auto elim: runHandshake_eq intro: that)
  qed
qed

definition panicked :: "err \<Rightarrow> bool" where
  "panicked e \<longleftrightarrow> (case e of Panic _ \<Rightarrow> True | _ \<Rightarrow> False)"

lemma panicked_simps [simp]: "panicked (Panic p)" "\<not> panicked (Sentinel s)" "\<not> panicked EOF"
  by (simp_all add: panicked_def)

text \<open>The first call decides; later calls repeat its answer.\<close>

lemma Conn_Handshake_cases:
  assumes "Conn_Handshake P X c = (res, c')"
  obtains (again) "cn_once c" "c' = c" "res = (case cn_handshakeErr c of None \<Rightarrow> Inr () | Some e \<Rightarrow> Inl e)"
  | (closed) "\<not> cn_once c" "cn_closed c" "res = Inl (Sentinel ''errConnClosed'')"
      "c' = c\<lparr>cn_once := True, cn_handshakeErr := Some (Sentinel ''errConnClosed'')\<rparr>"
  | (succeeds) l q where "\<not> cn_once c" "\<not> cn_closed c" "res = Inr ()" "guarded l"
      "doHandshake P X (c\<lparr>cn_once := True\<rparr>) = (Inr (), c\<lparr>cn_once := True, cn_layer := l, cn_config := (cn_config c)\<lparr>cfg_Rand := q\<rparr>\<rparr>)"
      "c' = c\<lparr>cn_once := True, cn_layer := l, cn_config := (cn_config c)\<lparr>cfg_Rand := q\<rparr>, cn_handshakeOK := True\<rparr>"
  | (panics) l q p where "\<not> cn_once c" "\<not> cn_closed c" "res = Inl (Panic p)"
      "c' = c\<lparr>cn_once := True, cn_layer := l, cn_config := (cn_config c)\<lparr>cfg_Rand := q\<rparr>\<rparr>"
  | (fails) l q e where "\<not> cn_once c" "\<not> cn_closed c" "res = Inl e" "\<not> panicked e"
      "c' = c\<lparr>cn_once := True, cn_layer := l, cn_config := (cn_config c)\<lparr>cfg_Rand := q\<rparr>, cn_handshakeErr := Some e\<rparr>"
proof (cases "cn_once c \<or> cn_closed c")
  case True
  show thesis
  proof (cases "cn_once c")
    case True
    then show thesis using assms by (intro again) (auto simp: Conn_Handshake_def split: option.splits)
  next
    case False
    then show thesis using assms True by (intro closed) (auto simp: Conn_Handshake_def Let_def)
  qed
next
  case False
  obtain r c1 where d: "doHandshake P X (c\<lparr>cn_once := True\<rparr>) = (r, c1)" by fastforce
  obtain l q where c1: "c1 = c\<lparr>cn_once := True, cn_layer := l, cn_config := (cn_config c)\<lparr>cfg_Rand := q\<rparr>\<rparr>"
    and g: "r = Inr () \<longrightarrow> guarded l"
    using d by (auto elim: doHandshake_eq)
  from False have n: "\<not> cn_once c" "\<not> cn_closed c" by simp_all
  show thesis
  proof (cases r)
    case (Inl e)
    show thesis
    proof (cases "panicked e")
      case True
      then obtain p where "e = Panic p" by (cases e) (simp_all add: panicked_def)
      then have "res = Inl (Panic p)" "c' = c1" using assms d Inl n by (simp_all add: Conn_Handshake_def)
      then show thesis using panics [OF n] c1 by simp
    next
      case False
      then have "Conn_Handshake P X c = (Inl e, c1\<lparr>cn_handshakeErr := Some e\<rparr>)"
        using d Inl n by (cases e) (simp_all add: Conn_Handshake_def)
      then have "res = Inl e" "c' = c1\<lparr>cn_handshakeErr := Some e\<rparr>" using assms by simp_all
      then show thesis using fails [OF n _ False] c1 by simp
    qed
  next
    case (Inr u)
    then have d': "doHandshake P X (c\<lparr>cn_once := True\<rparr>) = (Inr (), c1)" using d by simp
    then have "Conn_Handshake P X c = (Inr (), c1\<lparr>cn_handshakeOK := True\<rparr>)" using n by (simp add: Conn_Handshake_def Let_def)
    then have "res = Inr ()" "c' = c1\<lparr>cn_handshakeOK := True\<rparr>" using assms by simp_all
    moreover have "guarded l" using g Inr by simp
    ultimately show thesis using succeeds [OF n _ _ d' [unfolded c1]] c1 by simp
  qed
qed

text \<open>The read loop changes the layer, the buffer and the sticky error; what it buffers is less than a
  record.\<close>

definition readOutcome :: "nat \<Rightarrow> Conn \<Rightarrow> bytes res \<Rightarrow> Conn \<Rightarrow> bool" where
  "readOutcome n c res c' \<longleftrightarrow>
     (\<exists>l. guarded l = guarded (cn_layer c) \<and> n_out (l_rw l) = n_out (l_rw (cn_layer c)) \<and>
        ((\<exists>payload. res = Inr (take n payload) \<and> 0 < length payload \<and> length payload \<le> 16384 \<and>
            c' = c\<lparr>cn_layer := l, cn_readBuf := cn_readBuf c @ drop n payload\<rparr>) \<or>
         (\<exists>e. res = Inl e \<and> c' = (if panicked e then c\<lparr>cn_layer := l\<rparr> else c\<lparr>cn_layer := l, cn_readErr := Some e\<rparr>))))"

lemma readOutcome_Inl:
  assumes "guarded l = guarded (cn_layer c)" "n_out (l_rw l) = n_out (l_rw (cn_layer c))"
    "c' = (if panicked e then c\<lparr>cn_layer := l\<rparr> else c\<lparr>cn_layer := l, cn_readErr := Some e\<rparr>)"
  shows "readOutcome n c (Inl e) c'"
  unfolding readOutcome_def using assms by (intro exI [of _ l]) simp

lemma readOutcome_layer:
  assumes "readOutcome n (c\<lparr>cn_layer := l\<rparr>) res c'" "guarded l = guarded (cn_layer c)" "n_out (l_rw l) = n_out (l_rw (cn_layer c))"
  shows "readOutcome n c res c'"
  using assms unfolding readOutcome_def by (simp cong: if_cong)

lemma readAlert_eq:
  "\<exists>e. readAlert payload c = (Inl e, c\<lparr>cn_readErr := Some e\<rparr>) \<and> \<not> panicked e"
  by (auto simp: readAlert_def failRead_def DecodeAlert_def alertMinLen_def panicked_def)

lemma Conn_Read_loop_eq:
  "Conn_Read_loop X n k c = (res, c') \<Longrightarrow> readOutcome n c res c'"
proof (induction X n k c rule: Conn_Read_loop.induct)
  case (1 X n k c)
  obtain r l where rd: "ReadRecord X (cn_layer c) = (r, l)" by fastforce
  have g: "guarded l = guarded (cn_layer c)" by (rule ReadRecord_guarded [OF rd])
  note unroll = Conn_Read_loop.simps [of X n k c, unfolded rd] and inl = readOutcome_Inl [OF g]
  show ?case
  proof (cases r)
    case (Inl e)
    then have "Conn_Read_loop X n k c = (Inl e, if panicked e then c\<lparr>cn_layer := l\<rparr> else c\<lparr>cn_layer := l, cn_readErr := Some e\<rparr>)"
      using unroll by (cases e) (simp_all add: failRead_def panicked_def)
    then show ?thesis using "1.prems" inl [OF ReadRecord_Inl(4) [OF rd [unfolded Inl]], of c' e n] by simp
  next
    case (Inr v)
    obtain ct payload where v: "v = (ct, payload)" by (cases v)
    note rr = ReadRecord_Inr [OF rd [unfolded Inr v]]
    note inl = inl [OF rr(7), of c' _ n]
    show ?thesis
    proof (cases "ct = ContentTypeApplicationData \<and> payload = [] \<and> \<not> Suc k > maxEmptyRecords")
      case True
      then have "Conn_Read_loop X n (Suc k) (c\<lparr>cn_layer := l\<rparr>) = (res, c')" using "1.prems" unroll Inr v by simp
      with "1.IH" [OF rd [symmetric] Inr v [symmetric]] True have "readOutcome n (c\<lparr>cn_layer := l\<rparr>) res c'" by simp
      then show ?thesis by (rule readOutcome_layer [OF _ g rr(7)])
    next
      case False
      show ?thesis
      proof (cases "ct = ContentTypeApplicationData \<and> payload \<noteq> []")
        case True
        then have "res = Inr (take n payload)" "c' = c\<lparr>cn_layer := l, cn_readBuf := cn_readBuf c @ drop n payload\<rparr>"
          using "1.prems" unroll Inr v by auto
        then show ?thesis unfolding readOutcome_def using g rr(2,7) True by (intro exI [of _ l]) auto
      next
        case no: False
        obtain e where "Conn_Read_loop X n k c = (Inl e, c\<lparr>cn_layer := l, cn_readErr := Some e\<rparr>)" "\<not> panicked e"
          using unroll Inr v no False readAlert_eq [of payload "c\<lparr>cn_layer := l\<rparr>"]
          by (auto simp: failRead_def panicked_def split: if_splits)
        then show ?thesis using "1.prems" inl [of e] by simp
      qed
    qed
  qed
qed

text \<open>The write loop changes the layer only.\<close>

lemma Conn_Write_loop_unroll:
  assumes "WriteRecord X ContentTypeApplicationData (if length b > maxChunk then take maxChunk b else b) (cn_layer c) = (r, l)"
    and "m = length (if length b > maxChunk then take maxChunk b else b)"
  shows "Conn_Write_loop X w b c =
    (if 0 < length b then
       (case r of Inl e \<Rightarrow> ((w, Some e), c\<lparr>cn_layer := l\<rparr>)
        | Inr _ \<Rightarrow> Conn_Write_loop X (w + m) (drop m b) (c\<lparr>cn_layer := l\<rparr>))
     else ((w, None), c))"
  using assms by (subst Conn_Write_loop.simps) (simp add: Let_def del: if_split cong: if_cong split: sum.split)

lemma Conn_Write_loop_eq:
  "Conn_Write_loop X w b c = (res, c') \<Longrightarrow> \<exists>l. c' = c\<lparr>cn_layer := l\<rparr> \<and> guarded l = guarded (cn_layer c)"
proof (induction X w b c rule: Conn_Write_loop.induct)
  case (1 X w b c)
  let ?chunk = "if length b > maxChunk then take maxChunk b else b"
  obtain r l where wr: "WriteRecord X ContentTypeApplicationData ?chunk (cn_layer c) = (r, l)" by fastforce
  have g: "guarded l = guarded (cn_layer c)" by (rule WriteRecord_guarded [OF wr])
  note unroll = Conn_Write_loop_unroll [OF wr refl]
  show ?case
  proof (cases "0 < length b \<and> r = Inr ()")
    case True
    then have "Conn_Write_loop X (w + length ?chunk) (drop (length ?chunk) b) (c\<lparr>cn_layer := l\<rparr>) = (res, c')"
      using "1.prems" unroll by simp
    with "1.IH" [OF _ refl wr [symmetric], of "()"] True obtain l' where "c' = c\<lparr>cn_layer := l\<rparr>\<lparr>cn_layer := l'\<rparr>" "guarded l' = guarded l"
      by auto
    with g show ?thesis by auto
  next
    case False
    then show ?thesis using "1.prems" unroll g by (auto split: if_splits sum.splits intro: exI [of _ "cn_layer c"])
  qed
qed

lemma sendCloseNotify_eq:
  "sendCloseNotify X c = (res, c') \<Longrightarrow> \<exists>l. c' = c\<lparr>cn_layer := l\<rparr> \<and> guarded l = guarded (cn_layer c) \<and> (\<forall>e. res = Inl e \<longrightarrow> panicked e)"
  by (auto simp: sendCloseNotify_def panicked_def dest!: WriteRecord_guarded split: prod.splits sum.splits err.splits)

lemma Conn_Read_cases:
  assumes "Conn_Read P X n c = (res, c')"
  obtains (handshake) e where "Conn_Handshake P X c = (Inl e, c')" "res = Inl e"
  | (closed) "Conn_Handshake P X c = (Inr (), c')" "cn_closed c'" "res = Inl (Sentinel ''errConnClosed'')"
  | (buffered) c1 where "Conn_Handshake P X c = (Inr (), c1)" "\<not> cn_closed c1" "cn_readBuf c1 \<noteq> []"
      "res = Inr (take n (cn_readBuf c1))" "c' = c1\<lparr>cn_readBuf := drop n (cn_readBuf c1)\<rparr>"
  | (sticky) e where "Conn_Handshake P X c = (Inr (), c')" "\<not> cn_closed c'" "cn_readErr c' = Some e" "res = Inl e"
  | (fresh) c1 where "Conn_Handshake P X c = (Inr (), c1)" "\<not> cn_closed c1" "cn_readBuf c1 = []" "cn_readErr c1 = None"
      "Conn_Read_loop X n 0 c1 = (res, c')"
proof (cases "Conn_Handshake P X c")
  case (Pair r c1)
  show thesis
  proof (cases r)
    case (Inl e)
    then show thesis using assms Pair handshake [of e] by (simp add: Conn_Read_def bindS_def)
  next
    case (Inr u)
    then have h: "Conn_Handshake P X c = (Inr (), c1)" using Pair by simp
    with assms have "(if cn_closed c1 then (Inl (Sentinel ''errConnClosed''), c1)
       else if length (cn_readBuf c1) > 0 then (Inr (take n (cn_readBuf c1)), c1\<lparr>cn_readBuf := drop n (cn_readBuf c1)\<rparr>)
       else (case cn_readErr c1 of Some e \<Rightarrow> (Inl e, c1) | None \<Rightarrow> Conn_Read_loop X n 0 c1)) = (res, c')"
      by (simp add: Conn_Read_def bindS_def)
    then show thesis
      using h closed buffered [OF h] sticky fresh [OF h] by (auto split: if_splits option.splits)
  qed
qed

lemma Conn_Write_cases:
  assumes "Conn_Write P X b c = (res, c')"
  obtains (handshake) e where "Conn_Handshake P X c = (Inl e, c')" "res = (0, Some e)"
  | (closed) "Conn_Handshake P X c = (Inr (), c')" "cn_closed c'" "res = (0, Some (Sentinel ''errConnClosed''))"
  | (records) c1 where "Conn_Handshake P X c = (Inr (), c1)" "\<not> cn_closed c1" "Conn_Write_loop X 0 b c1 = (res, c')"
proof (cases "Conn_Handshake P X c")
  case (Pair r c1)
  show thesis
  proof (cases r)
    case (Inl e)
    then show thesis using assms Pair handshake [of e] by (simp add: Conn_Write_def)
  next
    case (Inr u)
    then have h: "Conn_Handshake P X c = (Inr (), c1)" using Pair by simp
    with assms show thesis using closed records [OF h] by (cases "cn_closed c1") (simp_all add: Conn_Write_def)
  qed
qed

lemma Conn_Close_eq:
  assumes "Conn_Close X held c = (res, c')"
  shows "(cn_closed c \<and> res = Inr () \<and> c' = c) \<or>
    (\<not> cn_closed c \<and> (\<exists>l k. c' = c\<lparr>cn_closed := True, cn_layer := l, cn_closes := k\<rparr> \<and> guarded l = guarded (cn_layer c) \<and>
       (cn_handshakeOK c \<and> \<not> held \<or> l = cn_layer c) \<and>
       (k = Suc (cn_closes c) \<and> res = (case cn_closeErr c of None \<Rightarrow> Inr () | Some e \<Rightarrow> Inl e) \<or>
        k = cn_closes c \<and> (\<exists>e. res = Inl e \<and> panicked e))))"
proof (cases "cn_closed c")
  case False
  let ?c = "c\<lparr>cn_closed := True\<rparr>"
  obtain r c1 where s: "(if cn_handshakeOK ?c \<and> \<not> held then sendCloseNotify X ?c else (Inr (), ?c)) = (r, c1)" by fastforce
  have "\<exists>l. c1 = ?c\<lparr>cn_layer := l\<rparr> \<and> guarded l = guarded (cn_layer c) \<and> (\<forall>e. r = Inl e \<longrightarrow> panicked e) \<and>
      (cn_handshakeOK c \<and> \<not> held \<or> l = cn_layer c)"
  proof (cases "cn_handshakeOK c \<and> \<not> held")
    case True
    then show ?thesis using s sendCloseNotify_eq [of X ?c r c1] by simp
  next
    case no: False
    then have "c1 = ?c\<lparr>cn_layer := cn_layer c\<rparr>" "r = Inr ()" using s by auto
    then show ?thesis by blast
  qed
  then obtain l where l: "c1 = ?c\<lparr>cn_layer := l\<rparr>" "guarded l = guarded (cn_layer c)" "\<forall>e. r = Inl e \<longrightarrow> panicked e"
    "cn_handshakeOK c \<and> \<not> held \<or> l = cn_layer c" by blast
  have res: "(res, c') = (case r of Inl e \<Rightarrow> (Inl e, c1) | Inr _ \<Rightarrow> closeTransport c1)"
    using assms s False by (simp add: Conn_Close_def bindS_def)
  show ?thesis
  proof (cases r)
    case (Inl e)
    then show ?thesis using res l False by - (rule disjI2, intro conjI exI [of _ l] exI [of _ "cn_closes c"], auto)
  next
    case (Inr u)
    then show ?thesis using res l False
      by - (rule disjI2, intro conjI exI [of _ l] exI [of _ "Suc (cn_closes c)"], auto simp: closeTransport_def split: option.splits)
  qed
qed (use assms in \<open>simp add: Conn_Close_def\<close>)

section \<open>Runs of a connection\<close>

datatype conn_op = OpHandshake | OpRead nat | OpWrite bytes | OpClose bool

definition resErr :: "'a res \<Rightarrow> err option" where
  "resErr r = (case r of Inl e \<Rightarrow> Some e | Inr _ \<Rightarrow> None)"

fun Conn_do :: "pemlib \<Rightarrow> ('x) ccrypto_scheme \<Rightarrow> conn_op \<Rightarrow> Conn \<Rightarrow> err option \<times> Conn" where
  "Conn_do P X OpHandshake c = (case Conn_Handshake P X c of (r, c') \<Rightarrow> (resErr r, c'))"
| "Conn_do P X (OpRead n) c = (case Conn_Read P X n c of (r, c') \<Rightarrow> (resErr r, c'))"
| "Conn_do P X (OpWrite b) c = (case Conn_Write P X b c of ((_, e), c') \<Rightarrow> (e, c'))"
| "Conn_do P X (OpClose held) c = (case Conn_Close X held c of (r, c') \<Rightarrow> (resErr r, c'))"

text \<open>The states a connection reaches as long as no method panics.\<close>

inductive conn_reach :: "pemlib \<Rightarrow> ('x) ccrypto_scheme \<Rightarrow> Conn \<Rightarrow> Conn \<Rightarrow> bool" for P X c0 where
  start: "conn_reach P X c0 c0"
| step: "conn_reach P X c0 c \<Longrightarrow> Conn_do P X op c = (r, c') \<Longrightarrow> \<forall>e. r = Some e \<longrightarrow> \<not> panicked e \<Longrightarrow> conn_reach P X c0 c'"

text \<open>Well-formed connection values.\<close>

definition wf_Conn :: "Conn \<Rightarrow> bool" where
  "wf_Conn c \<longleftrightarrow>
     (\<not> cn_once c \<longrightarrow> cn_handshakeErr c = None \<and> \<not> cn_handshakeOK c \<and> cn_readBuf c = [] \<and> cn_readErr c = None) \<and>
     (cn_handshakeOK c \<longrightarrow> cn_handshakeErr c = None) \<and> length (cn_readBuf c) \<le> 16384 \<and>
     cn_closes c \<le> (if cn_closed c then 1 else 0) \<and>
     (\<forall>e. cn_handshakeErr c = Some e \<or> cn_readErr c = Some e \<longrightarrow> \<not> panicked e)"

lemma wf_newConn: "wf_Conn (newConn w closeErr config)"
  by (simp add: wf_Conn_def newConn_def)

lemma wf_Handshake: "Conn_Handshake P X c = (res, c') \<Longrightarrow> wf_Conn c \<Longrightarrow> wf_Conn c'"
  by (erule Conn_Handshake_cases) (auto simp: wf_Conn_def)

lemma Conn_Handshake_once: "Conn_Handshake P X c = (res, c') \<Longrightarrow> cn_once c'"
  by (erule Conn_Handshake_cases) simp_all

lemma wf_readOutcome:
  assumes "readOutcome n c res c'" "wf_Conn c" "cn_readBuf c = []" "cn_once c"
  shows "wf_Conn c'"
  using assms unfolding readOutcome_def wf_Conn_def by (elim exE conjE disjE) (auto split: if_splits)

lemma wf_Conn_do:
  assumes "Conn_do P X op c = (r, c')" "wf_Conn c"
  shows "wf_Conn c'"
proof (cases op)
  case OpHandshake
  then show ?thesis using assms by (auto intro: wf_Handshake split: prod.splits)
next
  case (OpRead n)
  with assms(1) obtain res where "Conn_Read P X n c = (res, c')" by (auto split: prod.splits)
  then show ?thesis
  proof (cases rule: Conn_Read_cases)
    case (buffered c1)
    then show ?thesis using wf_Handshake [OF buffered(1) assms(2)] Conn_Handshake_once [OF buffered(1)] by (auto simp: wf_Conn_def)
  next
    case (fresh c1)
    from Conn_Read_loop_eq [OF fresh(5)] wf_Handshake [OF fresh(1) assms(2)] fresh(3) Conn_Handshake_once [OF fresh(1)]
    show ?thesis by (rule wf_readOutcome)
  qed (use wf_Handshake assms(2) in blast)+
next
  case (OpWrite b)
  with assms(1) obtain res where "Conn_Write P X b c = (res, c')" by (auto split: prod.splits)
  then show ?thesis
  proof (cases rule: Conn_Write_cases)
    case (records c1)
    then show ?thesis using wf_Handshake [OF records(1) assms(2)] Conn_Write_loop_eq [OF records(3)] by (auto simp: wf_Conn_def)
  qed (use wf_Handshake assms(2) in blast)+
next
  case (OpClose held)
  with assms(1) obtain res where "Conn_Close X held c = (res, c')" by (auto split: prod.splits)
  from Conn_Close_eq [OF this] assms(2) show ?thesis by (auto simp: wf_Conn_def)
qed

text \<open>What holds, moreover, as long as nothing panics.\<close>

definition conn_inv :: "net \<Rightarrow> Conn \<Rightarrow> bool" where
  "conn_inv w c \<longleftrightarrow>
     (if cn_once c then cn_handshakeOK c \<longleftrightarrow> cn_handshakeErr c = None
      else \<not> cn_handshakeOK c \<and> cn_handshakeErr c = None \<and> cn_layer c = NewLayer w) \<and>
     (cn_handshakeOK c \<longrightarrow> guarded (cn_layer c)) \<and> cn_closes c = (if cn_closed c then 1 else 0)"

lemma conn_inv_newConn: "conn_inv w (newConn w closeErr config)"
  by (simp add: conn_inv_def newConn_def)

lemma conn_inv_Handshake:
  "Conn_Handshake P X c = (res, c') \<Longrightarrow> conn_inv w c \<Longrightarrow> \<forall>e. resErr res = Some e \<longrightarrow> \<not> panicked e \<Longrightarrow>
     conn_inv w c' \<and> (res = Inr () \<longrightarrow> cn_handshakeOK c')"
  by (erule Conn_Handshake_cases) (auto simp: conn_inv_def resErr_def split: option.splits)

lemma conn_inv_Handshake_Inr:
  "Conn_Handshake P X c = (Inr (), c') \<Longrightarrow> conn_inv w c \<Longrightarrow> conn_inv w c' \<and> cn_handshakeOK c'"
  by (drule (1) conn_inv_Handshake) (simp_all add: resErr_def)

lemma conn_inv_layer:
  assumes "conn_inv w c" "cn_handshakeOK c" "guarded l = guarded (cn_layer c)"
  shows "conn_inv w (c\<lparr>cn_layer := l, cn_readBuf := b, cn_readErr := e\<rparr>)"
    and "conn_inv w (c\<lparr>cn_layer := l\<rparr>)" and "conn_inv w (c\<lparr>cn_layer := l, cn_readBuf := b\<rparr>)"
    and "conn_inv w (c\<lparr>cn_layer := l, cn_readErr := e\<rparr>)" and "conn_inv w (c\<lparr>cn_readBuf := b\<rparr>)"
  using assms by (auto simp: conn_inv_def split: if_splits)

lemma conn_inv_Conn_do:
  assumes "Conn_do P X op c = (r, c')" "conn_inv w c" "\<forall>e. r = Some e \<longrightarrow> \<not> panicked e"
  shows "conn_inv w c'"
proof (cases op)
  case OpHandshake
  then show ?thesis using assms by (auto dest: conn_inv_Handshake split: prod.splits)
next
  case (OpRead n)
  with assms(1) obtain res where "Conn_Read P X n c = (res, c')" "r = resErr res" by (auto split: prod.splits)
  from this(1) show ?thesis
  proof (cases rule: Conn_Read_cases)
    case (handshake e)
    then show ?thesis using conn_inv_Handshake [OF handshake(1) assms(2)] assms(3) \<open>r = resErr res\<close> by (simp add: resErr_def)
  next
    case (buffered c1)
    then show ?thesis using conn_inv_Handshake_Inr [OF buffered(1) assms(2)] conn_inv_layer(5) by simp
  next
    case (fresh c1)
    then have "conn_inv w c1" "cn_handshakeOK c1" using conn_inv_Handshake_Inr [OF fresh(1) assms(2)] by simp_all
    then show ?thesis using Conn_Read_loop_eq [OF fresh(5)] conn_inv_layer [of w c1]
      unfolding readOutcome_def by (elim exE conjE disjE) (auto split: if_splits)
  qed (use conn_inv_Handshake_Inr assms(2) in blast)+
next
  case (OpWrite b)
  with assms(1) obtain n where "Conn_Write P X b c = ((n, r), c')" by (auto split: prod.splits)
  then show ?thesis
  proof (cases rule: Conn_Write_cases)
    case (handshake e)
    then show ?thesis using conn_inv_Handshake [OF handshake(1) assms(2)] assms(3) by (simp add: resErr_def)
  next
    case (records c1)
    then have "conn_inv w c1" "cn_handshakeOK c1" using conn_inv_Handshake_Inr [OF records(1) assms(2)] by simp_all
    then show ?thesis using Conn_Write_loop_eq [OF records(3)] conn_inv_layer(2) by blast
  qed (use conn_inv_Handshake_Inr assms(2) in blast)+
next
  case (OpClose held)
  with assms(1) obtain res where c: "Conn_Close X held c = (res, c')" "r = resErr res" by (auto split: prod.splits)
  from Conn_Close_eq [OF c(1)] assms(2,3) c(2) show ?thesis by (auto simp: conn_inv_def resErr_def split: if_splits)
qed

lemma conn_reach_inv: "conn_reach P X (newConn w closeErr config) c \<Longrightarrow> conn_inv w c"
  by (induction rule: conn_reach.induct) (auto intro: conn_inv_newConn conn_inv_Conn_do)

text \<open>Once a connection is closed, or its handshake has failed, it is silent.\<close>

definition dead :: "Conn \<Rightarrow> bool" where
  "dead c \<longleftrightarrow> cn_closed c \<or> cn_once c \<and> cn_handshakeErr c \<noteq> None"

definition deadErr :: "Conn \<Rightarrow> err" where
  "deadErr c = (case cn_handshakeErr c of None \<Rightarrow> Sentinel ''errConnClosed'' | Some e \<Rightarrow> e)"

fun transfers :: "conn_op \<Rightarrow> bool" where
  "transfers (OpRead n) = True"
| "transfers (OpWrite b) = True"
| "transfers _ = False"

lemma dead_Handshake:
  assumes "dead c" "wf_Conn c" "Conn_Handshake P X c = (res, c')"
  shows "dead c' \<and> cn_layer c' = cn_layer c \<and> deadErr c' = deadErr c \<and> cn_closes c' = cn_closes c \<and>
    (res = Inl (deadErr c) \<or> res = Inr () \<and> cn_closed c' \<and> cn_handshakeErr c' = None)"
  using assms(3,1,2) by (cases rule: Conn_Handshake_cases) (auto simp: dead_def deadErr_def wf_Conn_def split: option.splits)

lemma dead_Conn_do:
  assumes "dead c" "wf_Conn c" "Conn_do P X op c = (r, c')"
  shows "dead c' \<and> cn_layer c' = cn_layer c \<and> deadErr c' = deadErr c \<and> (transfers op \<longrightarrow> r = Some (deadErr c))"
proof (cases op)
  case OpHandshake
  then show ?thesis using assms by (auto dest: dead_Handshake split: prod.splits)
next
  case (OpRead n)
  with assms(3) obtain res where "Conn_Read P X n c = (res, c')" "r = resErr res" by (auto split: prod.splits)
  then show ?thesis using assms(1,2)
    by (cases rule: Conn_Read_cases) (auto simp: resErr_def dest!: dead_Handshake [OF assms(1,2)] split: option.splits, auto simp: deadErr_def)
next
  case (OpWrite b)
  with assms(3) obtain n where "Conn_Write P X b c = ((n, r), c')" by (auto split: prod.splits)
  then show ?thesis using assms(1,2)
    by (cases rule: Conn_Write_cases) (auto dest!: dead_Handshake [OF assms(1,2)], auto simp: deadErr_def)
next
  case (OpClose held)
  with assms(3) obtain res where "Conn_Close X held c = (res, c')" by (auto split: prod.splits)
  from Conn_Close_eq [OF this] assms(1,2) OpClose show ?thesis by (auto simp: dead_def deadErr_def wf_Conn_def)
qed

fun Conn_execs :: "pemlib \<Rightarrow> ('x) ccrypto_scheme \<Rightarrow> conn_op list \<Rightarrow> Conn \<Rightarrow> err option list \<times> Conn" where
  "Conn_execs P X [] c = ([], c)"
| "Conn_execs P X (op # ops) c =
     (case Conn_do P X op c of (r, c) \<Rightarrow> (case Conn_execs P X ops c of (rs, c) \<Rightarrow> (r # rs, c)))"

lemma wf_Conn_execs: "Conn_execs P X ops c = (rs, c') \<Longrightarrow> wf_Conn c \<Longrightarrow> wf_Conn c'"
proof (induction ops arbitrary: c rs)
  case (Cons op ops)
  from Cons.prems(1) obtain r c1 rs1 where "Conn_do P X op c = (r, c1)" "Conn_execs P X ops c1 = (rs1, c')" by (auto split: prod.splits)
  then show ?case using Cons.IH wf_Conn_do Cons.prems(2) by blast
qed simp

lemma dead_Conn_execs:
  assumes "dead c" "wf_Conn c" "Conn_execs P X ops c = (rs, c')"
  shows "cn_layer c' = cn_layer c \<and> length rs = length ops \<and> (\<forall>i < length ops. transfers (ops ! i) \<longrightarrow> rs ! i = Some (deadErr c))"
  using assms
proof (induction ops arbitrary: c rs)
  case (Cons op ops)
  obtain r c1 where d: "Conn_do P X op c = (r, c1)" by fastforce
  obtain rs1 where e: "Conn_execs P X ops c1 = (rs1, c')" "rs = r # rs1" using Cons.prems(3) d by (auto split: prod.splits)
  note s = dead_Conn_do [OF Cons.prems(1,2) d]
  have "cn_layer c' = cn_layer c1 \<and> length rs1 = length ops \<and> (\<forall>i < length ops. transfers (ops ! i) \<longrightarrow> rs1 ! i = Some (deadErr c1))"
    using Cons.IH [OF _ wf_Conn_do [OF d Cons.prems(2)] e(1)] s by blast
  then show ?case using s e(2) by (auto simp: nth_Cons split: nat.split)
qed simp

end
