(* ===== verification/ConnStream.thy ===== *)
theory ConnStream
  imports ConnSteps
begin

text \<open>
  The byte stream of a connection: what one end writes, in whatever pieces, the other end reads, in
  whatever pieces; and what a successful dial has done.
\<close>

section \<open>Established connections\<close>

definition established :: "Conn \<Rightarrow> bool" where
  "established c \<longleftrightarrow> cn_once c \<and> cn_handshakeErr c = None \<and> \<not> cn_closed c"

lemma established_Handshake: "established c \<Longrightarrow> Conn_Handshake P X c = (Inr (), c)"
  by (simp add: established_def Conn_Handshake_def)

lemma established_Write: "established c \<Longrightarrow> Conn_Write P X b c = Conn_Write_loop X 0 b c"
  by (simp add: Conn_Write_def established_Handshake) (simp add: established_def)

lemma established_Read:
  "established c \<Longrightarrow> Conn_Read P X n c =
     (if cn_readBuf c \<noteq> [] then (Inr (take n (cn_readBuf c)), c\<lparr>cn_readBuf := drop n (cn_readBuf c)\<rparr>)
      else (case cn_readErr c of Some e \<Rightarrow> (Inl e, c) | None \<Rightarrow> Conn_Read_loop X n 0 c))"
  by (simp add: Conn_Read_def established_Handshake) (simp add: established_def)

lemma Conn_Read_Inr:
  assumes "Conn_Read P X n c = (Inr bs, c')"
  shows "length bs \<le> n" and "0 < n \<Longrightarrow> bs \<noteq> []"
proof -
  have "\<exists>buf. buf \<noteq> [] \<and> bs = take n buf"
    using assms
  proof (cases rule: Conn_Read_cases)
    case (fresh c1)
    from Conn_Read_loop_eq [OF fresh(5)] show ?thesis unfolding readOutcome_def by auto
  qed auto
  then show "length bs \<le> n" "0 < n \<Longrightarrow> bs \<noteq> []" by auto
qed

section \<open>Writing a stream\<close>

abbreviation appRecord :: "byte \<times> bytes \<Rightarrow> bool" where
  "appRecord r \<equiv> fst r = ContentTypeApplicationData \<and> snd r \<noteq> []"

lemma WriteRecords_append:
  "WriteRecords X rs l = (Inr (), l1) \<Longrightarrow> WriteRecords X rs' l1 = (Inr (), l') \<Longrightarrow> WriteRecords X (rs @ rs') l = (Inr (), l')"
proof (induction rs arbitrary: l)
  case (Cons r rs)
  then show ?case by (cases r) (auto simp: bindS_eq_Inr)
qed simp

lemma Conn_Write_loop_records:
  "Conn_Write_loop X w b c = ((n, None), c') \<Longrightarrow>
     \<exists>rs. WriteRecords X rs (cn_layer c) = (Inr (), cn_layer c') \<and> list_all appRecord rs \<and> concat (map snd rs) = b \<and> n = w + length b"
proof (induction X w b c rule: Conn_Write_loop.induct)
  case (1 X w b c)
  define chunk where "chunk = (if length b > maxChunk then take maxChunk b else b)"
  show ?case
  proof (cases "b = []")
    case True
    then show ?thesis using "1.prems" by (subst (asm) Conn_Write_loop.simps) (auto intro: exI [of _ "[]"])
  next
    case False
    then have e: "chunk \<noteq> []" "chunk @ drop (length chunk) b = b" "length chunk \<le> length b" by (auto simp: chunk_def maxChunk_def)
    obtain r l where wr: "WriteRecord X ContentTypeApplicationData chunk (cn_layer c) = (r, l)" by fastforce
    note step = wr [unfolded chunk_def]
    have rest: "r = Inr ()" "Conn_Write_loop X (w + length chunk) (drop (length chunk) b) (c\<lparr>cn_layer := l\<rparr>) = ((n, None), c')"
      using "1.prems" False Conn_Write_loop_unroll [OF step refl, of w, folded chunk_def] by (auto split: sum.splits)
    from "1.IH" [OF _ refl step [symmetric] rest(1), folded chunk_def] rest(2) False obtain rs where
      rs: "WriteRecords X rs l = (Inr (), cn_layer c')" "list_all appRecord rs" "concat (map snd rs) = drop (length chunk) b"
      "n = w + length chunk + length (drop (length chunk) b)"
      by auto
    have "WriteRecords X ((ContentTypeApplicationData, chunk) # rs) (cn_layer c) = (Inr (), cn_layer c')"
      using wr rest(1) rs(1) by (simp add: bindS_def)
    moreover have "n = w + length b" using rs(4) e(3) by simp
    ultimately show ?thesis using rs(2,3) e(1,2)
      by (intro exI [of _ "(ContentTypeApplicationData, chunk) # rs"]) simp
  qed
qed

fun Conn_Writes :: "pemlib \<Rightarrow> ('x) ccrypto_scheme \<Rightarrow> bytes list \<Rightarrow> (Conn, unit) sm" where
  "Conn_Writes P X [] c = (Inr (), c)"
| "Conn_Writes P X (b # bs) c =
     (case Conn_Write P X b c of
        ((_, Some e), c) \<Rightarrow> (Inl e, c)
      | ((_, None), c) \<Rightarrow> Conn_Writes P X bs c)"

lemma Conn_Writes_records:
  assumes "established c" "Conn_Writes P X bs c = (Inr (), c')"
  shows "\<exists>rs. WriteRecords X rs (cn_layer c) = (Inr (), cn_layer c') \<and> list_all appRecord rs \<and> concat (map snd rs) = concat bs"
  using assms
proof (induction bs arbitrary: c)
  case (Cons b bs)
  obtain n c1 where w: "Conn_Write P X b c = ((n, None), c1)" and ws: "Conn_Writes P X bs c1 = (Inr (), c')"
    using Cons.prems(2) by (auto split: prod.splits option.splits)
  then have loop: "Conn_Write_loop X 0 b c = ((n, None), c1)" using Cons.prems(1) by (simp add: established_Write)
  obtain rs where rs: "WriteRecords X rs (cn_layer c) = (Inr (), cn_layer c1)" "list_all appRecord rs" "concat (map snd rs) = b"
    using Conn_Write_loop_records [OF loop] by blast
  have "established c1" using Conn_Write_loop_eq [OF loop] Cons.prems(1) by (auto simp: established_def)
  from Cons.IH [OF this ws] obtain rs' where "WriteRecords X rs' (cn_layer c1) = (Inr (), cn_layer c')"
    "list_all appRecord rs'" "concat (map snd rs') = concat bs" by blast
  then show ?case using rs WriteRecords_append [OF rs(1)] by (intro exI [of _ "rs @ rs'"]) simp
qed (auto intro: exI [of _ "[]"])

section \<open>Reading it back\<close>

text \<open>The bytes a connection is about to deliver: its buffer, and the payloads of the records in its
  input.\<close>

definition carries :: "('x) ccrypto_scheme \<Rightarrow> Conn \<Rightarrow> bytes \<Rightarrow> bytes \<Rightarrow> bool" where
  "carries X c stream rest \<longleftrightarrow> established c \<and> cn_readErr c = None \<and>
     (\<exists>rs s s' wire. in_sync X s (cn_layer c) \<and> WriteRecords X rs s = (Inr (), s') \<and> list_all appRecord rs \<and>
        n_out (l_rw s') = n_out (l_rw s) @ wire \<and> r_data (n_in (l_rw (cn_layer c))) = wire @ rest \<and>
        stream = cn_readBuf c @ concat (map snd rs))"

lemma carries_buffered:
  assumes "carries X c stream rest" "cn_readBuf c \<noteq> []"
  shows "\<exists>k c'. Conn_Read P X n c = (Inr (take k stream), c') \<and> k \<le> length stream \<and> carries X c' (drop k stream) rest"
proof -
  let ?k = "min n (length (cn_readBuf c))" and ?c = "c\<lparr>cn_readBuf := drop n (cn_readBuf c)\<rparr>"
  obtain ps where s: "stream = cn_readBuf c @ ps" using assms(1) unfolding carries_def by blast
  have "established c" using assms(1) by (simp add: carries_def)
  then have "Conn_Read P X n c = (Inr (take ?k stream), ?c)" using assms(2) s by (simp add: established_Read min_def)
  moreover have "?k \<le> length stream" using s by simp
  moreover have "carries X ?c (drop ?k stream) rest"
    using assms(1) s unfolding carries_def by (auto simp: established_def min_def)
  ultimately show ?thesis by blast
qed

lemma Conn_Read_loop_data:
  assumes "ReadRecord X (cn_layer c) = (Inr (ContentTypeApplicationData, p), l)" "p \<noteq> []"
  shows "Conn_Read_loop X n k c = (Inr (take n p), c\<lparr>cn_layer := l, cn_readBuf := cn_readBuf c @ drop n p\<rparr>)"
  using assms by (subst Conn_Read_loop.simps) simp

lemma carries_fresh:
  assumes "carries X c stream rest" "cn_readBuf c = []" "stream \<noteq> []"
  shows "\<exists>k c'. Conn_Read P X n c = (Inr (take k stream), c') \<and> k \<le> length stream \<and> carries X c' (drop k stream) rest"
proof -
  obtain rs s s' wire where sync: "in_sync X s (cn_layer c)" and w: "WriteRecords X rs s = (Inr (), s')" and a: "list_all appRecord rs"
    and o: "n_out (l_rw s') = n_out (l_rw s) @ wire" and i: "r_data (n_in (l_rw (cn_layer c))) = wire @ rest"
    and st: "stream = concat (map snd rs)" and est: "established c" "cn_readErr c = None"
    using assms(1,2) unfolding carries_def by auto
  from st assms(3) obtain r rs' where rs: "rs = r # rs'" by (cases rs) auto
  define p where "p = snd r"
  have r: "r = (ContentTypeApplicationData, p)" "p \<noteq> []" using a rs by (auto simp: p_def prod_eq_iff)
  obtain s1 where w1: "WriteRecord X ContentTypeApplicationData p s = (Inr (), s1)" and ws: "WriteRecords X rs' s1 = (Inr (), s')"
    using w rs r by (auto simp: bindS_eq_Inr)
  obtain x1 where x1: "n_out (l_rw s1) = n_out (l_rw s) @ x1" using w1 by (rule WriteRecord_Inr) auto
  obtain x2 where x2: "n_out (l_rw s') = n_out (l_rw s1) @ x2" using WriteRecords_out [OF ws] by blast
  have "wire = x1 @ x2" using o x1 x2 by simp
  then have "r_data (n_in (l_rw (cn_layer c))) = x1 @ (x2 @ rest)" using i by simp
  from ReadRecord_WriteRecord [OF sync w1 x1 this] obtain l where
    rd: "ReadRecord X (cn_layer c) = (Inr (ContentTypeApplicationData, p), l)" "in_sync X s1 l" "r_data (n_in (l_rw l)) = x2 @ rest" by blast
  let ?k = "min n (length p)" and ?c = "c\<lparr>cn_layer := l, cn_readBuf := drop n p\<rparr>"
  have "Conn_Read P X n c = (Inr (take ?k stream), ?c)"
    using est assms(2) Conn_Read_loop_data [OF rd(1) r(2), of n 0] st rs r by (simp add: established_Read min_def)
  moreover have "?k \<le> length stream" using st rs r by simp
  moreover have "carries X ?c (drop ?k stream) rest"
  proof -
    have "drop ?k stream = cn_readBuf ?c @ concat (map snd rs')" using st rs r by (simp add: min_def)
    then show ?thesis unfolding carries_def using est rd(2,3) ws x2 a rs
      by (intro conjI exI [of _ rs'] exI [of _ s1] exI [of _ s'] exI [of _ x2]) (simp_all add: established_def)
  qed
  ultimately show ?thesis by blast
qed

lemma Conn_Read_carries:
  assumes "carries X c stream rest" "stream \<noteq> []" "0 < n"
  obtains k c' where "Conn_Read P X n c = (Inr (take k stream), c')" "0 < k" "k \<le> n" "k \<le> length stream" "carries X c' (drop k stream) rest"
proof -
  have "\<exists>k c'. Conn_Read P X n c = (Inr (take k stream), c') \<and> k \<le> length stream \<and> carries X c' (drop k stream) rest"
    using carries_buffered [OF assms(1)] carries_fresh [OF assms(1) _ assms(2)] by (cases "cn_readBuf c = []") blast+
  then obtain k c' where r: "Conn_Read P X n c = (Inr (take k stream), c')" "k \<le> length stream" "carries X c' (drop k stream) rest" by blast
  have "k \<le> n" using Conn_Read_Inr(1) [OF r(1)] r(2) by (simp add: min_absorb2)
  moreover have "0 < k" using Conn_Read_Inr(2) [OF r(1) assms(3)] by (cases k) auto
  ultimately show thesis using r by (intro that)
qed

lemma carries_done: "carries X c [] rest \<Longrightarrow> r_data (n_in (l_rw (cn_layer c))) = rest"
proof -
  assume "carries X c [] rest"
  then obtain rs s s' wire where w: "WriteRecords X rs s = (Inr (), s')" "list_all appRecord rs" "concat (map snd rs) = []"
    "n_out (l_rw s') = n_out (l_rw s) @ wire" "r_data (n_in (l_rw (cn_layer c))) = wire @ rest"
    unfolding carries_def by auto
  from w(2,3) have "rs = []" by (cases rs) auto
  with w show ?thesis by simp
qed

text \<open>\<open>io.ReadFull\<close> on a connection, with what has been read so far.\<close>

function Conn_ReadFull :: "pemlib \<Rightarrow> ('x) ccrypto_scheme \<Rightarrow> bytes \<Rightarrow> nat \<Rightarrow> (Conn, bytes) sm" where
  "Conn_ReadFull P X got n c =
     (if n = 0 then (Inr got, c)
      else
        (case Conn_Read P X n c of
           (Inl e, c) \<Rightarrow> (Inl (if e = EOF \<and> got \<noteq> [] then UnexpectedEOF else e), c)
         | (Inr bs, c) \<Rightarrow> Conn_ReadFull P X (got @ bs) (n - length bs) c))"
  by pat_completeness auto
termination
  by (relation "measure (\<lambda>(P, X, got, n, c). n)") (auto dest!: Conn_Read_Inr(2) [OF sym])

declare Conn_ReadFull.simps [simp del]

lemma Conn_ReadFull_carries:
  "carries X c stream rest \<Longrightarrow> n \<le> length stream \<Longrightarrow>
     \<exists>c'. Conn_ReadFull P X got n c = (Inr (got @ take n stream), c') \<and> carries X c' (drop n stream) rest"
proof (induction n arbitrary: got stream c rule: less_induct)
  case (less n)
  show ?case
  proof (cases "n = 0")
    case True
    then show ?thesis using less.prems(1) by (simp add: Conn_ReadFull.simps)
  next
    case False
    then have "stream \<noteq> []" "0 < n" using less.prems(2) by auto
    then obtain k c1 where r: "Conn_Read P X n c = (Inr (take k stream), c1)" "0 < k" "k \<le> n" "k \<le> length stream" "carries X c1 (drop k stream) rest"
      using Conn_Read_carries [OF less.prems(1)] by blast
    have "n - k < n" "n - k \<le> length (drop k stream)" using r(2,3) False less.prems(2) by auto
    from less.IH [OF this(1) r(5) this(2), of "got @ take k stream"] obtain c' where
      "Conn_ReadFull P X (got @ take k stream) (n - k) c1 = (Inr ((got @ take k stream) @ take (n - k) (drop k stream)), c')"
      "carries X c' (drop (n - k) (drop k stream)) rest" by blast
    moreover have "take k stream @ take (n - k) (drop k stream) = take n stream" using r(3) by (metis le_add_diff_inverse take_add)
    ultimately show ?thesis using r(1,3,4) False by (subst Conn_ReadFull.simps) (simp add: min_absorb2)
  qed
qed

fun Conn_ReadFulls :: "pemlib \<Rightarrow> ('x) ccrypto_scheme \<Rightarrow> nat list \<Rightarrow> (Conn, bytes list) sm" where
  "Conn_ReadFulls P X [] = returnS []"
| "Conn_ReadFulls P X (n # ns) = bindS (Conn_ReadFull P X [] n) (\<lambda>b. bindS (Conn_ReadFulls P X ns) (\<lambda>bs. returnS (b # bs)))"

lemma Conn_ReadFulls_carries:
  "carries X c stream rest \<Longrightarrow> sum_list ns \<le> length stream \<Longrightarrow>
     \<exists>bs c'. Conn_ReadFulls P X ns c = (Inr bs, c') \<and> map length bs = ns \<and> concat bs = take (sum_list ns) stream \<and>
       carries X c' (drop (sum_list ns) stream) rest"
proof (induction ns arbitrary: stream c)
  case (Cons n ns)
  obtain c1 where c1: "Conn_ReadFull P X [] n c = (Inr (take n stream), c1)" "carries X c1 (drop n stream) rest"
    using Conn_ReadFull_carries [OF Cons.prems(1), of n P "[]"] Cons.prems(2) by auto
  have "sum_list ns \<le> length (drop n stream)" using Cons.prems(2) by simp
  from Cons.IH [OF c1(2) this] obtain bs c' where
    b: "Conn_ReadFulls P X ns c1 = (Inr bs, c')" "map length bs = ns" "concat bs = take (sum_list ns) (drop n stream)"
    "carries X c' (drop (sum_list ns) (drop n stream)) rest" by blast
  have "carries X c' (drop (sum_list (n # ns)) stream) rest" using b(4) by (simp add: add.commute)
  moreover have "Conn_ReadFulls P X (n # ns) c = (Inr (take n stream # bs), c')" using c1(1) b(1) by (simp add: bindS_def)
  moreover have "concat (take n stream # bs) = take (sum_list (n # ns)) stream" using b(3) by (simp add: take_add)
  moreover have "map length (take n stream # bs) = n # ns" using b(2) Cons.prems(2) by simp
  ultimately show ?case by (intro exI [of _ "take n stream # bs"] exI [of _ c']) (intro conjI)
qed simp

section \<open>Dialling\<close>

lemma doHandshake_Inr:
  assumes "doHandshake P X c = (Inr (), c')"
  obtains roots certs s where
    "serverNameOf (cn_config c) (cn_serverNameFromDial c) \<noteq> [] \<or> cfg_InsecureSkipVerify (cn_config c)"
    "rootCAPool P (Some (cn_config c)) = Inr roots" "clientCerts X (cn_config c) = Inr certs"
    "ClientState_Handshake X (NewClientState (cn_layer c) (clientParams (cn_config c)
       (serverNameOf (cn_config c) (cn_serverNameFromDial c)) (offeredSuitesOf (cn_config c)) roots certs)) = (Inr (), s)"
    "cn_layer c' = cs_layer s"
proof -
  let ?params = "clientParams (cn_config c) (serverNameOf (cn_config c) (cn_serverNameFromDial c)) (offeredSuitesOf (cn_config c))"
  obtain roots certs where r: "rootCAPool P (Some (cn_config c)) = Inr roots" "clientCerts X (cn_config c) = Inr certs"
    "serverNameOf (cn_config c) (cn_serverNameFromDial c) \<noteq> [] \<or> cfg_InsecureSkipVerify (cn_config c)"
    "runHandshake X (?params roots certs) c = (Inr (), c')"
    using assms unfolding doHandshake_def by (auto simp: bindS_eq_Inr Let_def split: if_splits)
  obtain res s where h: "ClientState_Handshake X (NewClientState (cn_layer c) (?params roots certs)) = (res, s)" by fastforce
  then have "res = Inr ()" "cn_layer c' = cs_layer s" using r(4) by (auto simp: runHandshake_def)
  with h r that show thesis by blast
qed

definition dialHost :: "bytes \<Rightarrow> bytes" where
  "dialHost addr = (case SplitHostPort addr of Some (host, _) \<Rightarrow> host | None \<Rightarrow> [])"

abbreviation dialConfig :: "Config option \<Rightarrow> Config" where
  "dialConfig config \<equiv> (case config of None \<Rightarrow> zeroConfig | Some cfg \<Rightarrow> cfg)"

definition dialConn :: "net \<Rightarrow> err option \<Rightarrow> bytes \<Rightarrow> Config \<Rightarrow> Conn" where
  "dialConn w closeErr addr cfg =
     (newConn w closeErr (Some cfg))\<lparr>cn_serverNameFromDial := if cfg_ServerName cfg = [] then dialHost addr else []\<rparr>"

lemma DialContext_eq:
  "DialContext P X ctx addr (Inr (w, closeErr)) config =
     (case handshakeContext P X ctx (dialConn w closeErr addr (dialConfig config)) of
        (Inl e, c) \<Rightarrow> Inl (e, Some (if panicked e then c else snd (closeTransport c)))
      | (Inr _, c) \<Rightarrow> Inr c)"
proof -
  have "(newConn w closeErr (Some cfg))\<lparr>cn_serverNameFromDial := []\<rparr> = newConn w closeErr (Some cfg)" for cfg
    by (simp add: newConn_def)
  then have d: "DialContext P X ctx addr (Inr (w, closeErr)) config =
     (case handshakeContext P X ctx (dialConn w closeErr addr (dialConfig config)) of
        (Inl (Panic p), c) \<Rightarrow> Inl (Panic p, Some c)
      | (Inl e, c) \<Rightarrow> Inl (e, Some (snd (closeTransport c)))
      | (Inr _, c) \<Rightarrow> Inr c)"
    unfolding DialContext_def dialBackend_def dialConn_def dialHost_def Let_def
    by (cases "SplitHostPort addr") (simp_all cong: if_cong split: prod.split)
  obtain res c where h: "handshakeContext P X ctx (dialConn w closeErr addr (dialConfig config)) = (res, c)" by fastforce
  show ?thesis
  proof (cases res)
    case (Inl e)
    with d h show ?thesis by (cases e) (simp_all add: panicked_def)
  qed (use d h in simp)
qed

lemma handshakeContext_cases:
  assumes "handshakeContext P X ctx c = (res, c')"
  obtains r where "Conn_Handshake P X c = (r, c')"
    "res = r \<and> (\<forall>e. ctx = Some (Some e) \<longrightarrow> resErr r \<noteq> None) \<or> (\<exists>e. ctx = Some (Some e) \<and> res = Inl e)"
proof -
  obtain r c1 where h: "Conn_Handshake P X c = (r, c1)" by fastforce
  show thesis
  proof (rule that)
    show "Conn_Handshake P X c = (r, c')" using assms h
      by (auto simp: handshakeContext_def split: option.splits sum.splits err.splits)
    show "res = r \<and> (\<forall>e. ctx = Some (Some e) \<longrightarrow> resErr r \<noteq> None) \<or> (\<exists>e. ctx = Some (Some e) \<and> res = Inl e)"
      using assms h by (auto simp: handshakeContext_def resErr_def split: option.splits sum.splits err.splits)
  qed
qed

lemma DialContext_Inr:
  assumes "DialContext P X ctx addr (Inr (w, closeErr)) (Some cfg) = Inr c"
  obtains roots certs s where
    "\<And>e. ctx \<noteq> Some (Some e)" "serverNameOf cfg (dialHost addr) \<noteq> [] \<or> cfg_InsecureSkipVerify cfg"
    "rootCAPool P (Some cfg) = Inr roots" "clientCerts X cfg = Inr certs"
    "ClientState_Handshake X (NewClientState (NewLayer w)
       (clientParams cfg (serverNameOf cfg (dialHost addr)) (offeredSuitesOf cfg) roots certs)) = (Inr (), s)"
    "cn_layer c = cs_layer s" "guarded (cn_layer c)" "cn_handshakeOK c" "cn_closes c = 0" "established c"
proof -
  let ?c = "dialConn w closeErr addr cfg"
  have c: "\<not> cn_once ?c" "\<not> cn_closed ?c" "cn_config ?c = cfg" "cn_layer ?c = NewLayer w" "cn_closes ?c = 0" "cn_handshakeErr ?c = None"
    "serverNameOf cfg (cn_serverNameFromDial ?c) = serverNameOf cfg (dialHost addr)"
    by (simp_all add: dialConn_def newConn_def serverNameOf_def)
  have "handshakeContext P X ctx ?c = (Inr (), c)" using assms by (auto simp: DialContext_eq split: prod.splits sum.splits)
  then obtain r where r: "Conn_Handshake P X ?c = (r, c)"
    "Inr () = r \<and> (\<forall>e. ctx = Some (Some e) \<longrightarrow> resErr r \<noteq> None)" by (rule handshakeContext_cases) auto
  then have ctx: "\<And>e. ctx \<noteq> Some (Some e)" by (auto simp: resErr_def)
  from r have "Conn_Handshake P X ?c = (Inr (), c)" by simp
  then show thesis
  proof (cases rule: Conn_Handshake_cases)
    case (succeeds l q)
    from succeeds(5) show thesis
    proof (rule doHandshake_Inr)
      fix roots certs s
      assume "serverNameOf (cn_config (?c\<lparr>cn_once := True\<rparr>)) (cn_serverNameFromDial (?c\<lparr>cn_once := True\<rparr>)) \<noteq> [] \<or>
          cfg_InsecureSkipVerify (cn_config (?c\<lparr>cn_once := True\<rparr>))"
        "rootCAPool P (Some (cn_config (?c\<lparr>cn_once := True\<rparr>))) = Inr roots" "clientCerts X (cn_config (?c\<lparr>cn_once := True\<rparr>)) = Inr certs"
        "ClientState_Handshake X (NewClientState (cn_layer (?c\<lparr>cn_once := True\<rparr>)) (clientParams (cn_config (?c\<lparr>cn_once := True\<rparr>))
          (serverNameOf (cn_config (?c\<lparr>cn_once := True\<rparr>)) (cn_serverNameFromDial (?c\<lparr>cn_once := True\<rparr>)))
          (offeredSuitesOf (cn_config (?c\<lparr>cn_once := True\<rparr>))) roots certs)) = (Inr (), s)"
        "cn_layer (?c\<lparr>cn_once := True, cn_layer := l, cn_config := (cn_config ?c)\<lparr>cfg_Rand := q\<rparr>\<rparr>) = cs_layer s"
      then show thesis using succeeds(4,6) c ctx by (intro that [of roots certs s]) (simp_all add: established_def)
    qed
  qed (use c in simp_all)
qed

text \<open>How the server's leaf was verified, for a name and against the roots of a configuration.\<close>

definition serverVerified ::
  "('x) ccrypto_scheme \<Rightarrow> Config \<Rightarrow> x509Cert list option \<Rightarrow> bytes \<Rightarrow> x509gostCert \<Rightarrow> chains \<Rightarrow> bool" where
  "serverVerified X cfg roots name gc verified \<longleftrightarrow>
     (if gx_IsGOST gc then
        \<exists>gostRoots inter cs. cfg_GOSTRoots cfg = Some gostRoots \<and> gostRoots \<noteq> [] \<and>
          x509gost_Verify X gc \<lparr>gvo_GOSTRoots = gostRoots, gvo_GOSTIntermediates = inter, gvo_DNSName = name,
            gvo_CurrentTime = time_Now X, gvo_KeyUsages = [ExtKeyUsageServerAuth]\<rparr> = Inr cs \<and> verified = gostChainsToStdlib cs
      else
        \<exists>leaf inter cs. gx_Stdlib gc = Some leaf \<and>
          x509_Verify X leaf \<lparr>vo_Roots = roots, vo_Intermediates = inter, vo_DNSName = name,
            vo_CurrentTime = time_Now X, vo_KeyUsages = [ExtKeyUsageServerAuth]\<rparr> = Inr cs \<and> verified = map (map Some) cs)"

lemma chainAccepted_serverVerified:
  assumes "chainAccepted X (clientParams cfg name suites roots certs) gc raw verified" "\<not> cfg_InsecureSkipVerify cfg"
  shows "serverVerified X cfg roots name gc verified"
proof (cases "gx_IsGOST gc")
  case True
  then show ?thesis using assms unfolding chainAccepted_def serverVerified_def
    by (auto simp: clientParams_def gostCertsParam_def extractGOSTRoots_def guardR_def split: option.splits if_splits)
next
  case False
  then show ?thesis using assms unfolding chainAccepted_def serverVerified_def by (auto simp: clientParams_def)
qed

lemma negotiated_verified:
  assumes "negotiated X (clientParams cfg name suites roots certs) msgs random sh suite leaf serverParams" "\<not> cfg_InsecureSkipVerify cfg"
  shows "\<exists>certBody raw gc verified. 2 < length msgs \<and> msgs ! 2 = (TypeCertificate, certBody) \<and>
    parseBody TypeCertificate certBody = Inr (MCertificate \<lparr>cert_RawCerts = raw\<rparr>) \<and> raw \<noteq> [] \<and>
    x509gost_ParseCertificate X (hd raw) = Inr gc \<and> serverVerified X cfg roots name gc verified \<and>
    (\<forall>f. cfg_VerifyPeerCertificate cfg = Some f \<longrightarrow> f raw verified = Inr ())"
proof -
  obtain ch shBody certBody certMsg gc verified ms where
    m: "msgs = [ch, (TypeServerHello, shBody), (TypeCertificate, certBody)] @ ms"
    and ct: "parseBody TypeCertificate certBody = Inr (MCertificate certMsg)" "cert_RawCerts certMsg \<noteq> []"
      "x509gost_ParseCertificate X (hd (cert_RawCerts certMsg)) = Inr gc"
    and ac: "chainAccepted X (clientParams cfg name suites roots certs) gc (cert_RawCerts certMsg) verified"
    and cb: "\<forall>f. p_VerifyPeerCertificate (clientParams cfg name suites roots certs) = Some f \<longrightarrow> f (cert_RawCerts certMsg) verified = Inr ()"
    using assms(1) unfolding negotiated_def by blast
  have v: "serverVerified X cfg roots name gc verified" by (rule chainAccepted_serverVerified [OF ac assms(2)])
  have cb': "\<forall>f. cfg_VerifyPeerCertificate cfg = Some f \<longrightarrow> f (cert_RawCerts certMsg) verified = Inr ()"
    using cb by (simp add: clientParams_def)
  have "certMsg = \<lparr>cert_RawCerts = cert_RawCerts certMsg\<rparr>" by simp
  with m ct v cb' show ?thesis
    by (intro exI [of _ certBody] exI [of _ "cert_RawCerts certMsg"] exI [of _ gc] exI [of _ verified]) simp
qed

end
