(* ===== verification/ConnThreads.thy ===== *)
theory ConnThreads
  imports ConnStream
begin

text \<open>
  Goroutines that share a connection.  The methods of \<open>conn.go\<close> are cut at their
  synchronisation: \<open>sync.Once\<close>, the two mutexes, the atomic flags, the write deadline and each record
  read or written.  A configuration holds the connection, the owners of the locks and the place every
  goroutine has reached; \<open>thread\_step\<close> moves one goroutine and is \<open>None\<close> where it waits for a
  lock.  A call on the transport may take any time: a schedule marks goroutines as hung, and
  \<open>exec\<close> moves a hung goroutine on only when the transport is closed or its write deadline is set, as
  \<open>net.Conn\<close> promises.  \<open>doHandshake\<close> is one step: while it runs nothing else uses the layer, which
  is part of what is shown.  Closing the transport does not change the script of the modelled
  transport: it may or may not report errors afterwards, so the runs of the model include those of
  the program.  The log is the history of everything written: the bytes a handshake put on the
  transport, and each record of \<open>Write\<close> and \<open>Close\<close> with the protector in force and the bytes it
  became.
\<close>

section \<open>Goroutines\<close>

datatype call = CallHandshake | CallRead nat | CallWrite bytes | CallClose

datatype place =
    Idle
  | HsEnter call | HsCheck call | HsRun call | HsStore call | HsExit call
  | RdLock nat | RdCheck nat | RdLoop nat nat
  | WrLock bytes | WrCheck bytes | WrLoop bytes
  | ClSwap | ClLoad | ClTry | ClDeadline | ClAlert | ClUnlock | ClTransport | ClPanicked

datatype event = Shook bytes | Sent byte bytes Protector bytes | TransportClosed

record Conf =
  cf_conn :: Conn
  cf_running :: "nat option"  \<comment> \<open>the goroutine inside \<open>handshakeOnce.Do\<close>\<close>
  cf_inMu :: "nat option"
  cf_outMu :: "nat option"
  cf_pc :: "nat \<Rightarrow> place"
  cf_deadline :: bool  \<comment> \<open>a write deadline is set on the transport\<close>
  cf_hung :: "nat \<Rightarrow> bool"  \<comment> \<open>the goroutine's call on the transport does not return by itself\<close>
  cf_log :: "event list"
  cf_panicked :: bool

definition newConf :: "Conn \<Rightarrow> Conf" where
  "newConf c = \<lparr>cf_conn = c, cf_running = None, cf_inMu = None, cf_outMu = None, cf_pc = (\<lambda>_. Idle),
    cf_deadline = False, cf_hung = (\<lambda>_. False), cf_log = [], cf_panicked = False\<rparr>"

definition goto :: "nat \<Rightarrow> place \<Rightarrow> Conf \<Rightarrow> Conf" where
  "goto t p s = s\<lparr>cf_pc := (cf_pc s)(t := p)\<rparr>"

text \<open>Where a method continues after \<open>Handshake\<close> returned \<open>nil\<close>, and after it returned.\<close>

fun proceed :: "call \<Rightarrow> place" where
  "proceed (CallRead n) = RdLock n"
| "proceed (CallWrite b) = WrLock b"
| "proceed _ = Idle"

definition resume :: "Conn \<Rightarrow> call \<Rightarrow> place" where
  "resume c k = (if cn_handshakeErr c = None then proceed k else Idle)"

fun entry :: "call \<Rightarrow> place" where
  "entry CallClose = ClSwap"
| "entry k = HsEnter k"

text \<open>What a call added to the output.\<close>

definition written :: "Layer \<Rightarrow> Layer \<Rightarrow> bytes" where
  "written l l' = drop (length (n_out (l_rw l))) (n_out (l_rw l'))"

text \<open>One iteration of the loop of \<open>Read\<close>: the next number of empty records, or the result.\<close>

definition readIteration :: "('x) ccrypto_scheme \<Rightarrow> nat \<Rightarrow> nat \<Rightarrow> Conn \<Rightarrow> (nat + bytes res) \<times> Conn" where
  "readIteration X n emptyRecords c =
     (case ReadRecord X (cn_layer c) of
        (Inl e, l) \<Rightarrow>
          if panicked e then (Inr (Inl e), c\<lparr>cn_layer := l\<rparr>)
          else (case failRead e (c\<lparr>cn_layer := l\<rparr>) of (r, c) \<Rightarrow> (Inr r, c))
      | (Inr (ct, payload), l) \<Rightarrow>
          if ct = ContentTypeApplicationData then
            if length payload = 0 then
              if Suc emptyRecords > maxEmptyRecords then
                (case failRead (Sentinel ''errTooManyEmptyRecords'') (c\<lparr>cn_layer := l\<rparr>) of (r, c) \<Rightarrow> (Inr r, c))
              else (Inl (Suc emptyRecords), c\<lparr>cn_layer := l\<rparr>)
            else (Inr (Inr (take n payload)), c\<lparr>cn_layer := l, cn_readBuf := cn_readBuf c @ drop n payload\<rparr>)
          else if ct = ContentTypeAlert then (case readAlert payload (c\<lparr>cn_layer := l\<rparr>) of (r, c) \<Rightarrow> (Inr r, c))
          else (case failRead (Sentinel ''errUnexpectedRecord'') (c\<lparr>cn_layer := l\<rparr>) of (r, c) \<Rightarrow> (Inr r, c)))"

definition isPanic :: "'a res \<Rightarrow> bool" where
  "isPanic r \<longleftrightarrow> (case r of Inl e \<Rightarrow> panicked e | Inr _ \<Rightarrow> False)"

text \<open>The deferred unlocks when a method returns or panics.\<close>

definition readReturns :: "nat \<Rightarrow> 'a res \<Rightarrow> Conn \<Rightarrow> Conf \<Rightarrow> Conf" where
  "readReturns t r c s = goto t Idle (s\<lparr>cf_conn := c, cf_inMu := None, cf_panicked := cf_panicked s \<or> isPanic r\<rparr>)"

definition writeReturns :: "nat \<Rightarrow> 'a res \<Rightarrow> Conn \<Rightarrow> Conf \<Rightarrow> Conf" where
  "writeReturns t r c s = goto t Idle (s\<lparr>cf_conn := c, cf_outMu := None, cf_panicked := cf_panicked s \<or> isPanic r\<rparr>)"

text \<open>The steps inside \<open>Handshake\<close>.\<close>

definition handshake_step :: "pemlib \<Rightarrow> ('x) ccrypto_scheme \<Rightarrow> nat \<Rightarrow> place \<Rightarrow> Conf \<Rightarrow> Conf option" where
  "handshake_step P X t p s =
     (let c = cf_conn s in
      case p of
        HsEnter k \<Rightarrow>
          if \<not> cn_once c then Some (goto t (HsCheck k) (s\<lparr>cf_conn := c\<lparr>cn_once := True\<rparr>, cf_running := Some t\<rparr>))
          else if cf_running s = None then Some (goto t (resume c k) s)
          else None
      | HsCheck k \<Rightarrow>
          if cn_closed c then Some (goto t (HsExit k) (s\<lparr>cf_conn := c\<lparr>cn_handshakeErr := Some (Sentinel ''errConnClosed'')\<rparr>\<rparr>))
          else Some (goto t (HsRun k) s)
      | HsRun k \<Rightarrow>
          (case doHandshake P X c of
             (r, c') \<Rightarrow>
               let s = s\<lparr>cf_log := cf_log s @ [Shook (written (cn_layer c) (cn_layer c'))]\<rparr> in
               (case r of
                  Inr _ \<Rightarrow> Some (goto t (HsStore k) (s\<lparr>cf_conn := c'\<rparr>))
                | Inl e \<Rightarrow>
                    if panicked e then Some (goto t Idle (s\<lparr>cf_conn := c', cf_running := None, cf_panicked := True\<rparr>))
                    else Some (goto t (HsExit k) (s\<lparr>cf_conn := c'\<lparr>cn_handshakeErr := Some e\<rparr>\<rparr>))))
      | HsStore k \<Rightarrow> Some (goto t (HsExit k) (s\<lparr>cf_conn := c\<lparr>cn_handshakeOK := True\<rparr>\<rparr>))
      | HsExit k \<Rightarrow> Some (goto t (resume c k) (s\<lparr>cf_running := None\<rparr>))
      | _ \<Rightarrow> None)"

definition read_step :: "('x) ccrypto_scheme \<Rightarrow> nat \<Rightarrow> place \<Rightarrow> Conf \<Rightarrow> Conf option" where
  "read_step X t p s =
     (let c = cf_conn s in
      case p of
        RdLock n \<Rightarrow> if cf_inMu s = None then Some (goto t (RdCheck n) (s\<lparr>cf_inMu := Some t\<rparr>)) else None
      | RdCheck n \<Rightarrow>
          if cn_closed c then Some (readReturns t (Inl (Sentinel ''errConnClosed'') :: bytes res) c s)
          else if length (cn_readBuf c) > 0 then
            Some (readReturns t (Inr (take n (cn_readBuf c))) (c\<lparr>cn_readBuf := drop n (cn_readBuf c)\<rparr>) s)
          else (case cn_readErr c of
                  Some e \<Rightarrow> Some (readReturns t (Inl e :: bytes res) c s)
                | None \<Rightarrow> Some (goto t (RdLoop n 0) s))
      | RdLoop n k \<Rightarrow>
          (case readIteration X n k c of
             (Inl k, c) \<Rightarrow> Some (goto t (RdLoop n k) (s\<lparr>cf_conn := c\<rparr>))
           | (Inr r, c) \<Rightarrow> Some (readReturns t r c s))
      | _ \<Rightarrow> None)"

definition write_step :: "('x) ccrypto_scheme \<Rightarrow> nat \<Rightarrow> place \<Rightarrow> Conf \<Rightarrow> Conf option" where
  "write_step X t p s =
     (let c = cf_conn s in
      case p of
        WrLock b \<Rightarrow> if cf_outMu s = None then Some (goto t (WrCheck b) (s\<lparr>cf_outMu := Some t\<rparr>)) else None
      | WrCheck b \<Rightarrow>
          if cn_closed c then Some (writeReturns t (Inl (Sentinel ''errConnClosed'') :: unit res) c s)
          else Some (goto t (WrLoop b) s)
      | WrLoop b \<Rightarrow>
          if length b > 0 then
            let chunk = (if length b > maxChunk then take maxChunk b else b) in
            case WriteRecord X ContentTypeApplicationData chunk (cn_layer c) of
              (r, l) \<Rightarrow>
                let s = s\<lparr>cf_log := cf_log s @ [Sent ContentTypeApplicationData chunk (l_sendProt (cn_layer c)) (written (cn_layer c) l)]\<rparr> in
                (case r of
                   Inl e \<Rightarrow> Some (writeReturns t (Inl e :: unit res) (c\<lparr>cn_layer := l\<rparr>) s)
                 | Inr _ \<Rightarrow> Some (goto t (WrLoop (drop (length chunk) b)) (s\<lparr>cf_conn := c\<lparr>cn_layer := l\<rparr>\<rparr>)))
          else Some (writeReturns t (Inr () :: unit res) c s)
      | _ \<Rightarrow> None)"

definition close_step :: "('x) ccrypto_scheme \<Rightarrow> nat \<Rightarrow> place \<Rightarrow> Conf \<Rightarrow> Conf option" where
  "close_step X t p s =
     (let c = cf_conn s in
      case p of
        ClSwap \<Rightarrow>
          if cn_closed c then Some (goto t Idle s)
          else Some (goto t ClLoad (s\<lparr>cf_conn := c\<lparr>cn_closed := True\<rparr>\<rparr>))
      | ClLoad \<Rightarrow> Some (goto t (if cn_handshakeOK c then ClTry else ClTransport) s)
      | ClTry \<Rightarrow>
          if cf_outMu s = None then Some (goto t ClDeadline (s\<lparr>cf_outMu := Some t\<rparr>))
          else Some (goto t ClTransport s)
      | ClDeadline \<Rightarrow> Some (goto t ClAlert (s\<lparr>cf_deadline := True\<rparr>))
      | ClAlert \<Rightarrow>
          (case sendCloseNotify X c of
             (r, c') \<Rightarrow>
               let alertBody = EncodeAlert AlertLevelWarning AlertCloseNotify;
                   s = s\<lparr>cf_log := cf_log s @ [Sent ContentTypeAlert alertBody (l_sendProt (cn_layer c)) (written (cn_layer c) (cn_layer c'))]\<rparr> in
               (case r of
                  Inl e \<Rightarrow> Some (goto t ClPanicked (s\<lparr>cf_conn := c', cf_panicked := True\<rparr>))
                | Inr _ \<Rightarrow> Some (goto t ClUnlock (s\<lparr>cf_conn := c'\<rparr>))))
      | ClUnlock \<Rightarrow> Some (goto t ClTransport (s\<lparr>cf_outMu := None\<rparr>))
      | ClTransport \<Rightarrow>
          Some (goto t Idle (s\<lparr>cf_conn := snd (closeTransport c), cf_log := cf_log s @ [TransportClosed]\<rparr>))
      | _ \<Rightarrow> None)"

text \<open>One step of goroutine \<open>t\<close>; idle goroutines and blocked ones have none.\<close>

definition thread_step :: "pemlib \<Rightarrow> ('x) ccrypto_scheme \<Rightarrow> nat \<Rightarrow> Conf \<Rightarrow> Conf option" where
  "thread_step P X t s =
     (case cf_pc s t of
        Idle \<Rightarrow> None
      | HsEnter k \<Rightarrow> handshake_step P X t (HsEnter k) s
      | HsCheck k \<Rightarrow> handshake_step P X t (HsCheck k) s
      | HsRun k \<Rightarrow> handshake_step P X t (HsRun k) s
      | HsStore k \<Rightarrow> handshake_step P X t (HsStore k) s
      | HsExit k \<Rightarrow> handshake_step P X t (HsExit k) s
      | RdLock n \<Rightarrow> read_step X t (RdLock n) s
      | RdCheck n \<Rightarrow> read_step X t (RdCheck n) s
      | RdLoop n k \<Rightarrow> read_step X t (RdLoop n k) s
      | WrLock b \<Rightarrow> write_step X t (WrLock b) s
      | WrCheck b \<Rightarrow> write_step X t (WrCheck b) s
      | WrLoop b \<Rightarrow> write_step X t (WrLoop b) s
      | p \<Rightarrow> close_step X t p s)"

text \<open>Calls on the transport that are under way, and when one does not return: \<open>net.Conn\<close> ends every
  call when it is closed, and a write when its deadline has passed.\<close>

fun pendingWrite :: "place \<Rightarrow> bool" where
  "pendingWrite (WrLoop b) = (b \<noteq> [])"
| "pendingWrite ClAlert = True"
| "pendingWrite _ = False"

fun pendingIO :: "place \<Rightarrow> bool" where
  "pendingIO (HsRun k) = True"
| "pendingIO (RdLoop n k) = True"
| "pendingIO _ = False"

definition hangs :: "nat \<Rightarrow> Conf \<Rightarrow> bool" where
  "hangs t s \<longleftrightarrow> cf_hung s t \<and> cn_closes (cf_conn s) = 0 \<and>
     (pendingIO (cf_pc s t) \<or> pendingWrite (cf_pc s t) \<and> \<not> cf_deadline s)"

definition stepped :: "pemlib \<Rightarrow> ('x) ccrypto_scheme \<Rightarrow> nat \<Rightarrow> Conf \<Rightarrow> Conf" where
  "stepped P X t s = (case thread_step P X t s of None \<Rightarrow> s | Some s' \<Rightarrow> s')"

text \<open>A schedule: goroutines start calls when idle and take steps; calls on the transport start and stop
  to hang.\<close>

datatype act = Invoke nat call | Run nat | Hang nat | Wake nat

fun exec :: "pemlib \<Rightarrow> ('x) ccrypto_scheme \<Rightarrow> act \<Rightarrow> Conf \<Rightarrow> Conf" where
  "exec P X (Invoke t k) s = (if cf_pc s t = Idle then goto t (entry k) s else s)"
| "exec P X (Run t) s = (if hangs t s then s else stepped P X t s)"
| "exec P X (Hang t) s = s\<lparr>cf_hung := (cf_hung s)(t := True)\<rparr>"
| "exec P X (Wake t) s = s\<lparr>cf_hung := (cf_hung s)(t := False)\<rparr>"

definition execs :: "pemlib \<Rightarrow> ('x) ccrypto_scheme \<Rightarrow> act list \<Rightarrow> Conf \<Rightarrow> Conf" where
  "execs P X acts s = fold (exec P X) acts s"

section \<open>The steps as a transition relation\<close>

abbreviation chunkOf :: "bytes \<Rightarrow> bytes" where
  "chunkOf b \<equiv> (if length b > maxChunk then take maxChunk b else b)"

abbreviation sent :: "byte \<Rightarrow> bytes \<Rightarrow> Layer \<Rightarrow> Conf \<Rightarrow> Conf" where
  "sent ct payload l s \<equiv> s\<lparr>cf_log := cf_log s @
     [Sent ct payload (l_sendProt (cn_layer (cf_conn s))) (written (cn_layer (cf_conn s)) l)]\<rparr>"

abbreviation shook :: "Conn \<Rightarrow> Conf \<Rightarrow> Conf" where
  "shook c s \<equiv> s\<lparr>cf_log := cf_log s @ [Shook (written (cn_layer (cf_conn s)) (cn_layer c))]\<rparr>"

inductive moves :: "pemlib \<Rightarrow> ('x) ccrypto_scheme \<Rightarrow> nat \<Rightarrow> Conf \<Rightarrow> Conf \<Rightarrow> bool" for P X t where
  hs_start: "cf_pc s t = HsEnter k \<Longrightarrow> \<not> cn_once (cf_conn s) \<Longrightarrow>
    moves P X t s (goto t (HsCheck k) (s\<lparr>cf_conn := (cf_conn s)\<lparr>cn_once := True\<rparr>, cf_running := Some t\<rparr>))"
| hs_done: "cf_pc s t = HsEnter k \<Longrightarrow> cn_once (cf_conn s) \<Longrightarrow> cf_running s = None \<Longrightarrow>
    moves P X t s (goto t (resume (cf_conn s) k) s)"
| hs_closed: "cf_pc s t = HsCheck k \<Longrightarrow> cn_closed (cf_conn s) \<Longrightarrow>
    moves P X t s (goto t (HsExit k) (s\<lparr>cf_conn := (cf_conn s)\<lparr>cn_handshakeErr := Some (Sentinel ''errConnClosed'')\<rparr>\<rparr>))"
| hs_open: "cf_pc s t = HsCheck k \<Longrightarrow> \<not> cn_closed (cf_conn s) \<Longrightarrow> moves P X t s (goto t (HsRun k) s)"
| hs_ok: "cf_pc s t = HsRun k \<Longrightarrow> doHandshake P X (cf_conn s) = (Inr (), c) \<Longrightarrow>
    moves P X t s (goto t (HsStore k) ((shook c s)\<lparr>cf_conn := c\<rparr>))"
| hs_panic: "cf_pc s t = HsRun k \<Longrightarrow> doHandshake P X (cf_conn s) = (Inl e, c) \<Longrightarrow> panicked e \<Longrightarrow>
    moves P X t s (goto t Idle ((shook c s)\<lparr>cf_conn := c, cf_running := None, cf_panicked := True\<rparr>))"
| hs_fail: "cf_pc s t = HsRun k \<Longrightarrow> doHandshake P X (cf_conn s) = (Inl e, c) \<Longrightarrow> \<not> panicked e \<Longrightarrow>
    moves P X t s (goto t (HsExit k) ((shook c s)\<lparr>cf_conn := c\<lparr>cn_handshakeErr := Some e\<rparr>\<rparr>))"
| hs_store: "cf_pc s t = HsStore k \<Longrightarrow>
    moves P X t s (goto t (HsExit k) (s\<lparr>cf_conn := (cf_conn s)\<lparr>cn_handshakeOK := True\<rparr>\<rparr>))"
| hs_exit: "cf_pc s t = HsExit k \<Longrightarrow>
    moves P X t s (goto t (resume (cf_conn s) k) (s\<lparr>cf_running := None\<rparr>))"
| rd_lock: "cf_pc s t = RdLock n \<Longrightarrow> cf_inMu s = None \<Longrightarrow> moves P X t s (goto t (RdCheck n) (s\<lparr>cf_inMu := Some t\<rparr>))"
| rd_return: "cf_pc s t = RdCheck n \<Longrightarrow> moves P X t s (readReturns t (r :: bytes res) ((cf_conn s)\<lparr>cn_readBuf := b\<rparr>) s)"
| rd_enter: "cf_pc s t = RdCheck n \<Longrightarrow> moves P X t s (goto t (RdLoop n 0) s)"
| rd_again: "cf_pc s t = RdLoop n k \<Longrightarrow> readIteration X n k (cf_conn s) = (Inl k', c) \<Longrightarrow>
    moves P X t s (goto t (RdLoop n k') (s\<lparr>cf_conn := c\<rparr>))"
| rd_result: "cf_pc s t = RdLoop n k \<Longrightarrow> readIteration X n k (cf_conn s) = (Inr r, c) \<Longrightarrow> moves P X t s (readReturns t r c s)"
| wr_lock: "cf_pc s t = WrLock b \<Longrightarrow> cf_outMu s = None \<Longrightarrow> moves P X t s (goto t (WrCheck b) (s\<lparr>cf_outMu := Some t\<rparr>))"
| wr_closed: "cf_pc s t = WrCheck b \<Longrightarrow> cn_closed (cf_conn s) \<Longrightarrow>
    moves P X t s (writeReturns t (Inl (Sentinel ''errConnClosed'') :: unit res) (cf_conn s) s)"
| wr_enter: "cf_pc s t = WrCheck b \<Longrightarrow> \<not> cn_closed (cf_conn s) \<Longrightarrow> moves P X t s (goto t (WrLoop b) s)"
| wr_fail: "cf_pc s t = WrLoop b \<Longrightarrow> WriteRecord X ContentTypeApplicationData (chunkOf b) (cn_layer (cf_conn s)) = (Inl e, l) \<Longrightarrow>
    moves P X t s (writeReturns t (Inl e :: unit res) ((cf_conn s)\<lparr>cn_layer := l\<rparr>) (sent ContentTypeApplicationData (chunkOf b) l s))"
| wr_chunk: "cf_pc s t = WrLoop b \<Longrightarrow> WriteRecord X ContentTypeApplicationData (chunkOf b) (cn_layer (cf_conn s)) = (Inr (), l) \<Longrightarrow>
    moves P X t s (goto t (WrLoop (drop (length (chunkOf b)) b))
      ((sent ContentTypeApplicationData (chunkOf b) l s)\<lparr>cf_conn := (cf_conn s)\<lparr>cn_layer := l\<rparr>\<rparr>))"
| wr_done: "cf_pc s t = WrLoop [] \<Longrightarrow> moves P X t s (writeReturns t (Inr () :: unit res) (cf_conn s) s)"
| cl_again: "cf_pc s t = ClSwap \<Longrightarrow> cn_closed (cf_conn s) \<Longrightarrow> moves P X t s (goto t Idle s)"
| cl_swap: "cf_pc s t = ClSwap \<Longrightarrow> \<not> cn_closed (cf_conn s) \<Longrightarrow>
    moves P X t s (goto t ClLoad (s\<lparr>cf_conn := (cf_conn s)\<lparr>cn_closed := True\<rparr>\<rparr>))"
| cl_load: "cf_pc s t = ClLoad \<Longrightarrow> cn_handshakeOK (cf_conn s) \<Longrightarrow> moves P X t s (goto t ClTry s)"
| cl_skip: "cf_pc s t = ClLoad \<Longrightarrow> \<not> cn_handshakeOK (cf_conn s) \<Longrightarrow> moves P X t s (goto t ClTransport s)"
| cl_try: "cf_pc s t = ClTry \<Longrightarrow> cf_outMu s = None \<Longrightarrow> moves P X t s (goto t ClDeadline (s\<lparr>cf_outMu := Some t\<rparr>))"
| cl_deadline: "cf_pc s t = ClDeadline \<Longrightarrow> moves P X t s (goto t ClAlert (s\<lparr>cf_deadline := True\<rparr>))"
| cl_busy: "cf_pc s t = ClTry \<Longrightarrow> cf_outMu s \<noteq> None \<Longrightarrow> moves P X t s (goto t ClTransport s)"
| cl_alert: "cf_pc s t = ClAlert \<Longrightarrow> sendCloseNotify X (cf_conn s) = (Inr (), c) \<Longrightarrow>
    moves P X t s (goto t ClUnlock ((sent ContentTypeAlert (EncodeAlert AlertLevelWarning AlertCloseNotify) (cn_layer c) s)\<lparr>cf_conn := c\<rparr>))"
| cl_panic: "cf_pc s t = ClAlert \<Longrightarrow> sendCloseNotify X (cf_conn s) = (Inl e, c) \<Longrightarrow>
    moves P X t s (goto t ClPanicked ((sent ContentTypeAlert (EncodeAlert AlertLevelWarning AlertCloseNotify) (cn_layer c) s)\<lparr>cf_conn := c, cf_panicked := True\<rparr>))"
| cl_unlock: "cf_pc s t = ClUnlock \<Longrightarrow> moves P X t s (goto t ClTransport (s\<lparr>cf_outMu := None\<rparr>))"
| cl_transport: "cf_pc s t = ClTransport \<Longrightarrow>
    moves P X t s (goto t Idle (s\<lparr>cf_conn := snd (closeTransport (cf_conn s)), cf_log := cf_log s @ [TransportClosed]\<rparr>))"

lemma handshake_step_moves: "cf_pc s t = p \<Longrightarrow> handshake_step P X t p s = Some s' \<Longrightarrow> moves P X t s s'"
  unfolding handshake_step_def Let_def
  by (cases p) (auto intro: moves.intros split: if_splits prod.splits sum.splits)

lemma read_step_moves: "cf_pc s t = p \<Longrightarrow> read_step X t p s = Some s' \<Longrightarrow> moves P X t s s'"
proof (cases p)
  case (RdCheck n)
  assume p: "cf_pc s t = p" and st: "read_step X t p s = Some s'"
  note ret = rd_return [OF p [unfolded RdCheck]]
  have same: "moves P X t s (readReturns t r (cf_conn s) s)" for r :: "bytes res"
    using ret [of P X r "cn_readBuf (cf_conn s)"] by simp
  show ?thesis
  proof (cases "cn_closed (cf_conn s) \<or> cn_readBuf (cf_conn s) \<noteq> []")
    case True
    then show ?thesis using st RdCheck same ret by (auto simp: read_step_def Let_def split: if_splits)
  next
    case False
    then show ?thesis using p st RdCheck same by (auto simp: read_step_def Let_def intro: rd_enter split: option.splits)
  qed
qed (auto simp: read_step_def Let_def intro: moves.intros split: if_splits prod.splits sum.splits)

lemma write_step_moves: "cf_pc s t = p \<Longrightarrow> write_step X t p s = Some s' \<Longrightarrow> moves P X t s s'"
proof (cases p)
  case (WrLoop b)
  assume p: "cf_pc s t = p" and st: "write_step X t p s = Some s'"
  obtain r l where w: "WriteRecord X ContentTypeApplicationData (chunkOf b) (cn_layer (cf_conn s)) = (r, l)" by fastforce
  show ?thesis
  proof (cases "b = []")
    case True
    then show ?thesis using p st WrLoop by (auto simp: write_step_def intro: wr_done)
  next
    case False
    note st = st [unfolded WrLoop write_step_def Let_def, simplified, unfolded w, simplified False]
    show ?thesis
    proof (cases r)
      case (Inl e)
      then show ?thesis using st wr_fail [OF p [unfolded WrLoop] w [unfolded Inl]] by simp
    next
      case (Inr u)
      then show ?thesis using st wr_chunk [OF p [unfolded WrLoop], of X l P] w by simp
    qed
  qed
qed (auto simp: write_step_def Let_def intro: moves.intros split: if_splits)

lemma close_step_moves: "cf_pc s t = p \<Longrightarrow> close_step X t p s = Some s' \<Longrightarrow> moves P X t s s'"
  unfolding close_step_def Let_def
  by (cases p) (auto intro: moves.intros split: if_splits prod.splits sum.splits)

lemma goto_fields [simp]:
  "cf_pc (goto t p s) = (cf_pc s)(t := p)" "cf_conn (goto t p s) = cf_conn s" "cf_running (goto t p s) = cf_running s"
  "cf_inMu (goto t p s) = cf_inMu s" "cf_outMu (goto t p s) = cf_outMu s" "cf_log (goto t p s) = cf_log s"
  "cf_panicked (goto t p s) = cf_panicked s" "cf_deadline (goto t p s) = cf_deadline s" "cf_hung (goto t p s) = cf_hung s"
  by (simp_all add: goto_def)

lemma returns_fields [simp]:
  "cf_pc (readReturns t r c s) = (cf_pc s)(t := Idle)" "cf_conn (readReturns t r c s) = c" "cf_running (readReturns t r c s) = cf_running s"
  "cf_inMu (readReturns t r c s) = None" "cf_outMu (readReturns t r c s) = cf_outMu s" "cf_log (readReturns t r c s) = cf_log s"
  "cf_panicked (readReturns t r c s) = (cf_panicked s \<or> isPanic r)"
  "cf_deadline (readReturns t r c s) = cf_deadline s" "cf_deadline (writeReturns t r c s) = cf_deadline s"
  "cf_pc (writeReturns t r c s) = (cf_pc s)(t := Idle)" "cf_conn (writeReturns t r c s) = c" "cf_running (writeReturns t r c s) = cf_running s"
  "cf_inMu (writeReturns t r c s) = cf_inMu s" "cf_outMu (writeReturns t r c s) = None" "cf_log (writeReturns t r c s) = cf_log s"
  "cf_panicked (writeReturns t r c s) = (cf_panicked s \<or> isPanic r)"
  by (simp_all add: readReturns_def writeReturns_def)

lemma thread_step_moves: "thread_step P X t s = Some s' \<Longrightarrow> moves P X t s s'"
  unfolding thread_step_def
  by (cases "cf_pc s t") (auto intro: handshake_step_moves read_step_moves write_step_moves close_step_moves)

section \<open>The locks\<close>

fun holdsOut :: "place \<Rightarrow> bool" where
  "holdsOut (WrCheck b) = True"
| "holdsOut (WrLoop b) = True"
| "holdsOut ClDeadline = True"
| "holdsOut ClAlert = True"
| "holdsOut ClUnlock = True"
| "holdsOut ClPanicked = True"
| "holdsOut _ = False"

fun holdsIn :: "place \<Rightarrow> bool" where
  "holdsIn (RdCheck n) = True"
| "holdsIn (RdLoop n k) = True"
| "holdsIn _ = False"

fun runsOnce :: "place \<Rightarrow> bool" where
  "runsOnce (HsCheck k) = True"
| "runsOnce (HsRun k) = True"
| "runsOnce (HsStore k) = True"
| "runsOnce (HsExit k) = True"
| "runsOnce _ = False"

definition locks_inv :: "Conf \<Rightarrow> bool" where
  "locks_inv s \<longleftrightarrow>
     (\<forall>t. holdsOut (cf_pc s t) \<longleftrightarrow> cf_outMu s = Some t) \<and> (\<forall>t. holdsIn (cf_pc s t) \<longleftrightarrow> cf_inMu s = Some t) \<and>
     (\<forall>t. runsOnce (cf_pc s t) \<longleftrightarrow> cf_running s = Some t)"

lemma proceed_places [simp]:
  "\<not> holdsOut (proceed k)" "\<not> holdsIn (proceed k)" "\<not> runsOnce (proceed k)"
  "\<not> holdsOut (entry k)" "\<not> holdsIn (entry k)" "\<not> runsOnce (entry k)"
  by (cases k; simp)+

text \<open>What a step of a goroutine does to a lock, seen from the places it leaves and reaches.\<close>

definition lockMoves :: "nat \<Rightarrow> bool \<Rightarrow> bool \<Rightarrow> nat option \<Rightarrow> nat option \<Rightarrow> bool" where
  "lockMoves t before after owner owner' \<longleftrightarrow>
     (if before = after then owner' = owner else if after then owner = None \<and> owner' = Some t else owner' = None)"

lemma lockMoves_owner:
  assumes "lockMoves t (h p) (h p') owner owner'" "pc t = p" "\<forall>u. h (pc u) \<longleftrightarrow> owner = Some u"
  shows "h ((pc(t := p')) u) \<longleftrightarrow> owner' = Some u"
  using assms by (auto simp: lockMoves_def split: if_splits)


lemma moves_pc: "moves P X t s s' \<Longrightarrow> cf_pc s' = (cf_pc s)(t := cf_pc s' t)"
  by (erule moves.cases) simp_all

lemma resume_places [simp]: "\<not> holdsOut (resume c k)" "\<not> holdsIn (resume c k)" "\<not> runsOnce (resume c k)"
  by (simp_all add: resume_def)

lemma moves_locks:
  assumes "moves P X t s s'"
  shows "lockMoves t (holdsOut (cf_pc s t)) (holdsOut (cf_pc s' t)) (cf_outMu s) (cf_outMu s')"
    and "lockMoves t (holdsIn (cf_pc s t)) (holdsIn (cf_pc s' t)) (cf_inMu s) (cf_inMu s')"
    and "cn_once (cf_conn s) \<or> cf_running s = None \<Longrightarrow>
      lockMoves t (runsOnce (cf_pc s t)) (runsOnce (cf_pc s' t)) (cf_running s) (cf_running s')"
  using assms by (cases rule: moves.cases; simp add: lockMoves_def)+

lemma locks_inv_moves:
  assumes "moves P X t s s'" "locks_inv s" "cn_once (cf_conn s) \<or> cf_running s = None"
  shows "locks_inv s'"
  using moves_locks [OF assms(1)] assms(2,3) lockMoves_owner [of t holdsOut "cf_pc s t" "cf_pc s' t" "cf_outMu s" "cf_outMu s'" "cf_pc s"]
    lockMoves_owner [of t holdsIn "cf_pc s t" "cf_pc s' t" "cf_inMu s" "cf_inMu s'" "cf_pc s"]
    lockMoves_owner [of t runsOnce "cf_pc s t" "cf_pc s' t" "cf_running s" "cf_running s'" "cf_pc s"]
  unfolding locks_inv_def by (subst (1 2 3) moves_pc [OF assms(1)]) blast

section \<open>The handshake is complete before data flows\<close>

lemma readIteration_eq:
  assumes "readIteration X n k c = (r, c')"
  shows "\<exists>l b e. c' = c\<lparr>cn_layer := l, cn_readBuf := b, cn_readErr := e\<rparr> \<and> guarded l = guarded (cn_layer c)"
proof -
  obtain q l where rd: "ReadRecord X (cn_layer c) = (q, l)" by fastforce
  obtain e where al: "readAlert p (c\<lparr>cn_layer := l\<rparr>) = (Inl (e p), c\<lparr>cn_layer := l, cn_readErr := Some (e p)\<rparr>)" for p
    using readAlert_eq [of _ "c\<lparr>cn_layer := l\<rparr>"] by metis
  have "\<exists>b e. c' = c\<lparr>cn_layer := l, cn_readBuf := b, cn_readErr := e\<rparr>"
  proof (cases "\<exists>b. c' = c\<lparr>cn_layer := l, cn_readBuf := b\<rparr>")
    case True
    then obtain b where "c' = c\<lparr>cn_layer := l, cn_readBuf := b, cn_readErr := cn_readErr c\<rparr>" by auto
    then show ?thesis by blast
  next
    case False
    have "c' \<noteq> c\<lparr>cn_layer := l\<rparr>" using False [simplified not_ex, THEN spec, of "cn_readBuf c"] by simp
    with False obtain e where "c' = c\<lparr>cn_layer := l, cn_readErr := e\<rparr>"
      using assms rd al by (auto simp: readIteration_def failRead_def split: sum.splits if_splits)
    then have "c' = c\<lparr>cn_layer := l, cn_readBuf := cn_readBuf c, cn_readErr := e\<rparr>" by simp
    then show ?thesis by blast
  qed
  then show ?thesis using ReadRecord_guarded [OF rd] by blast
qed

fun beyond :: "place \<Rightarrow> bool" where
  "beyond (RdLock n) = True"
| "beyond (RdCheck n) = True"
| "beyond (RdLoop n k) = True"
| "beyond (WrLock b) = True"
| "beyond (WrCheck b) = True"
| "beyond (WrLoop b) = True"
| "beyond _ = False"

fun notifying :: "place \<Rightarrow> bool" where
  "notifying ClTry = True"
| "notifying ClDeadline = True"
| "notifying ClAlert = True"
| "notifying ClUnlock = True"
| "notifying _ = False"

text \<open>What each place promises about the handshake.\<close>

definition place_ok :: "Conf \<Rightarrow> place \<Rightarrow> bool" where
  "place_ok s p \<longleftrightarrow>
     (let c = cf_conn s in
      (case p of
         HsCheck k \<Rightarrow> cn_handshakeErr c = None \<and> \<not> cn_handshakeOK c
       | HsRun k \<Rightarrow> cn_handshakeErr c = None \<and> \<not> cn_handshakeOK c
       | HsStore k \<Rightarrow> cn_handshakeErr c = None \<and> guarded (cn_layer c)
       | HsExit k \<Rightarrow> cn_handshakeErr c = None \<longrightarrow> cn_handshakeOK c
       | _ \<Rightarrow> True) \<and>
      (beyond p \<longrightarrow> cn_once c \<and> cf_running s = None \<and> cn_handshakeErr c = None) \<and>
      (notifying p \<longrightarrow> cn_handshakeOK c))"

definition shake_inv :: "Conf \<Rightarrow> bool" where
  "shake_inv s \<longleftrightarrow>
     (let c = cf_conn s in
      (cf_running s \<noteq> None \<longrightarrow> cn_once c) \<and> (\<not> cn_once c \<longrightarrow> cn_handshakeErr c = None \<and> \<not> cn_handshakeOK c) \<and>
      (cn_handshakeOK c \<longrightarrow> cn_handshakeErr c = None \<and> guarded (cn_layer c)) \<and>
      (cn_once c \<and> cf_running s = None \<and> cn_handshakeErr c = None \<and> \<not> cf_panicked s \<longrightarrow> cn_handshakeOK c))
     \<and> (\<forall>t. place_ok s (cf_pc s t))"

text \<open>Reading, writing and closing leave what the handshake established.\<close>

definition same_shake :: "Conf \<Rightarrow> Conf \<Rightarrow> bool" where
  "same_shake s s' \<longleftrightarrow>
     cn_once (cf_conn s') = cn_once (cf_conn s) \<and> cn_handshakeErr (cf_conn s') = cn_handshakeErr (cf_conn s) \<and>
     cn_handshakeOK (cf_conn s') = cn_handshakeOK (cf_conn s) \<and> guarded (cn_layer (cf_conn s')) = guarded (cn_layer (cf_conn s)) \<and>
     cf_running s' = cf_running s \<and> (cf_panicked s \<longrightarrow> cf_panicked s')"

lemma place_ok_same: "same_shake s s' \<Longrightarrow> place_ok s' p \<longleftrightarrow> place_ok s p"
  by (simp add: same_shake_def place_ok_def Let_def cong: place.case_cong)

lemma shake_inv_same:
  assumes "same_shake s s'" "shake_inv s" "cf_pc s' = (cf_pc s)(t := p)" "place_ok s p"
  shows "shake_inv s'"
  using assms(2-4) place_ok_same [OF assms(1)] assms(1) unfolding shake_inv_def Let_def same_shake_def by auto

lemma place_ok_trivial [simp]: "place_ok s Idle" "place_ok s (HsEnter k)" "place_ok s ClSwap" "place_ok s ClLoad" "place_ok s ClTransport" "place_ok s ClPanicked"
  by (simp_all add: place_ok_def)

lemma place_ok_beyond: "beyond p \<Longrightarrow> place_ok s p \<longleftrightarrow> cn_once (cf_conn s) \<and> cf_running s = None \<and> cn_handshakeErr (cf_conn s) = None"
  by (cases p) (simp_all add: place_ok_def Let_def)

lemma place_ok_notifying: "notifying p \<Longrightarrow> place_ok s p \<longleftrightarrow> cn_handshakeOK (cf_conn s)"
  by (cases p) (simp_all add: place_ok_def Let_def)

lemma place_ok_HsRun: "place_ok s (HsRun k) \<Longrightarrow> \<not> cn_handshakeOK (cf_conn s)"
  by (simp add: place_ok_def Let_def)

lemma place_ok_resume: "place_ok s (resume (cf_conn s) k) \<longleftrightarrow> beyond (resume (cf_conn s) k) \<longrightarrow> cn_once (cf_conn s) \<and> cf_running s = None"
  by (cases k) (auto simp: resume_def place_ok_beyond)

lemma closeTransport_conn: "snd (closeTransport c) = c\<lparr>cn_closes := Suc (cn_closes c)\<rparr>"
  by (simp add: closeTransport_def split: option.split)

lemma shake_inv_transfer:
  assumes "moves P X t s s'" "shake_inv s" "\<not> runsOnce (cf_pc s t)" "\<And>k. cf_pc s t \<noteq> HsEnter k"
  shows "shake_inv s'"
proof -
  have ok: "place_ok s (cf_pc s t)" using assms(2) unfolding shake_inv_def by blast
  have "same_shake s s' \<and> (\<exists>p. cf_pc s' = (cf_pc s)(t := p) \<and> place_ok s p)"
    using assms(1,3,4) ok
  proof cases
    case (rd_again n k k' c)
    then show ?thesis using ok readIteration_eq [OF rd_again(3)] by (auto simp: same_shake_def place_ok_beyond)
  next
    case (rd_result n k r c)
    then show ?thesis using ok readIteration_eq [OF rd_result(3)] by (auto simp: same_shake_def)
  next
    case (wr_fail b e l)
    then show ?thesis using WriteRecord_guarded [OF wr_fail(3)] by (auto simp: same_shake_def)
  next
    case (wr_chunk b l)
    then show ?thesis using ok WriteRecord_guarded [OF wr_chunk(3)] by (auto simp: same_shake_def place_ok_beyond)
  next
    case (cl_alert c)
    then show ?thesis using ok sendCloseNotify_eq [OF cl_alert(3)] by (auto simp: same_shake_def place_ok_notifying)
  next
    case (cl_panic e c)
    then show ?thesis using ok sendCloseNotify_eq [OF cl_panic(3)] by (auto simp: same_shake_def)
  qed (auto simp: same_shake_def place_ok_beyond place_ok_notifying closeTransport_conn)
  then show ?thesis using shake_inv_same [OF _ assms(2)] by blast
qed

text \<open>While the once function runs, no other goroutine is past it.\<close>

lemma shake_inv_others:
  assumes "shake_inv s" "locks_inv s" "cf_running s = Some t \<or> \<not> cn_once (cf_conn s)" "u \<noteq> t"
  shows "\<not> runsOnce (cf_pc s u)" "\<not> beyond (cf_pc s u)"
proof -
  have "place_ok s (cf_pc s u)" using assms(1) unfolding shake_inv_def by blast
  then show "\<not> beyond (cf_pc s u)" using assms(3) by (auto simp: place_ok_beyond)
  have "cf_running s \<noteq> None \<longrightarrow> cn_once (cf_conn s)" using assms(1) unfolding shake_inv_def Let_def by blast
  then show "\<not> runsOnce (cf_pc s u)" using assms(2-4) unfolding locks_inv_def by auto
qed

lemma place_ok_other:
  assumes "\<not> runsOnce p" "\<not> beyond p"
  shows "place_ok s p \<longleftrightarrow> notifying p \<longrightarrow> cn_handshakeOK (cf_conn s)"
  using assms by (cases p) (simp_all add: place_ok_def Let_def)

lemma shake_inv_once:
  assumes "moves P X t s s'" "shake_inv s" "locks_inv s" "runsOnce (cf_pc s t) \<or> (\<exists>k. cf_pc s t = HsEnter k \<and> \<not> cn_once (cf_conn s))"
  shows "shake_inv s'"
proof -
  have r: "runsOnce (cf_pc s t) \<longrightarrow> cf_running s = Some t" using assms(3) unfolding locks_inv_def by blast
  then have t: "cf_running s = Some t \<or> \<not> cn_once (cf_conn s)" using assms(4) by blast
  have ok: "place_ok s (cf_pc s u)" for u using assms(2) unfolding shake_inv_def by blast
  have others: "place_ok s' (cf_pc s u) \<longleftrightarrow> notifying (cf_pc s u) \<longrightarrow> cn_handshakeOK (cf_conn s')" "notifying (cf_pc s u) \<Longrightarrow> cn_handshakeOK (cf_conn s)" if "u \<noteq> t" for u
    using place_ok_other [OF shake_inv_others [OF assms(2,3) t that]] ok [of u] by blast+
  have g: "cf_running s \<noteq> None \<longrightarrow> cn_once (cf_conn s)" "\<not> cn_once (cf_conn s) \<longrightarrow> cn_handshakeErr (cf_conn s) = None \<and> \<not> cn_handshakeOK (cf_conn s)"
    "cn_handshakeOK (cf_conn s) \<longrightarrow> cn_handshakeErr (cf_conn s) = None \<and> guarded (cn_layer (cf_conn s))"
    using assms(2) unfolding shake_inv_def Let_def by blast+
  have "place_ok s' (cf_pc s' t) \<and> (cn_handshakeOK (cf_conn s) \<longrightarrow> cn_handshakeOK (cf_conn s')) \<and> cn_once (cf_conn s') \<and>
      (cn_handshakeOK (cf_conn s') \<longrightarrow> cn_handshakeErr (cf_conn s') = None \<and> guarded (cn_layer (cf_conn s'))) \<and>
      (cf_running s' = None \<and> cn_handshakeErr (cf_conn s') = None \<and> \<not> cf_panicked s' \<longrightarrow> cn_handshakeOK (cf_conn s'))"
    using assms(1)
  proof cases
    case (hs_ok k c)
    then show ?thesis using ok [of t] r g by (auto simp: place_ok_def Let_def elim!: doHandshake_eq)
  next
    case (hs_panic k e c)
    then show ?thesis using ok [of t] r g by (auto simp: place_ok_def Let_def elim!: doHandshake_eq)
  next
    case (hs_fail k e c)
    then show ?thesis using ok [of t] r g by (auto simp: place_ok_def Let_def elim!: doHandshake_eq)
  next
    case (hs_exit k)
    then have "place_ok s' (resume (cf_conn s') k)" using place_ok_resume [of s' k] r g by simp
    then show ?thesis using ok [of t] r g hs_exit by (auto simp: place_ok_def [of s "HsExit k"] Let_def)
  qed (use ok [of t] r g assms(4) in \<open>auto simp: place_ok_def Let_def\<close>)
  moreover from this have "place_ok s' (cf_pc s' u)" for u
    using others [of u] by (cases "u = t") (simp, subst moves_pc [OF assms(1)], simp)
  ultimately show ?thesis unfolding shake_inv_def Let_def by simp
qed

lemma shake_inv_moves:
  assumes "moves P X t s s'" "shake_inv s" "locks_inv s"
  shows "shake_inv s'"
proof (cases "runsOnce (cf_pc s t) \<or> (\<exists>k. cf_pc s t = HsEnter k \<and> \<not> cn_once (cf_conn s))")
  case True
  then show ?thesis by (rule shake_inv_once [OF assms])
next
  case False
  show ?thesis
  proof (cases "\<exists>k. cf_pc s t = HsEnter k")
    case True
    then obtain k where k: "cf_pc s t = HsEnter k" "cn_once (cf_conn s)" using False by blast
    with assms(1) have s': "cf_running s = None" "s' = goto t (resume (cf_conn s) k) s" by (auto elim: moves.cases)
    have "same_shake s s'" by (simp add: s' same_shake_def)
    then show ?thesis using shake_inv_same [OF _ assms(2)] s' k(2) place_ok_resume [of s k] by simp
  next
    case no: False
    then show ?thesis using shake_inv_transfer [OF assms(1,2)] False by blast
  qed
qed

section \<open>One close, and nothing after its notification\<close>

fun closing :: "place \<Rightarrow> bool" where
  "closing ClLoad = True"
| "closing ClTry = True"
| "closing ClDeadline = True"
| "closing ClAlert = True"
| "closing ClUnlock = True"
| "closing ClTransport = True"
| "closing ClPanicked = True"
| "closing _ = False"

fun mayNotify :: "place \<Rightarrow> bool" where
  "mayNotify ClLoad = True"
| "mayNotify ClTry = True"
| "mayNotify ClDeadline = True"
| "mayNotify ClAlert = True"
| "mayNotify _ = False"

fun sending :: "place \<Rightarrow> bool" where
  "sending (WrLoop b) = True"
| "sending _ = False"

definition close_inv :: "Conf \<Rightarrow> bool" where
  "close_inv s \<longleftrightarrow>
     (\<forall>t. closing (cf_pc s t) \<longrightarrow> cn_closed (cf_conn s) \<and> cn_closes (cf_conn s) = 0) \<and>
     (\<forall>t u. closing (cf_pc s t) \<and> closing (cf_pc s u) \<longrightarrow> t = u) \<and>
     cn_closes (cf_conn s) \<le> 1 \<and> (cn_closes (cf_conn s) = 1 \<longrightarrow> cn_closed (cf_conn s)) \<and>
     cn_closes (cf_conn s) = length (filter (\<lambda>e. e = TransportClosed) (cf_log s))"

text \<open>How a step changes what the invariant is about.\<close>

lemma moves_close:
  assumes "moves P X t s s'"
  shows "cn_closed (cf_conn s') = (cn_closed (cf_conn s) \<or> cf_pc s t = ClSwap)"
    and "cn_closes (cf_conn s') = (if cf_pc s t = ClTransport then Suc (cn_closes (cf_conn s)) else cn_closes (cf_conn s))"
    and "closing (cf_pc s' t) = (if cf_pc s t = ClSwap then \<not> cn_closed (cf_conn s) else closing (cf_pc s t) \<and> cf_pc s t \<noteq> ClTransport)"
    and "filter (\<lambda>e. e = TransportClosed) (cf_log s') = filter (\<lambda>e. e = TransportClosed) (cf_log s) @ (if cf_pc s t = ClTransport then [TransportClosed] else [])"
proof -
  have c: "cn_closed c' = cn_closed c \<and> cn_closes c' = cn_closes c" if "doHandshake P X c = (res, c')" for c c' res
    using that by (auto elim: doHandshake_eq)
  have r: "cn_closed c' = cn_closed c \<and> cn_closes c' = cn_closes c" if "readIteration X n k c = (res, c')" for n k c c' res
    using readIteration_eq [OF that] by auto
  have n: "cn_closed c' = cn_closed c \<and> cn_closes c' = cn_closes c" if "sendCloseNotify X c = (res, c')" for c c' res
    using sendCloseNotify_eq [OF that] by auto
  have p: "\<not> closing (resume c k)" for c k by (cases k) (simp_all add: resume_def)
  show "cn_closed (cf_conn s') = (cn_closed (cf_conn s) \<or> cf_pc s t = ClSwap)"
    using assms by cases (auto simp: closeTransport_conn dest: c r n)
  show "cn_closes (cf_conn s') = (if cf_pc s t = ClTransport then Suc (cn_closes (cf_conn s)) else cn_closes (cf_conn s))"
    using assms by cases (auto simp: closeTransport_conn dest: c r n)
  show "closing (cf_pc s' t) = (if cf_pc s t = ClSwap then \<not> cn_closed (cf_conn s) else closing (cf_pc s t) \<and> cf_pc s t \<noteq> ClTransport)"
    using assms by cases (auto simp: p)
  show "filter (\<lambda>e. e = TransportClosed) (cf_log s') =
      filter (\<lambda>e. e = TransportClosed) (cf_log s) @ (if cf_pc s t = ClTransport then [TransportClosed] else [])"
    using assms by cases auto
qed

lemma close_inv_moves:
  assumes "moves P X t s s'" "close_inv s"
  shows "close_inv s'"
proof -
  note m = moves_close [OF assms(1)]
  have pc: "closing (cf_pc s' u) = (if u = t then closing (cf_pc s' t) else closing (cf_pc s u))" for u
    by (subst moves_pc [OF assms(1)]) simp
  have i: "\<And>u. closing (cf_pc s u) \<Longrightarrow> cn_closed (cf_conn s) \<and> cn_closes (cf_conn s) = 0"
    "\<And>u v. closing (cf_pc s u) \<Longrightarrow> closing (cf_pc s v) \<Longrightarrow> u = v"
    "cn_closes (cf_conn s) \<le> 1" "cn_closes (cf_conn s) = 1 \<Longrightarrow> cn_closed (cf_conn s)"
    "cn_closes (cf_conn s) = length (filter (\<lambda>e. e = TransportClosed) (cf_log s))"
    using assms(2) unfolding close_inv_def by blast+
  consider (transport) "cf_pc s t = ClTransport" | (swap) "cf_pc s t = ClSwap" "\<not> cn_closed (cf_conn s)"
    | (other) "cf_pc s t \<noteq> ClTransport" "cf_pc s t = ClSwap \<longrightarrow> cn_closed (cf_conn s)" by blast
  then show ?thesis
  proof cases
    case transport
    then have "closing (cf_pc s t)" by simp
    from i(1) [OF this] have c: "cn_closed (cf_conn s)" "cn_closes (cf_conn s) = 0" by simp_all
    have "\<not> closing (cf_pc s' u)" for u using i(2) [of t u] m(3) pc [of u] transport by (cases "u = t") auto
    then show ?thesis using c m(1,2,4) i(5) transport unfolding close_inv_def by simp
  next
    case swap
    have "\<not> closing (cf_pc s u)" for u using i(1) swap(2) by blast
    then have k: "closing (cf_pc s' u) \<longleftrightarrow> u = t" for u using pc [of u] m(3) swap by simp
    have "cn_closes (cf_conn s) = 0" using i(3,4) swap(2) by (cases "cn_closes (cf_conn s)") auto
    then show ?thesis using m(1,2,4) i(5) swap k unfolding close_inv_def by simp
  next
    case other
    then have "closing (cf_pc s' t) = closing (cf_pc s t)" using m(3) by (simp split: if_splits)
    then have k: "closing (cf_pc s' u) = closing (cf_pc s u)" for u using pc [of u] by simp
    have e1: "cn_closed (cf_conn s') = cn_closed (cf_conn s)" using m(1) other(2) by auto
    have e2: "cn_closes (cf_conn s') = cn_closes (cf_conn s)" using m(2) other(1) by simp
    have e3: "filter (\<lambda>e. e = TransportClosed) (cf_log s') = filter (\<lambda>e. e = TransportClosed) (cf_log s)"
      using m(4) other(1) by simp
    show ?thesis using assms(2) unfolding close_inv_def k e1 e2 e3 .
  qed
qed

text \<open>After the notification nothing is written, and neither data nor the notification is ever written
  unprotected unless something panicked.\<close>

fun isSent :: "event \<Rightarrow> bool" where
  "isSent TransportClosed = False"
| "isSent _ = True"

fun isNotify :: "event \<Rightarrow> bool" where
  "isNotify (Sent ct b p out) = (ct = ContentTypeAlert)"
| "isNotify _ = False"

text \<open>The history in which a notification is the last thing written.\<close>

fun silentAfter :: "event list \<Rightarrow> bool" where
  "silentAfter [] = True"
| "silentAfter (e # es) = ((isNotify e \<longrightarrow> \<not> list_ex isSent es) \<and> silentAfter es)"

definition log_inv :: "Conf \<Rightarrow> bool" where
  "log_inv s \<longleftrightarrow>
     (list_ex isNotify (cf_log s) \<longrightarrow> cn_closed (cf_conn s) \<and> cn_handshakeOK (cf_conn s) \<and>
        (\<forall>t. \<not> mayNotify (cf_pc s t) \<and> \<not> sending (cf_pc s t))) \<and>
     silentAfter (cf_log s) \<and> (\<forall>ct b out. Sent ct b NullProtector out \<in> set (cf_log s) \<longrightarrow> cf_panicked s)"

lemma silentAfter_snoc:
  "silentAfter (es @ [e]) \<longleftrightarrow> silentAfter es \<and> (isSent e \<longrightarrow> \<not> list_ex isNotify es)"
  by (induction es) auto

lemma silentAfter_closed: "silentAfter es \<Longrightarrow> list_all (\<lambda>e. e = TransportClosed) fs \<Longrightarrow> silentAfter (es @ fs)"
proof (induction fs rule: rev_induct)
  case (snoc f fs)
  then show ?case using silentAfter_snoc [of "es @ fs" f] by simp
qed simp

text \<open>Which steps extend the history, and with what.\<close>

lemma moves_log:
  assumes "moves P X t s s'"
  obtains (quiet) "filter isSent (cf_log s') = filter isSent (cf_log s)" "\<exists>es. cf_log s' = cf_log s @ es \<and> list_all (\<lambda>e. e = TransportClosed) es"
    "mayNotify (cf_pc s' t) \<longrightarrow> mayNotify (cf_pc s t) \<or> \<not> cn_closed (cf_conn s)"
    "sending (cf_pc s' t) \<longrightarrow> sending (cf_pc s t) \<or> \<not> cn_closed (cf_conn s)"
  | (shake) k out where "cf_pc s t = HsRun k" "cf_log s' = cf_log s @ [Shook out]"
  | (data) b out where "sending (cf_pc s t)" "cf_log s' = cf_log s @ [Sent ContentTypeApplicationData b (l_sendProt (cn_layer (cf_conn s))) out]"
      "\<not> mayNotify (cf_pc s' t)"
  | (notify) b out where "cf_pc s t = ClAlert" "cf_log s' = cf_log s @ [Sent ContentTypeAlert b (l_sendProt (cn_layer (cf_conn s))) out]"
      "\<not> mayNotify (cf_pc s' t)" "\<not> sending (cf_pc s' t)"
proof -
  have p: "\<not> mayNotify (resume c k)" "\<not> sending (resume c k)" for c k by (cases k; simp add: resume_def)+
  from assms show thesis
    by cases (rule shake data notify quiet; simp add: p)+
qed

lemma moves_panicked: "moves P X t s s' \<Longrightarrow> cf_panicked s \<Longrightarrow> cf_panicked s'"
  by (erule moves.cases) simp_all

lemma moves_handshakeOK:
  assumes "moves P X t s s'" "cn_handshakeOK (cf_conn s)"
  shows "cn_handshakeOK (cf_conn s')"
proof -
  have h: "cn_handshakeOK c' = cn_handshakeOK c" if "doHandshake P X c = (res, c')" for c c' res
    using that by (auto elim: doHandshake_eq)
  have r: "cn_handshakeOK c' = cn_handshakeOK c" if "readIteration X n k c = (res, c')" for n k c c' res
    using readIteration_eq [OF that] by auto
  have n: "cn_handshakeOK c' = cn_handshakeOK c" if "sendCloseNotify X c = (res, c')" for c c' res
    using sendCloseNotify_eq [OF that] by auto
  show ?thesis using assms by cases (auto simp: closeTransport_conn dest: h r n)
qed

lemma moves_closed: "moves P X t s s' \<Longrightarrow> cn_closed (cf_conn s) \<Longrightarrow> cn_closed (cf_conn s')"
  using moves_close(1) by blast

lemma sender_protected:
  assumes "shake_inv s" "sending (cf_pc s t) \<or> notifying (cf_pc s t)" "l_sendProt (cn_layer (cf_conn s)) = NullProtector"
  shows "cf_panicked s"
proof -
  have ok: "place_ok s (cf_pc s t)" using assms(1) unfolding shake_inv_def by blast
  have b: "sending p \<Longrightarrow> beyond p" for p by (cases p) simp_all
  have "\<not> cn_handshakeOK (cf_conn s)" using assms(1,3) unfolding shake_inv_def Let_def guarded_def by blast
  then show ?thesis
    using assms(1,2) ok b place_ok_beyond [of "cf_pc s t" s] place_ok_notifying [of "cf_pc s t" s] unfolding shake_inv_def Let_def by blast
qed

lemma log_inv_moves:
  assumes "moves P X t s s'" "log_inv s" "close_inv s" "locks_inv s" "shake_inv s"
  shows "log_inv s'"
proof -
  note mono = moves_panicked [OF assms(1)] moves_closed [OF assms(1)] moves_handshakeOK [OF assms(1)]
  have pc: "h (cf_pc s' u) = (if u = t then h (cf_pc s' t) else h (cf_pc s u))" for u and h :: "place \<Rightarrow> bool"
    by (subst moves_pc [OF assms(1)]) simp
  have i: "list_ex isNotify (cf_log s) \<Longrightarrow> cn_closed (cf_conn s) \<and> cn_handshakeOK (cf_conn s) \<and> \<not> mayNotify (cf_pc s u) \<and> \<not> sending (cf_pc s u)"
    "silentAfter (cf_log s)" "Sent ct b NullProtector out \<in> set (cf_log s) \<Longrightarrow> cf_panicked s" for u ct b out
    using assms(2) unfolding log_inv_def by blast+
  from assms(1) show ?thesis
  proof (cases rule: moves_log)
    case quiet
    then obtain es where es: "cf_log s' = cf_log s @ es" "list_all (\<lambda>e. e = TransportClosed) es" by blast
    have e: "list_ex isNotify (cf_log s') = list_ex isNotify (cf_log s)" "\<And>ct b p out. Sent ct b p out \<in> set (cf_log s') \<longleftrightarrow> Sent ct b p out \<in> set (cf_log s)"
      using es by (auto simp: list_all_iff list_ex_iff)
    have sil: "silentAfter (cf_log s')" unfolding es(1) by (rule silentAfter_closed [OF i(2) es(2)])
    have "\<not> mayNotify (cf_pc s' u) \<and> \<not> sending (cf_pc s' u)" if "list_ex isNotify (cf_log s)" for u
      using i(1) [OF that, of u] i(1) [OF that, of t] quiet(3,4) pc [of mayNotify u] pc [of sending u] by (cases "u = t") simp_all
    then show ?thesis unfolding log_inv_def e using i(1,3) mono sil by blast
  next
    case (shake k out)
    have "\<not> cn_handshakeOK (cf_conn s)" using assms(5) shake(1) unfolding shake_inv_def by (metis place_ok_HsRun)
    then have "\<not> list_ex isNotify (cf_log s)" using i(1) by blast
    then show ?thesis unfolding log_inv_def shake(2) using i(2,3) mono(1) by (simp add: silentAfter_snoc)
  next
    case (data b out)
    then have n: "\<not> list_ex isNotify (cf_log s)" using i(1) by blast
    have "cf_panicked s'" if "l_sendProt (cn_layer (cf_conn s)) = NullProtector"
      using sender_protected [OF assms(5) _ that] data(1) mono(1) by blast
    then show ?thesis
      unfolding log_inv_def data(2) using n i(2,3) mono(1) by (simp add: silentAfter_snoc content_type_defs)
  next
    case (notify b out)
    then have n: "\<not> list_ex isNotify (cf_log s)" using i(1) [of t] by auto
    have c: "closing (cf_pc s t)" "holdsOut (cf_pc s t)" "notifying (cf_pc s t)" using notify(1) by simp_all
    have "cf_panicked s'" if "l_sendProt (cn_layer (cf_conn s)) = NullProtector"
      using sender_protected [OF assms(5) _ that] c(3) mono(1) by blast
    moreover have "cn_closed (cf_conn s')" using assms(3) c(1) mono(2) unfolding close_inv_def by blast
    moreover have "cn_handshakeOK (cf_conn s')" using assms(5) c(3) mono(3) unfolding shake_inv_def by (metis place_ok_notifying)
    moreover have "\<not> mayNotify (cf_pc s' u) \<and> \<not> sending (cf_pc s' u)" for u
    proof (cases "u = t")
      case False
      have "mayNotify p \<Longrightarrow> closing p" "sending p \<Longrightarrow> holdsOut p" for p by (cases p; simp)+
      then have "\<not> mayNotify (cf_pc s u)" "\<not> sending (cf_pc s u)"
        using assms(3,4) c(1,2) False unfolding close_inv_def locks_inv_def by (blast, metis option.inject)
      then show ?thesis using pc [of mayNotify u] pc [of sending u] False by simp
    qed (use notify in simp)
    ultimately show ?thesis
      unfolding log_inv_def notify(2) using n i(2,3) mono(1) by (simp add: silentAfter_snoc)
  qed
qed

section \<open>The history accounts for the output\<close>

fun wire :: "event \<Rightarrow> bytes" where
  "wire (Shook out) = out"
| "wire (Sent ct b p out) = out"
| "wire TransportClosed = []"

definition wire_inv :: "bytes \<Rightarrow> Conf \<Rightarrow> bool" where
  "wire_inv out s \<longleftrightarrow> n_out (l_rw (cn_layer (cf_conn s))) = out @ concat (map wire (cf_log s))"

lemma written_advanced: "advanced l l' \<Longrightarrow> n_out (l_rw l') = n_out (l_rw l) @ written l l'"
  by (auto simp: advanced_def written_def prefix_def)

lemma doHandshake_advanced:
  assumes "doHandshake P X c = (res, c')"
  shows "advanced (cn_layer c) (cn_layer c')"
proof -
  have "c' = c \<or> (\<exists>params. runHandshake X params c = (res, c'))"
    using assms unfolding doHandshake_def
    by (cases res) (auto simp: bindS_eq_Inr bindS_eq_Inl Let_def split: if_splits)
  then show ?thesis
    using ClientState_Handshake_advanced [of X "NewClientState (cn_layer c) _"]
    by (fastforce simp: runHandshake_def NewClientState_def split: prod.splits)
qed

lemma readIteration_output:
  assumes "readIteration X n k c = (r, c')"
  shows "n_out (l_rw (cn_layer c')) = n_out (l_rw (cn_layer c))"
proof -
  obtain q l where rd: "ReadRecord X (cn_layer c) = (q, l)" by fastforce
  have l: "n_out (l_rw l) = n_out (l_rw (cn_layer c))"
  proof (cases q)
    case (Inl e)
    then show ?thesis using ReadRecord_Inl(4) rd by simp
  next
    case (Inr a)
    then show ?thesis using ReadRecord_Inr(7) rd by (cases a) simp
  qed
  obtain e where al: "readAlert p (c\<lparr>cn_layer := l\<rparr>) = (Inl (e p), c\<lparr>cn_layer := l, cn_readErr := Some (e p)\<rparr>)" for p
    using readAlert_eq [of _ "c\<lparr>cn_layer := l\<rparr>"] by metis
  have "cn_layer c' = l"
    using assms rd al by (auto simp: readIteration_def failRead_def split: sum.splits if_splits)
  then show ?thesis using l by simp
qed

lemma sendCloseNotify_advanced:
  "sendCloseNotify X c = (r, c') \<Longrightarrow> advanced (cn_layer c) (cn_layer c')"
  using advanced_WriteRecord [of "cn_layer c" X ContentTypeAlert "EncodeAlert AlertLevelWarning AlertCloseNotify"]
  by (auto simp: sendCloseNotify_def split: prod.splits sum.splits err.splits)

lemma WriteRecord_advanced: "WriteRecord X ct b l = (r, l') \<Longrightarrow> advanced l l'"
  using advanced_WriteRecord [of l X ct b] by simp

lemma wire_inv_moves:
  assumes "moves P X t s s'" "wire_inv out s"
  shows "wire_inv out s'"
proof -
  note [dest!] = doHandshake_advanced [THEN written_advanced] sendCloseNotify_advanced [THEN written_advanced]
    WriteRecord_advanced [THEN written_advanced] readIteration_output
  show ?thesis using assms(1,2) by cases (auto simp: wire_inv_def closeTransport_conn)
qed

section \<open>Every schedule\<close>

definition conc_inv :: "Conf \<Rightarrow> bool" where
  "conc_inv s \<longleftrightarrow> locks_inv s \<and> shake_inv s \<and> close_inv s \<and> log_inv s"

lemma conc_inv_newConf: "conc_inv (newConf (newConn w closeErr config))"
  by (simp add: conc_inv_def locks_inv_def shake_inv_def close_inv_def log_inv_def newConf_def newConn_def)

lemma conc_inv_invoke:
  assumes "conc_inv s" "cf_pc s t = Idle"
  shows "conc_inv (goto t (entry k) s)"
proof -
  let ?s = "goto t (entry k) s"
  have pc: "h (cf_pc ?s u) = h (cf_pc s u)" if "h (entry k) = h Idle" for u and h :: "place \<Rightarrow> bool"
    using that assms(2) by simp
  have e: "closing (entry k) = closing Idle" "mayNotify (entry k) = mayNotify Idle" "sending (entry k) = sending Idle"
    "holdsOut (entry k) = holdsOut Idle" "holdsIn (entry k) = holdsIn Idle" "runsOnce (entry k) = runsOnce Idle" "place_ok s (entry k)"
    by (cases k; simp)+
  have "same_shake s ?s" by (simp add: same_shake_def)
  then have "shake_inv ?s" using shake_inv_same [of s _ t "entry k"] assms(1) e(7) by (simp add: conc_inv_def)
  moreover have "locks_inv ?s" using assms(1) unfolding conc_inv_def locks_inv_def pc [OF e(4)] pc [OF e(5)] pc [OF e(6)] by simp
  moreover have "close_inv ?s" using assms(1) unfolding conc_inv_def close_inv_def pc [OF e(1)] goto_fields(2,6) by blast
  moreover have "log_inv ?s" using assms(1) unfolding conc_inv_def log_inv_def pc [OF e(2)] pc [OF e(3)] by simp
  ultimately show ?thesis by (simp add: conc_inv_def)
qed

lemma conc_inv_hung: "conc_inv (s\<lparr>cf_hung := h\<rparr>) = conc_inv s"
  by (simp add: conc_inv_def locks_inv_def shake_inv_def place_ok_def close_inv_def log_inv_def)

lemma conc_inv_exec: "conc_inv s \<Longrightarrow> conc_inv (exec P X a s)"
proof (cases a)
  case (Run t)
  assume i: "conc_inv s"
  show ?thesis
  proof (cases "thread_step P X t s")
    case (Some s')
    then have m: "moves P X t s s'" by (rule thread_step_moves)
    have "cn_once (cf_conn s) \<or> cf_running s = None" using i by (auto simp: conc_inv_def shake_inv_def Let_def)
    then show ?thesis
      using i Some Run stepped_def [of P X t s] locks_inv_moves [OF m] shake_inv_moves [OF m] close_inv_moves [OF m] log_inv_moves [OF m]
      by (simp add: conc_inv_def)
  qed (use i Run in \<open>simp add: stepped_def\<close>)
qed (simp_all add: conc_inv_invoke conc_inv_hung)

lemma wire_inv_exec: "wire_inv out s \<Longrightarrow> wire_inv out (exec P X a s)"
  by (cases a) (auto simp: stepped_def wire_inv_def [of _ "goto _ _ _"] wire_inv_def [of _ "_\<lparr>cf_hung := _\<rparr>"]
      dest: wire_inv_moves [OF thread_step_moves] split: option.split simp flip: wire_inv_def)

lemma wire_inv_execs: "wire_inv out s \<Longrightarrow> wire_inv out (execs P X acts s)"
  unfolding execs_def by (induction acts arbitrary: s) (simp_all add: wire_inv_exec)

lemma conc_inv_execs: "conc_inv s \<Longrightarrow> conc_inv (execs P X acts s)"
  unfolding execs_def by (induction acts arbitrary: s) (simp_all add: conc_inv_exec)

section \<open>Close does not block\<close>

fun closeRank :: "place \<Rightarrow> nat" where
  "closeRank ClSwap = 7"
| "closeRank ClLoad = 6"
| "closeRank ClTry = 5"
| "closeRank ClDeadline = 4"
| "closeRank ClAlert = 3"
| "closeRank ClUnlock = 2"
| "closeRank ClTransport = 1"
| "closeRank _ = 0"

text \<open>A goroutine inside \<open>Close\<close>, or done with it.\<close>

definition inClose :: "nat \<Rightarrow> Conf \<Rightarrow> bool" where
  "inClose t s \<longleftrightarrow> cf_pc s t = ClSwap \<or>
     cn_closed (cf_conn s) \<and> (cf_pc s t = ClAlert \<longrightarrow> cf_deadline s) \<and> (cf_pc s t = Idle \<or> cf_pc s t = ClPanicked \<and> cf_panicked s \<or> 0 < closeRank (cf_pc s t))"

lemma close_progress:
  assumes "inClose t s" "0 < closeRank (cf_pc s t)"
  obtains s' where "exec P X (Run t) s = s'" "closeRank (cf_pc s' t) < closeRank (cf_pc s t)" "inClose t s'"
proof -
  have h: "\<not> hangs t s" using assms by (cases "cf_pc s t") (simp_all add: inClose_def hangs_def)
  have "\<exists>s'. thread_step P X t s = Some s' \<and> closeRank (cf_pc s' t) < closeRank (cf_pc s t) \<and> inClose t s'"
  proof (cases "cf_pc s t")
    case ClAlert
    then show ?thesis using assms sendCloseNotify_eq [of X "cf_conn s"]
      by (cases "sendCloseNotify X (cf_conn s)") (auto simp: thread_step_def close_step_def inClose_def Let_def split: sum.split)
  qed (use assms in \<open>auto simp: thread_step_def close_step_def inClose_def closeTransport_conn Let_def\<close>)
  then show thesis using that h by (auto simp: stepped_def)
qed

lemma moves_deadline: "moves P X t s s' \<Longrightarrow> cf_deadline s \<Longrightarrow> cf_deadline s'"
  by (erule moves.cases) simp_all

lemma exec_inClose:
  assumes "inClose t s" "\<And>k. a \<noteq> Invoke t k"
  shows "inClose t (exec P X a s) \<and>
    closeRank (cf_pc (exec P X a s) t) \<le> (if a = Run t then closeRank (cf_pc s t) - 1 else closeRank (cf_pc s t))"
proof (cases a)
  case (Invoke u k)
  then show ?thesis using assms by (auto simp: inClose_def)
next
  case (Run u)
  show ?thesis
  proof (cases "u = t")
    case True
    show ?thesis
    proof (cases "closeRank (cf_pc s t) = 0")
      case zero: True
      then have "cf_pc s t = Idle \<or> cf_pc s t = ClPanicked" using assms(1) by (auto simp: inClose_def)
      then have "thread_step P X t s = None" by (auto simp: thread_step_def close_step_def)
      then show ?thesis using Run True assms(1) zero by (simp add: stepped_def)
    next
      case False
      then obtain s' where "exec P X (Run t) s = s'" "closeRank (cf_pc s' t) < closeRank (cf_pc s t)" "inClose t s'"
        using close_progress [OF assms(1)] by blast
      then show ?thesis using Run True by simp
    qed
  next
    case False
    then show ?thesis
    proof (cases "thread_step P X u s")
      case (Some s')
      then have m: "moves P X u s s'" by (rule thread_step_moves)
      have "cf_pc s' t = cf_pc s t" using False by (subst moves_pc [OF m]) simp
      then show ?thesis using Run Some False assms(1) moves_closed [OF m] moves_panicked [OF m] moves_deadline [OF m]
        by (auto simp: inClose_def stepped_def)
    qed (use Run assms(1) in \<open>simp add: stepped_def\<close>)
  qed
qed (use assms(1) in \<open>simp_all add: inClose_def\<close>)

lemma execs_inClose:
  assumes "inClose t s" "\<And>k. Invoke t k \<notin> set acts" "closeRank (cf_pc s t) \<le> count_list acts (Run t)"
  shows "inClose t (execs P X acts s) \<and> closeRank (cf_pc (execs P X acts s) t) = 0"
  using assms
proof (induction acts arbitrary: s)
  case (Cons a acts)
  have a: "a \<noteq> Invoke t k" for k using Cons.prems(2) [of k] by auto
  note e = exec_inClose [OF Cons.prems(1) a, of P X]
  have "closeRank (cf_pc (exec P X a s) t) \<le> count_list acts (Run t)"
    using e Cons.prems(3) by (auto split: if_splits)
  then show ?case using Cons.IH [of "exec P X a s"] e Cons.prems(2) by (auto simp: execs_def)
qed (simp add: execs_def)

lemma exec_idle: "cf_pc s t = Idle \<Longrightarrow> (\<And>k. a \<noteq> Invoke t k) \<Longrightarrow> cf_pc (exec P X a s) t = Idle"
proof (cases a)
  case (Run u)
  assume i: "cf_pc s t = Idle"
  show ?thesis
  proof (cases "thread_step P X u s")
    case (Some s')
    have "u \<noteq> t" using Some i by (auto simp: thread_step_def)
    then have "cf_pc s' t = cf_pc s t" by (subst moves_pc [OF thread_step_moves [OF Some]]) simp
    then show ?thesis using Run Some i by (simp add: stepped_def)
  qed (use Run i in \<open>simp add: stepped_def\<close>)
qed auto

lemma execs_idle: "cf_pc s t = Idle \<Longrightarrow> (\<And>k. Invoke t k \<notin> set acts) \<Longrightarrow> cf_pc (execs P X acts s) t = Idle"
proof (induction acts arbitrary: s)
  case (Cons a acts)
  have "a \<noteq> Invoke t k" for k using Cons.prems(2) [of k] by auto
  then have "cf_pc (exec P X a s) t = Idle" using exec_idle Cons.prems(1) by blast
  then show ?case using Cons.IH [of "exec P X a s"] Cons.prems(2) by (simp add: execs_def)
qed (simp add: execs_def)

section \<open>A goroutine on its own\<close>

text \<open>When no other goroutine interferes, the steps of a call amount to the method of theory
  \<open>Conn\<close>.\<close>

abbreviation runs :: "pemlib \<Rightarrow> ('x) ccrypto_scheme \<Rightarrow> nat \<Rightarrow> Conf \<Rightarrow> Conf \<Rightarrow> bool" where
  "runs P X t \<equiv> (\<lambda>s s'. thread_step P X t s = Some s')\<^sup>*\<^sup>*"

definition free :: "Conf \<Rightarrow> bool" where
  "free s \<longleftrightarrow> cf_running s = None \<and> cf_inMu s = None \<and> cf_outMu s = None"

lemma runs_step: "thread_step P X t s = Some s1 \<Longrightarrow> runs P X t s1 s2 \<Longrightarrow> runs P X t s s2"
  by (rule converse_rtranclp_into_rtranclp)

lemma runs_one: "thread_step P X t s = Some s' \<Longrightarrow> runs P X t s s'"
  by (rule r_into_rtranclp)

lemma resume_runs: "cn_handshakeErr c = None \<Longrightarrow> resume c k = proceed k" "cn_handshakeErr c = Some e \<Longrightarrow> resume c k = Idle"
  by (simp_all add: resume_def)

lemma runs_HsExit:
  assumes "cf_pc s t = HsExit k" "cf_inMu s = None" "cf_outMu s = None"
  shows "\<exists>s'. runs P X t s s' \<and> free s' \<and> cf_conn s' = cf_conn s \<and> cf_pc s' t = resume (cf_conn s) k"
  using assms by (intro exI [of _ "goto t (resume (cf_conn s) k) (s\<lparr>cf_running := None\<rparr>)"] conjI r_into_rtranclp)
    (simp_all add: thread_step_def handshake_step_def free_def)

lemma runs_HsRun:
  assumes "cf_pc s t = HsRun k" "cf_inMu s = None" "cf_outMu s = None" "cn_handshakeErr (cf_conn s) = None" "doHandshake P X (cf_conn s) = (r, c1)"
  shows "\<exists>s'. runs P X t s s' \<and> free s' \<and>
    cf_conn s' = (case r of Inr _ \<Rightarrow> c1\<lparr>cn_handshakeOK := True\<rparr> | Inl e \<Rightarrow> if panicked e then c1 else c1\<lparr>cn_handshakeErr := Some e\<rparr>) \<and>
    cf_pc s' t = (case r of Inl e \<Rightarrow> Idle | Inr _ \<Rightarrow> proceed k)"
proof (cases r)
  case (Inl e)
  show ?thesis
  proof (cases "panicked e")
    case True
    then show ?thesis using assms Inl
      by (intro exI [of _ "goto t Idle ((shook c1 s)\<lparr>cf_conn := c1, cf_running := None, cf_panicked := True\<rparr>)"] conjI r_into_rtranclp)
        (simp_all add: thread_step_def handshake_step_def free_def Let_def)
  next
    case False
    let ?s = "goto t (HsExit k) ((shook c1 s)\<lparr>cf_conn := c1\<lparr>cn_handshakeErr := Some e\<rparr>\<rparr>)"
    have "thread_step P X t s = Some ?s" using assms(1,5) Inl False by (simp add: thread_step_def handshake_step_def Let_def)
    then show ?thesis using runs_HsExit [of ?s t k P X] runs_step assms(2,3) Inl False
      by (fastforce simp: resume_def)
  qed
next
  case (Inr u)
  let ?s = "goto t (HsStore k) ((shook c1 s)\<lparr>cf_conn := c1\<rparr>)" let ?s2 = "goto t (HsExit k) ((shook c1 s)\<lparr>cf_conn := c1\<lparr>cn_handshakeOK := True\<rparr>\<rparr>)"
  have st: "thread_step P X t s = Some ?s" using assms(1,5) Inr by (simp add: thread_step_def handshake_step_def Let_def)
  have "thread_step P X t ?s = Some ?s2" by (simp add: thread_step_def handshake_step_def goto_def)
  note steps = runs_step [OF st runs_step [OF this]]
  have "cn_handshakeErr c1 = None" using assms(4,5) by (auto elim: doHandshake_eq)
  then show ?thesis using runs_HsExit [of ?s2 t k P X] steps assms(2,3) Inr by (fastforce simp: resume_def)
qed

lemma runs_Handshake:
  assumes "free s" "cf_pc s t = HsEnter k" "wf_Conn (cf_conn s)"
  shows "\<exists>s'. runs P X t s s' \<and> free s' \<and> cf_conn s' = snd (Conn_Handshake P X (cf_conn s)) \<and>
    cf_pc s' t = (case fst (Conn_Handshake P X (cf_conn s)) of Inl e \<Rightarrow> Idle | Inr _ \<Rightarrow> proceed k)"
proof (cases "cn_once (cf_conn s)")
  case True
  then have "thread_step P X t s = Some (goto t (resume (cf_conn s) k) s)"
    using assms(1,2) by (simp add: thread_step_def handshake_step_def free_def)
  then show ?thesis using assms(1) True resume_runs [of "cf_conn s"]
    by (intro exI [of _ "goto t (resume (cf_conn s) k) s"]) (auto simp: free_def Conn_Handshake_def split: option.split)
next
  case False
  let ?c = "(cf_conn s)\<lparr>cn_once := True\<rparr>" let ?s = "goto t (HsCheck k) (s\<lparr>cf_conn := ?c, cf_running := Some t\<rparr>)"
  have st: "thread_step P X t s = Some ?s" using assms(2) False by (simp add: thread_step_def handshake_step_def)
  have err: "cn_handshakeErr (cf_conn s) = None" using assms(3) False by (simp add: wf_Conn_def)
  show ?thesis
  proof (cases "cn_closed (cf_conn s)")
    case True
    let ?s2 = "goto t (HsExit k) (s\<lparr>cf_conn := ?c\<lparr>cn_handshakeErr := Some (Sentinel ''errConnClosed'')\<rparr>, cf_running := Some t\<rparr>)"
    have "thread_step P X t ?s = Some ?s2" using True by (simp add: thread_step_def handshake_step_def goto_def)
    from runs_step [OF st runs_step [OF this]] show ?thesis
      using runs_HsExit [of ?s2 t k P X] assms(1) True False by (fastforce simp: free_def Conn_Handshake_def resume_def)
  next
    case opened: False
    let ?s2 = "goto t (HsRun k) (s\<lparr>cf_conn := ?c, cf_running := Some t\<rparr>)"
    have "thread_step P X t ?s = Some ?s2" using opened by (simp add: thread_step_def handshake_step_def goto_def)
    note steps = runs_step [OF st runs_step [OF this]]
    obtain r c1 where d: "doHandshake P X ?c = (r, c1)" by fastforce
    have h: "Conn_Handshake P X (cf_conn s) = (r, case r of Inr _ \<Rightarrow> c1\<lparr>cn_handshakeOK := True\<rparr>
        | Inl e \<Rightarrow> if panicked e then c1 else c1\<lparr>cn_handshakeErr := Some e\<rparr>)"
      using d False opened by (simp add: Conn_Handshake_def Let_def panicked_def split: sum.split err.split)
    show ?thesis using runs_HsRun [of ?s2 t k P X r c1] d err assms(1) steps unfolding h by (fastforce simp: free_def)
  qed
qed

lemma Conn_Read_loop_iteration:
  "Conn_Read_loop X n k c = (case readIteration X n k c of (Inl k', c') \<Rightarrow> Conn_Read_loop X n k' c' | (Inr r, c') \<Rightarrow> (r, c'))"
proof -
  obtain q l where rd: "ReadRecord X (cn_layer c) = (q, l)" by fastforce
  note unroll = Conn_Read_loop.simps [of X n k c, unfolded rd]
  show ?thesis
  proof (cases q)
    case (Inl e)
    then show ?thesis using rd unroll by (cases e) (simp_all add: readIteration_def failRead_def panicked_def)
  next
    case (Inr v)
    then show ?thesis using rd unroll by (cases v) (simp add: readIteration_def failRead_def split: prod.split)
  qed
qed

lemma readIteration_shrinks:
  assumes "readIteration X n k c = (Inl k', c')"
  shows "length (r_data (n_in (l_rw (cn_layer c')))) < length (r_data (n_in (l_rw (cn_layer c))))"
  using assms
  by (auto simp: readIteration_def failRead_def dest!: ReadRecord_Inr(9) split: prod.splits sum.splits if_splits)

lemma runs_RdLoop:
  "cf_pc s t = RdLoop n k \<Longrightarrow> cf_running s = None \<Longrightarrow> cf_outMu s = None \<Longrightarrow>
     \<exists>s'. runs P X t s s' \<and> free s' \<and> cf_pc s' t = Idle \<and> cf_conn s' = snd (Conn_Read_loop X n k (cf_conn s))"
proof (induction "length (r_data (n_in (l_rw (cn_layer (cf_conn s)))))" arbitrary: s k rule: less_induct)
  case less
  obtain r c where i: "readIteration X n k (cf_conn s) = (r, c)" by fastforce
  note unroll = Conn_Read_loop_iteration [of X n k "cf_conn s", unfolded i]
  show ?case
  proof (cases r)
    case (Inl k')
    let ?s = "goto t (RdLoop n k') (s\<lparr>cf_conn := c\<rparr>)"
    have st: "thread_step P X t s = Some ?s" using less.prems(1) i Inl by (simp add: thread_step_def read_step_def)
    from less.hyps [of ?s k'] readIteration_shrinks [of X n k "cf_conn s" k' c] i Inl less.prems(2,3) obtain s' where
      "runs P X t ?s s'" "free s'" "cf_pc s' t = Idle" "cf_conn s' = snd (Conn_Read_loop X n k' c)" by auto
    then show ?thesis using runs_step [OF st] unroll Inl by (intro exI [of _ s']) simp
  next
    case (Inr v)
    have st: "thread_step P X t s = Some (readReturns t v c s)" using less.prems(1) i Inr by (simp add: thread_step_def read_step_def)
    then show ?thesis using unroll Inr less.prems(2,3)
      by (intro exI [of _ "readReturns t v c s"] conjI r_into_rtranclp) (simp_all add: free_def)
  qed
qed

lemma runs_Read:
  assumes "free s" "cf_pc s t = RdLock n" "cn_once (cf_conn s)" "cn_handshakeErr (cf_conn s) = None"
  shows "\<exists>s'. runs P X t s s' \<and> free s' \<and> cf_pc s' t = Idle \<and> cf_conn s' = snd (Conn_Read P X n (cf_conn s))"
proof -
  let ?c = "cf_conn s" let ?s = "goto t (RdCheck n) (s\<lparr>cf_inMu := Some t\<rparr>)"
  have h: "Conn_Handshake P X ?c = (Inr (), ?c)" using assms(3,4) by (simp add: Conn_Handshake_def)
  have st: "thread_step P X t s = Some ?s" using assms(1,2) by (simp add: thread_step_def read_step_def free_def)
  have ret: "\<exists>s'. runs P X t s s' \<and> free s' \<and> cf_pc s' t = Idle \<and> cf_conn s' = c'"
    if "thread_step P X t ?s = Some (readReturns t (r :: bytes res) c' ?s)" for r c'
    using runs_step [OF st r_into_rtranclp] that assms(1)
    by (intro exI [of _ "readReturns t r c' ?s"]) (simp add: free_def)
  show ?thesis
  proof (cases "cn_closed ?c \<or> cn_readBuf ?c \<noteq> [] \<or> cn_readErr ?c \<noteq> None")
    case True
    then have "\<exists>r. thread_step P X t ?s = Some (readReturns t (r :: bytes res) (snd (Conn_Read P X n ?c)) ?s)"
      using h by (auto simp: thread_step_def read_step_def Conn_Read_def bindS_def Let_def)
    then show ?thesis using ret by blast
  next
    case False
    let ?s2 = "goto t (RdLoop n 0) ?s"
    have st2: "thread_step P X t ?s = Some ?s2" using False by (simp add: thread_step_def read_step_def)
    have "snd (Conn_Read P X n ?c) = snd (Conn_Read_loop X n 0 ?c)" using h False by (simp add: Conn_Read_def bindS_def)
    then show ?thesis
      using runs_RdLoop [of ?s2 t n 0 P X] runs_step [OF st runs_step [OF st2]] assms(1) by (fastforce simp: free_def)
  qed
qed

lemma runs_WrLoop:
  "cf_pc s t = WrLoop b \<Longrightarrow> cf_running s = None \<Longrightarrow> cf_inMu s = None \<Longrightarrow>
     \<exists>s'. runs P X t s s' \<and> free s' \<and> cf_pc s' t = Idle \<and> cf_conn s' = snd (Conn_Write_loop X w b (cf_conn s))"
proof (induction "length b" arbitrary: s b w rule: less_induct)
  case less
  define chunk where "chunk = chunkOf b"
  obtain r l where wr: "WriteRecord X ContentTypeApplicationData chunk (cn_layer (cf_conn s)) = (r, l)" by fastforce
  note unroll = Conn_Write_loop_unroll [OF wr [unfolded chunk_def] refl, of w, folded chunk_def]
  let ?log = "cf_log s @ [Sent ContentTypeApplicationData chunk (l_sendProt (cn_layer (cf_conn s))) (written (cn_layer (cf_conn s)) l)]"
  have step: "thread_step P X t s = (if b = [] then Some (writeReturns t (Inr () :: unit res) (cf_conn s) s)
     else case r of Inl e \<Rightarrow> Some (writeReturns t (Inl e :: unit res) ((cf_conn s)\<lparr>cn_layer := l\<rparr>) (s\<lparr>cf_log := ?log\<rparr>))
       | Inr _ \<Rightarrow> Some (goto t (WrLoop (drop (length chunk) b)) (s\<lparr>cf_log := ?log, cf_conn := (cf_conn s)\<lparr>cn_layer := l\<rparr>\<rparr>)))"
    using less.prems(1) wr unfolding chunk_def by (simp add: thread_step_def write_step_def Let_def del: if_split cong: if_cong)
  show ?case
  proof (cases "b \<noteq> [] \<and> r = Inr ()")
    case True
    let ?s = "goto t (WrLoop (drop (length chunk) b)) (s\<lparr>cf_log := ?log, cf_conn := (cf_conn s)\<lparr>cn_layer := l\<rparr>\<rparr>)"
    have st: "thread_step P X t s = Some ?s" using step True by simp
    have "0 < length chunk" using True by (auto simp: chunk_def maxChunk_def)
    then have "length (drop (length chunk) b) < length b" using True by simp
    from less.hyps [OF this, of ?s "w + length chunk"] less.prems(2,3) obtain s' where
      "runs P X t ?s s'" "free s'" "cf_pc s' t = Idle" "cf_conn s' = snd (Conn_Write_loop X (w + length chunk) (drop (length chunk) b) (cf_conn ?s))" by auto
    then show ?thesis using runs_step [OF st] unroll True by (intro exI [of _ s']) simp
  next
    case False
    then obtain v s1 where "thread_step P X t s = Some (writeReturns t (v :: unit res) (snd (Conn_Write_loop X w b (cf_conn s))) s1)"
      "cf_running s1 = None" "cf_inMu s1 = None"
      using step unroll less.prems(2,3) by (cases r) (auto split: if_splits)
    then show ?thesis
      by (intro exI [of _ "writeReturns t v (snd (Conn_Write_loop X w b (cf_conn s))) s1"] conjI r_into_rtranclp) (simp_all add: free_def)
  qed
qed

lemma runs_Write:
  assumes "free s" "cf_pc s t = WrLock b" "cn_once (cf_conn s)" "cn_handshakeErr (cf_conn s) = None"
  shows "\<exists>s'. runs P X t s s' \<and> free s' \<and> cf_pc s' t = Idle \<and> cf_conn s' = snd (Conn_Write P X b (cf_conn s))"
proof -
  let ?c = "cf_conn s" let ?s = "goto t (WrCheck b) (s\<lparr>cf_outMu := Some t\<rparr>)"
  have h: "Conn_Handshake P X ?c = (Inr (), ?c)" using assms(3,4) by (simp add: Conn_Handshake_def)
  have st: "thread_step P X t s = Some ?s" using assms(1,2) by (simp add: thread_step_def write_step_def free_def)
  show ?thesis
  proof (cases "cn_closed ?c")
    case True
    let ?s2 = "writeReturns t (Inl (Sentinel ''errConnClosed'') :: unit res) ?c ?s"
    have "thread_step P X t ?s = Some ?s2" using True by (simp add: thread_step_def write_step_def)
    from runs_step [OF st runs_one [OF this]] show ?thesis
      using assms(1) True h by (intro exI [of _ ?s2]) (simp add: free_def Conn_Write_def)
  next
    case False
    let ?s2 = "goto t (WrLoop b) ?s"
    have st2: "thread_step P X t ?s = Some ?s2" using False by (simp add: thread_step_def write_step_def)
    have "snd (Conn_Write P X b ?c) = snd (Conn_Write_loop X 0 b ?c)" using h False by (simp add: Conn_Write_def)
    then show ?thesis
      using runs_WrLoop [of ?s2 t b P X 0] runs_step [OF st runs_step [OF st2]] assms(1) by (fastforce simp: free_def)
  qed
qed

lemma runs_Close:
  assumes "free s" "cf_pc s t = ClSwap"
  shows "\<exists>s'. runs P X t s s' \<and> (cf_pc s' t = Idle \<and> free s' \<or> cf_pc s' t = ClPanicked) \<and> cf_conn s' = snd (Conn_Close X False (cf_conn s))"
proof (cases "cn_closed (cf_conn s)")
  case True
  then show ?thesis using assms
    by (intro exI [of _ "goto t Idle s"] conjI r_into_rtranclp) (simp_all add: thread_step_def close_step_def free_def Conn_Close_def)
next
  case False
  let ?c = "(cf_conn s)\<lparr>cn_closed := True\<rparr>" let ?s = "goto t ClLoad (s\<lparr>cf_conn := ?c\<rparr>)"
  have st: "thread_step P X t s = Some ?s" using assms(2) False by (simp add: thread_step_def close_step_def)
  have fin: "\<exists>s'. runs P X t s2 s' \<and> cf_pc s' t = Idle \<and> free s' \<and> cf_conn s' = snd (closeTransport (cf_conn s2))"
    if "cf_pc s2 t = ClTransport" "free s2" for s2
    using that by (intro exI [of _ "goto t Idle (s2\<lparr>cf_conn := snd (closeTransport (cf_conn s2)), cf_log := cf_log s2 @ [TransportClosed]\<rparr>)"]
        conjI r_into_rtranclp) (simp_all add: thread_step_def close_step_def free_def)
  show ?thesis
  proof (cases "cn_handshakeOK (cf_conn s)")
    case True
    let ?s2 = "goto t ClTry ?s" let ?s3 = "goto t ClDeadline (?s2\<lparr>cf_outMu := Some t\<rparr>)"
    let ?sa = "goto t ClAlert (?s3\<lparr>cf_deadline := True\<rparr>)"
    have st2: "thread_step P X t ?s = Some ?s2" using True by (simp add: thread_step_def close_step_def)
    have st3: "thread_step P X t ?s2 = Some ?s3" using assms(1) by (simp add: thread_step_def close_step_def free_def)
    have sta: "thread_step P X t ?s3 = Some ?sa" by (simp add: thread_step_def close_step_def)
    note steps = runs_step [OF st runs_step [OF st2 runs_step [OF st3 runs_step [OF sta]]]]
    obtain r c where n: "sendCloseNotify X ?c = (r, c)" by fastforce
    let ?log = "cf_log s @ [Sent ContentTypeAlert (EncodeAlert AlertLevelWarning AlertCloseNotify) (l_sendProt (cn_layer (cf_conn s)))
      (written (cn_layer (cf_conn s)) (cn_layer c))]"
    have cl: "snd (Conn_Close X False (cf_conn s)) = (case r of Inl e \<Rightarrow> c | Inr _ \<Rightarrow> snd (closeTransport c))"
      using True False n by (simp add: Conn_Close_def bindS_def split: sum.split)
    show ?thesis
    proof (cases r)
      case (Inl e)
      let ?s4 = "goto t ClPanicked (?sa\<lparr>cf_log := ?log, cf_conn := c, cf_panicked := True\<rparr>)"
      have "thread_step P X t ?sa = Some ?s4" using n Inl by (simp add: thread_step_def close_step_def Let_def)
      then show ?thesis using steps [OF r_into_rtranclp] cl Inl by (intro exI [of _ ?s4]) simp
    next
      case (Inr u)
      let ?s4 = "goto t ClUnlock (?sa\<lparr>cf_log := ?log, cf_conn := c\<rparr>)" let ?s5 = "goto t ClTransport (?s4\<lparr>cf_outMu := None\<rparr>)"
      have st4: "thread_step P X t ?sa = Some ?s4" using n Inr by (simp add: thread_step_def close_step_def Let_def)
      have st5: "thread_step P X t ?s4 = Some ?s5" by (simp add: thread_step_def close_step_def)
      from fin [of ?s5] assms(1) obtain s' where s': "runs P X t ?s5 s'" "cf_pc s' t = Idle" "free s'" "cf_conn s' = snd (closeTransport c)"
        by (auto simp: free_def)
      then show ?thesis using steps [OF runs_step [OF st4 runs_step [OF st5 s'(1)]]] cl Inr by (intro exI [of _ s']) simp
    qed
  next
    case no: False
    let ?s2 = "goto t ClTransport ?s"
    have st2: "thread_step P X t ?s = Some ?s2" using no by (simp add: thread_step_def close_step_def)
    from fin [of ?s2] assms(1) obtain s' where s': "runs P X t ?s2 s'" "cf_pc s' t = Idle" "free s'" "cf_conn s' = snd (closeTransport ?c)"
      by (auto simp: free_def)
    have "snd (Conn_Close X False (cf_conn s)) = snd (closeTransport ?c)" using False no by (simp add: Conn_Close_def bindS_def)
    then show ?thesis using runs_step [OF st runs_step [OF st2 s'(1)]] s'(2-4) by (intro exI [of _ s']) simp
  qed
qed

fun opOf :: "call \<Rightarrow> conn_op" where
  "opOf CallHandshake = OpHandshake"
| "opOf (CallRead n) = OpRead n"
| "opOf (CallWrite b) = OpWrite b"
| "opOf CallClose = OpClose False"

text \<open>After a handshake that succeeded, the rest of the method is run on the connection it left.\<close>

lemma Conn_do_proceed:
  assumes "Conn_Handshake P X c = (Inr (), c1)" "wf_Conn c"
  shows "snd (Conn_Read P X n c) = snd (Conn_Read P X n c1)" "snd (Conn_Write P X b c) = snd (Conn_Write P X b c1)"
    and "cn_once c1" "cn_handshakeErr c1 = None"
proof -
  show o: "cn_once c1" by (rule Conn_Handshake_once [OF assms(1)])
  show e: "cn_handshakeErr c1 = None"
    using assms(1) by (cases rule: Conn_Handshake_cases) (use assms(2) in \<open>auto simp: wf_Conn_def split: option.splits\<close>)
  have "Conn_Handshake P X c1 = (Inr (), c1)" using o e by (simp add: Conn_Handshake_def)
  with assms(1) show "snd (Conn_Read P X n c) = snd (Conn_Read P X n c1)" "snd (Conn_Write P X b c) = snd (Conn_Write P X b c1)"
    by (simp_all add: Conn_Read_def Conn_Write_def bindS_def)
qed

lemma runs_handshake_then:
  assumes "free s" "cf_pc s t = HsEnter k" "wf_Conn (cf_conn s)"
    and fail: "\<And>e c. Conn_Handshake P X (cf_conn s) = (Inl e, c) \<Longrightarrow> c = goal"
    and rest: "\<And>c s1. Conn_Handshake P X (cf_conn s) = (Inr (), c) \<Longrightarrow> free s1 \<Longrightarrow> cf_conn s1 = c \<Longrightarrow> cf_pc s1 t = proceed k \<Longrightarrow>
      \<exists>s'. runs P X t s1 s' \<and> free s' \<and> cf_pc s' t = Idle \<and> cf_conn s' = goal"
  shows "\<exists>s'. runs P X t s s' \<and> free s' \<and> cf_pc s' t = Idle \<and> cf_conn s' = goal"
proof -
  obtain r c where h: "Conn_Handshake P X (cf_conn s) = (r, c)" by fastforce
  from runs_Handshake [OF assms(1-3), of P X] h obtain s1 where
    s1: "runs P X t s s1" "free s1" "cf_conn s1 = c" "cf_pc s1 t = (case r of Inl e \<Rightarrow> Idle | Inr _ \<Rightarrow> proceed k)" by auto
  show ?thesis
  proof (cases r)
    case (Inl e)
    then show ?thesis using s1 fail h by auto
  next
    case (Inr u)
    then have "Conn_Handshake P X (cf_conn s) = (Inr (), c)" "cf_pc s1 t = proceed k" using h s1(4) by simp_all
    from rest [OF this(1) s1(2,3) this(2)] show ?thesis using rtranclp_trans [OF s1(1)] by blast
  qed
qed

lemma runs_call:
  assumes "free s" "cf_pc s t = entry k" "wf_Conn (cf_conn s)"
  shows "\<exists>s'. runs P X t s s' \<and> (cf_pc s' t = Idle \<and> free s' \<or> k = CallClose \<and> cf_pc s' t = ClPanicked) \<and>
    cf_conn s' = snd (Conn_do P X (opOf k) (cf_conn s))"
proof (cases k)
  case CallHandshake
  have "\<exists>s'. runs P X t s s' \<and> free s' \<and> cf_pc s' t = Idle \<and> cf_conn s' = snd (Conn_Handshake P X (cf_conn s))"
    by (rule runs_handshake_then [where k = k]) (use assms CallHandshake in auto)
  then show ?thesis using CallHandshake by (auto split: prod.split)
next
  case (CallRead n)
  have "\<exists>s'. runs P X t s s' \<and> free s' \<and> cf_pc s' t = Idle \<and> cf_conn s' = snd (Conn_Read P X n (cf_conn s))"
  proof (rule runs_handshake_then [where k = k])
    fix c s1
    assume h: "Conn_Handshake P X (cf_conn s) = (Inr (), c)" and "free s1" "cf_conn s1 = c" "cf_pc s1 t = proceed k"
    then show "\<exists>s'. runs P X t s1 s' \<and> free s' \<and> cf_pc s' t = Idle \<and> cf_conn s' = snd (Conn_Read P X n (cf_conn s))"
      using runs_Read [of s1 t n P X] Conn_do_proceed [OF h assms(3)] CallRead by simp
  qed (use assms CallRead in \<open>auto simp: Conn_Read_def bindS_def\<close>)
  then show ?thesis using CallRead by (auto split: prod.split)
next
  case (CallWrite b)
  have "\<exists>s'. runs P X t s s' \<and> free s' \<and> cf_pc s' t = Idle \<and> cf_conn s' = snd (Conn_Write P X b (cf_conn s))"
  proof (rule runs_handshake_then [where k = k])
    fix c s1
    assume h: "Conn_Handshake P X (cf_conn s) = (Inr (), c)" and "free s1" "cf_conn s1 = c" "cf_pc s1 t = proceed k"
    then show "\<exists>s'. runs P X t s1 s' \<and> free s' \<and> cf_pc s' t = Idle \<and> cf_conn s' = snd (Conn_Write P X b (cf_conn s))"
      using runs_Write [of s1 t b P X] Conn_do_proceed [OF h assms(3)] CallWrite by simp
  qed (use assms CallWrite in \<open>auto simp: Conn_Write_def\<close>)
  then show ?thesis using CallWrite by (auto split: prod.split)
next
  case CallClose
  then show ?thesis using runs_Close [OF assms(1), of t P X] assms(2) by (auto split: prod.split)
qed

end
