(* ===== verification/Duplex.thy ===== *)
theory Duplex
  imports ConnThreads
begin

text \<open>
  Reading and writing at the same time.  The layer has a send half and a receive half;
  \<open>ReadRecord\<close> uses only the second and \<open>WriteRecord\<close> only the first.  Steps of a goroutine that
  reads and of one that writes, or sends the \<open>close_notify\<close> alert, therefore commute.
\<close>

section \<open>The two halves of a layer\<close>

definition halves :: "Layer \<Rightarrow> Layer \<Rightarrow> Layer" where
  "halves out rcv =
     \<lparr>l_rw = \<lparr>n_in = n_in (l_rw rcv), n_out = n_out (l_rw out), n_plan = n_plan (l_rw out), n_rand = n_rand (l_rw out)\<rparr>,
      l_sendSeq = l_sendSeq out, l_recvSeq = l_recvSeq rcv, l_sendProt = l_sendProt out, l_recvProt = l_recvProt rcv\<rparr>"

lemma halves_same [simp]: "halves l l = l" by (simp add: halves_def)

lemma halves_fields [simp]:
  "l_sendSeq (halves a b) = l_sendSeq a" "l_sendProt (halves a b) = l_sendProt a"
  "l_recvSeq (halves a b) = l_recvSeq b" "l_recvProt (halves a b) = l_recvProt b"
  "n_in (l_rw (halves a b)) = n_in (l_rw b)" "n_out (l_rw (halves a b)) = n_out (l_rw a)"
  "n_plan (l_rw (halves a b)) = n_plan (l_rw a)" "n_rand (l_rw (halves a b)) = n_rand (l_rw a)"
  by (simp_all add: halves_def)

text \<open>A computation that \<open>F\<close> commutes with: it neither reads nor writes what \<open>F\<close> replaces.\<close>

definition framed :: "('s \<Rightarrow> 's) \<Rightarrow> ('s, 'a) sm \<Rightarrow> bool" where
  "framed F f \<longleftrightarrow> (\<forall>s. f (F s) = map_prod id F (f s))"

named_theorems framed_intros

lemma framed_bindS [framed_intros]: "framed F f \<Longrightarrow> (\<And>x. framed F (g x)) \<Longrightarrow> framed F (bindS f g)"
  by (auto simp: framed_def bindS_def split: prod.split sum.split)

lemma framed_simple [framed_intros]: "framed F (failS e)" "framed F (returnS x)"
  by (simp_all add: framed_def failS_def returnS_def)

lemma framed_modifyS [framed_intros]: "(\<And>s. h (F s) = F (h s)) \<Longrightarrow> framed F (modifyS h)"
  by (simp add: framed_def modifyS_def)

lemma framed_if [framed_intros]: "framed F f \<Longrightarrow> framed F g \<Longrightarrow> framed F (if b then f else g)" by simp

lemma framed_receive [framed_intros]:
  "framed (halves m) (layer_ReadFull n)" "framed (halves m) (layer_Open X hdr fragment)"
  by (auto simp: framed_def layer_ReadFull_def net_ReadFull_def layer_Open_def halves_def split: prod.split)

lemma framed_send [framed_intros]:
  "framed (\<lambda>l. halves l m) (layer_Write b)" "framed (\<lambda>l. halves l m) (layer_Seal X hdr payload)"
  by (auto simp: framed_def layer_Write_def net_Write_def layer_Seal_def halves_def split: prod.split list.split option.split)

lemma framed_D: "framed F f \<Longrightarrow> f (F s) = map_prod id F (f s)" by (simp add: framed_def)

lemma ReadRecord_halves: "ReadRecord X (halves m l) = map_prod id (halves m) (ReadRecord X l)"
proof (cases "l_recvSeq l = - 1")
  case False
  then show ?thesis unfolding ReadRecord_def Let_def halves_fields if_not_P [OF False]
    by (intro framed_D framed_intros) (simp add: halves_def)
qed (simp add: ReadRecord_def)

lemma framed_WriteRecord:
  "framed (\<lambda>l. halves l m) (bindS (layer_Seal X hdr b) (\<lambda>fragment. bindS (layer_Write (h fragment)) (\<lambda>_.
     bindS (layer_Write fragment) (\<lambda>_. modifyS (\<lambda>l. l\<lparr>l_sendSeq := l_sendSeq l + 1\<rparr>)))))"
  by (intro framed_intros) (simp add: halves_def)

lemma WriteRecord_halves: "WriteRecord X ct b (halves l m) = map_prod id (\<lambda>l. halves l m) (WriteRecord X ct b l)"
proof (cases "\<not> isKnownContentType ct \<or> length b > tlsMaxPlaintextLen \<or> l_sendSeq l = - 1")
  case False
  then have "isKnownContentType ct" "\<not> length b > tlsMaxPlaintextLen" "l_sendSeq l \<noteq> - 1" by simp_all
  then show ?thesis unfolding WriteRecord_def Let_def halves_fields
    by (simp only: if_False not_True_eq_False) (rule framed_D [OF framed_WriteRecord])
qed (auto simp: WriteRecord_def)

text \<open>A read leaves the send half and a write the receive half.\<close>

lemma ReadRecord_half: "ReadRecord X l = (r, l') \<Longrightarrow> halves l l' = l'"
  using ReadRecord_halves [of X l l] by simp

lemma WriteRecord_half: "WriteRecord X ct b l = (r, l') \<Longrightarrow> halves l' l = l'"
  using WriteRecord_halves [of X ct b l l] by simp

section \<open>Steps that commute\<close>

abbreviation withSend :: "Layer \<Rightarrow> Conn \<Rightarrow> Conn" where
  "withSend m c \<equiv> c\<lparr>cn_layer := halves m (cn_layer c)\<rparr>"

lemma readAlert_uniform: "\<exists>e. \<forall>c. readAlert p c = (Inl e, c\<lparr>cn_readErr := Some e\<rparr>)"
proof (cases "length p < alertMinLen")
  case True
  then show ?thesis by (simp add: readAlert_def failRead_def)
next
  case False
  then obtain level desc where d: "DecodeAlert p = Inr (level, desc)" by (simp add: DecodeAlert_def alertMinLen_def)
  show ?thesis
    by (cases "desc = AlertCloseNotify") (simp_all add: readAlert_def failRead_def False d)
qed

lemma readIteration_withSend: "readIteration X n k (withSend m c) = map_prod id (withSend m) (readIteration X n k c)"
proof -
  obtain q l where rd: "ReadRecord X (cn_layer c) = (q, l)" by fastforce
  then have rd': "ReadRecord X (halves m (cn_layer c)) = (q, halves m l)" using ReadRecord_halves [of X m "cn_layer c"] by simp
  obtain e where al: "\<And>p c. readAlert p c = (Inl (e p), c\<lparr>cn_readErr := Some (e p)\<rparr>)"
    using choice [of "\<lambda>p e. \<forall>c. readAlert p c = (Inl e, c\<lparr>cn_readErr := Some e\<rparr>)"] readAlert_uniform by blast
  show ?thesis
  proof (cases q)
    case (Inl e)
    then show ?thesis by (simp add: readIteration_def rd rd' failRead_def)
  next
    case (Inr a)
    then show ?thesis by (cases a) (simp add: readIteration_def rd rd' failRead_def al)
  qed
qed

text \<open>A step that sends: a chunk of \<open>Write\<close>, or the alert of \<open>Close\<close>.\<close>

fun sends :: "place \<Rightarrow> bool" where
  "sends (WrLoop b) = True"
| "sends ClAlert = True"
| "sends _ = False"

lemma readIteration_half:
  assumes "readIteration X n k c = (q, c')"
  shows "halves (cn_layer c) (cn_layer c') = cn_layer c'"
proof -
  have "withSend (cn_layer c) c' = c'" using readIteration_withSend [of X n k "cn_layer c" c] assms by simp
  from arg_cong [OF this, of cn_layer] show ?thesis by simp
qed

definition afterRead :: "nat \<Rightarrow> nat \<Rightarrow> nat + bytes res \<Rightarrow> Conn \<Rightarrow> Conf \<Rightarrow> Conf" where
  "afterRead t n q c s = s\<lparr>cf_conn := c, cf_pc := (cf_pc s)(t := case q of Inl k \<Rightarrow> RdLoop n k | Inr _ \<Rightarrow> Idle),
    cf_inMu := (case q of Inl k \<Rightarrow> cf_inMu s | Inr _ \<Rightarrow> None), cf_panicked := cf_panicked s \<or> (case q of Inl k \<Rightarrow> False | Inr r \<Rightarrow> isPanic r)\<rparr>"

definition afterSend :: "nat \<Rightarrow> byte \<Rightarrow> bytes \<Rightarrow> place \<Rightarrow> bool \<Rightarrow> unit res \<Rightarrow> Layer \<Rightarrow> Conf \<Rightarrow> Conf" where
  "afterSend u ct b p release r l s = (sent ct b l s)\<lparr>cf_conn := (cf_conn s)\<lparr>cn_layer := l\<rparr>, cf_pc := (cf_pc s)(u := p),
    cf_outMu := (if release then None else cf_outMu s), cf_panicked := cf_panicked s \<or> isPanic r\<rparr>"

lemma exec_reads:
  assumes "cf_pc s t = RdLoop n k" "readIteration X n k (cf_conn s) = (q, c)"
  shows "stepped P X t s = afterRead t n q c s"
  using assms by (simp add: afterRead_def stepped_def thread_step_def read_step_def goto_def readReturns_def split: sum.split)

lemma exec_sends:
  assumes "sends p"
  obtains ct b nxt release where "\<And>(s :: Conf) r l. cf_pc s u = p \<Longrightarrow> WriteRecord X ct b (cn_layer (cf_conn s)) = (r, l) \<Longrightarrow>
      stepped P X u s = afterSend u ct b (nxt r) (release r) r l s"
  | "\<And>s :: Conf. cf_pc s u = p \<Longrightarrow> stepped P X u s = s\<lparr>cf_pc := (cf_pc s)(u := Idle), cf_outMu := None\<rparr>"
proof (cases p)
  case (WrLoop d)
  show thesis
  proof (cases "d = []")
    case False
    define chunk where "chunk = chunkOf d"
    show thesis
    proof (rule that(1) [of ContentTypeApplicationData chunk "\<lambda>r. case r of Inr _ \<Rightarrow> WrLoop (drop (length chunk) d) | Inl _ \<Rightarrow> Idle" "isl"])
      fix s :: Conf and r l
      assume "cf_pc s u = p" "WriteRecord X ContentTypeApplicationData chunk (cn_layer (cf_conn s)) = (r, l)"
      then show "stepped P X u s = afterSend u ContentTypeApplicationData chunk
          (case r of Inr _ \<Rightarrow> WrLoop (drop (length chunk) d) | Inl _ \<Rightarrow> Idle) (isl r) r l s"
        using WrLoop False
        by (simp add: stepped_def thread_step_def write_step_def Let_def chunk_def [symmetric] goto_def writeReturns_def isPanic_def afterSend_def split: sum.split)
    qed
  next
    case True
    show thesis by (rule that(2)) (simp add: WrLoop True stepped_def thread_step_def write_step_def goto_def writeReturns_def isPanic_def)
  qed
next
  case ClAlert
  show thesis
    by (rule that(1) [of ContentTypeAlert "EncodeAlert AlertLevelWarning AlertCloseNotify" "\<lambda>r. if isPanic r then ClPanicked else ClUnlock" "\<lambda>_. False"])
      (auto simp: ClAlert stepped_def thread_step_def close_step_def sendCloseNotify_def Let_def goto_def isPanic_def panicked_def afterSend_def split: sum.split err.split)
qed (use assms in simp_all)

lemma stepped_commutes:
  assumes "t \<noteq> u" "cf_pc s t = RdLoop n k" "sends (cf_pc s u)"
  shows "stepped P X t (stepped P X u s) = stepped P X u (stepped P X t s)"
proof -
  let ?l = "cn_layer (cf_conn s)"
  obtain q c where rd: "readIteration X n k (cf_conn s) = (q, c)" by fastforce
  note er = exec_reads [OF assms(2) rd, of P]
  note cl = readIteration_half [OF rd]
  have pu: "cf_pc (afterRead t n q c s) u = cf_pc s u" using assms(1) by (simp add: afterRead_def)
  from assms(3) show ?thesis
  proof (cases rule: exec_sends [where u = u and P = P and X = X])
    case (1 ct b nxt release)
    obtain r lw where wr: "WriteRecord X ct b ?l = (r, lw)" by fastforce
    have "readIteration X n k ((cf_conn s)\<lparr>cn_layer := lw\<rparr>) = (q, withSend lw c)"
      using readIteration_withSend [of X n k lw "cf_conn s"] WriteRecord_half [OF wr] rd by simp
    then have tu: "stepped P X t (afterSend u ct b (nxt r) (release r) r lw s) = afterRead t n q (withSend lw c) (afterSend u ct b (nxt r) (release r) r lw s)"
      using assms(1,2) by (intro exec_reads) (simp_all add: afterSend_def)
    have "WriteRecord X ct b (cn_layer c) = (r, halves lw (cn_layer c))"
      using WriteRecord_halves [of X ct b ?l "cn_layer c"] wr cl by simp
    then have ut: "stepped P X u (afterRead t n q c s) = afterSend u ct b (nxt r) (release r) r (halves lw (cn_layer c)) (afterRead t n q c s)"
      by (intro 1 pu) (simp add: afterRead_def)
    have "l_sendProt (cn_layer c) = l_sendProt ?l" using arg_cong [OF cl, of l_sendProt] by simp
    moreover have "written (cn_layer c) (halves lw (cn_layer c)) = written ?l lw"
      using arg_cong [OF cl, of "\<lambda>l. n_out (l_rw l)"] by (simp add: written_def)
    ultimately show ?thesis unfolding er 1 [OF refl wr] tu ut using assms(1)
      by (intro Conf.equality) (auto simp: afterRead_def afterSend_def fun_upd_twist split: sum.split)
  next
    case 2
    have "stepped P X t (s\<lparr>cf_pc := (cf_pc s)(u := Idle), cf_outMu := None\<rparr>) = afterRead t n q c (s\<lparr>cf_pc := (cf_pc s)(u := Idle), cf_outMu := None\<rparr>)"
      using assms(1,2) rd by (intro exec_reads) simp_all
    then show ?thesis unfolding er 2 [OF refl] 2 [OF pu] using assms(1)
      by (intro Conf.equality) (auto simp: afterRead_def fun_upd_twist split: sum.split)
  qed
qed

text \<open>Neither step makes the other hang or releases it.\<close>

lemma stepped_hangs:
  assumes "t \<noteq> u" "cf_pc s t = RdLoop n k" "sends (cf_pc s u)"
  shows "hangs t (stepped P X u s) = hangs t s" "hangs u (stepped P X t s) = hangs u s"
proof -
  obtain q c where rd: "readIteration X n k (cf_conn s) = (q, c)" by fastforce
  have "cn_closes c = cn_closes (cf_conn s)" using readIteration_eq [OF rd] by auto
  then show "hangs u (stepped P X t s) = hangs u s"
    unfolding exec_reads [OF assms(2) rd] using assms(1) by (simp add: hangs_def afterRead_def)
  from assms(3) show "hangs t (stepped P X u s) = hangs t s"
  proof (cases rule: exec_sends [where u = u and P = P and X = X])
    case (1 ct b nxt release)
    obtain r l where "WriteRecord X ct b (cn_layer (cf_conn s)) = (r, l)" by fastforce
    from 1 [OF refl this] show ?thesis using assms(1) by (simp add: hangs_def afterSend_def)
  next
    case 2
    from 2 [OF refl] show ?thesis using assms(1) by (simp add: hangs_def)
  qed
qed

lemma read_commutes:
  assumes "t \<noteq> u" "cf_pc s t = RdLoop n k" "sends (cf_pc s u)"
  shows "exec P X (Run t) (exec P X (Run u) s) = exec P X (Run u) (exec P X (Run t) s)"
  using stepped_commutes [OF assms, of P X] stepped_hangs [OF assms, of P X] by simp

end
