(* ===== verification/ConnProperties.thy ===== *)
theory ConnProperties
  imports ConnStream ExampleRun
begin

text \<open>
  Properties of connections and of dialling.
\<close>

section \<open>A connection for the examples\<close>

definition examplePEM :: pemlib where
  "examplePEM = \<lparr>x509_CertsFromPEM = (\<lambda>_. []), pem_Decode = (\<lambda>_. None)\<rparr>"

definition exampleConfig :: Config where
  "exampleConfig = zeroConfig\<lparr>cfg_CipherSuites := Some [suiteRSAAES128GCMSHA256]\<rparr>"

text \<open>The address \<open>a:1\<close>.\<close>

definition exampleAddr :: bytes where "exampleAddr = [97, 58, 49]"

lemma exampleAddr_host: "SplitHostPort exampleAddr = Some ([97], [49])"
  by (simp add: SplitHostPort_def exampleAddr_def lastIndexByte_def indexByte_def)

lemma exampleConfig_params: "clientParams exampleConfig [97] [suiteRSAAES128GCMSHA256] None [] = exampleParams"
  by (simp add: clientParams_def exampleConfig_def zeroConfig_def exampleParams_def Config_rand_def gostCertsParam_def)

text \<open>The handshake with the example server, and dialling it.\<close>

lemma exampleConn_Handshake:
  assumes "cn_layer c = exampleLayer" "cn_config c = exampleConfig\<lparr>cfg_ServerName := n\<rparr>"
    "serverNameOf (cn_config c) (cn_serverNameFromDial c) = [97]" "\<not> cn_once c" "\<not> cn_closed c"
  shows "\<exists>c'. Conn_Handshake examplePEM exampleEnv c = (Inr (), c')"
proof -
  have p: "rootCAPool examplePEM (Some (cn_config c)) = Inr None" "clientCerts exampleEnv (cn_config c) = Inr []"
    "offeredSuitesOf (cn_config c) = [suiteRSAAES128GCMSHA256]"
    "clientParams (cn_config c) [97] [suiteRSAAES128GCMSHA256] None [] = exampleParams"
    using assms(2) exampleConfig_params
    by (simp_all add: rootCAPool_def clientCerts_def offeredSuitesOf_def exampleConfig_def zeroConfig_def clientParams_def Config_rand_def)
  obtain s where "ClientState_Handshake exampleEnv (NewClientState exampleLayer exampleParams) = (Inr (), s)"
    using exampleHandshake by blast
  then have "\<exists>c'. doHandshake examplePEM exampleEnv (c\<lparr>cn_once := True\<rparr>) = (Inr (), c')"
    using assms(1,3) p by (simp add: doHandshake_def runHandshake_def)
  then show ?thesis using assms(4,5) by (auto simp: Conn_Handshake_def)
qed

lemma exampleDial:
  "\<exists>c. DialContext examplePEM exampleEnv None exampleAddr (Inr (exampleNet exampleInput, None)) (Some exampleConfig) = Inr c"
proof -
  let ?c = "dialConn (exampleNet exampleInput) None exampleAddr exampleConfig"
  have "\<exists>c'. Conn_Handshake examplePEM exampleEnv ?c = (Inr (), c')"
    by (rule exampleConn_Handshake [of _ "[]"])
      (simp_all add: dialConn_def newConn_def exampleLayer_def dialHost_def exampleAddr_host exampleConfig_def zeroConfig_def serverNameOf_def)
  then show ?thesis by (auto simp: DialContext_eq handshakeContext_def)
qed

section \<open>Dialling authenticates the server\<close>

text \<open>C1 (safety).  A dial that returns a connection, with verification on, has authenticated the
  server by name: the name is not empty and is the configured server name or, if none is
  configured, the host of the dialled address; the certificate message of the server, the third
  message of the handshake transcript, starts with a leaf that the certificate library verified for
  that name, at the current time and for server authentication, against the roots of the
  configuration (the configured GOST roots, at least one, for a GOST leaf); the configured callback
  accepted the chains; and the connection runs on the record layer that handshake left.\<close>

theorem dial_authenticates_server:
  assumes "DialContext P X ctx addr (Inr (w, closeErr)) (Some cfg) = Inr c" "\<not> cfg_InsecureSkipVerify cfg"
  shows "\<exists>name roots params s msgs certBody raw gc verified.
    name \<noteq> [] \<and> (cfg_ServerName cfg = name \<or> cfg_ServerName cfg = [] \<and> (\<exists>port. SplitHostPort addr = Some (name, port))) \<and>
    rootCAPool P (Some cfg) = Inr roots \<and>
    ClientState_Handshake X (NewClientState (NewLayer w) params) = (Inr (), s) \<and> cn_layer c = cs_layer s \<and> guarded (cn_layer c) \<and>
    cs_transcript s = writes (envelopes msgs) NewTranscript \<and> 2 < length msgs \<and> msgs ! 2 = (TypeCertificate, certBody) \<and>
    parseBody TypeCertificate certBody = Inr (MCertificate \<lparr>cert_RawCerts = raw\<rparr>) \<and> raw \<noteq> [] \<and>
    x509gost_ParseCertificate X (hd raw) = Inr gc \<and>
    serverVerified X cfg roots name gc verified \<and>
    (\<forall>f. cfg_VerifyPeerCertificate cfg = Some f \<longrightarrow> f raw verified = Inr ())"
  using assms(1)
proof (rule DialContext_Inr)
  let ?name = "serverNameOf cfg (dialHost addr)"
  fix roots certs s
  assume n: "?name \<noteq> [] \<or> cfg_InsecureSkipVerify cfg" and r: "rootCAPool P (Some cfg) = Inr roots"
    and h: "ClientState_Handshake X (NewClientState (NewLayer w) (clientParams cfg ?name (offeredSuitesOf cfg) roots certs)) = (Inr (), s)"
    and l: "cn_layer c = cs_layer s" "guarded (cn_layer c)"
  from h obtain msgs random sh suite leaf serverParams tail where
    neg: "negotiated X (clientParams cfg ?name (offeredSuitesOf cfg) roots certs) msgs random sh suite leaf serverParams"
    and t: "cs_transcript s = writes (envelopes (msgs @ tail)) NewTranscript"
    by (rule ClientState_Handshake_Inr) blast
  from negotiated_verified [OF neg assms(2)] obtain certBody raw gc verified where
    v: "2 < length msgs" "msgs ! 2 = (TypeCertificate, certBody)"
      "parseBody TypeCertificate certBody = Inr (MCertificate \<lparr>cert_RawCerts = raw\<rparr>)" "raw \<noteq> []"
      "x509gost_ParseCertificate X (hd raw) = Inr gc" "serverVerified X cfg roots ?name gc verified"
      "\<forall>f. cfg_VerifyPeerCertificate cfg = Some f \<longrightarrow> f raw verified = Inr ()" by blast
  have name: "?name \<noteq> []" "cfg_ServerName cfg = ?name \<or> cfg_ServerName cfg = [] \<and> (\<exists>port. SplitHostPort addr = Some (?name, port))"
    using n assms(2) by (auto simp: serverNameOf_def dialHost_def split: option.splits if_splits)
  show ?thesis
    by (intro exI [of _ ?name] exI [of _ roots] exI [of _ "clientParams cfg ?name (offeredSuitesOf cfg) roots certs"] exI [of _ s]
        exI [of _ "msgs @ tail"] exI [of _ certBody] exI [of _ raw] exI [of _ gc] exI [of _ verified] conjI)
      (use name r h l t v in \<open>simp_all add: nth_append\<close>)
qed

theorem dial_authenticates_server_witness:
  "\<exists>c name roots gc verified.
     DialContext examplePEM exampleEnv None exampleAddr (Inr (exampleNet exampleInput, None)) (Some exampleConfig) = Inr c \<and>
     name = [97] \<and> serverVerified exampleEnv exampleConfig roots name gc verified"
proof -
  obtain c where c: "DialContext examplePEM exampleEnv None exampleAddr (Inr (exampleNet exampleInput, None)) (Some exampleConfig) = Inr c"
    using exampleDial by blast
  have cfg: "\<not> cfg_InsecureSkipVerify exampleConfig" "cfg_ServerName exampleConfig = []" by (simp_all add: exampleConfig_def zeroConfig_def)
  from dial_authenticates_server [OF c cfg(1)] c cfg(2) exampleAddr_host show ?thesis by auto
qed

text \<open>C18 (error).  Dialling never leaks the transport: a returned connection has completed its handshake, is
  open and protected in both directions, and its context had not ended before the handshake; a failed
  dial has closed the transport exactly once.  The exception is a panic, which unwinds past the
  close.\<close>

theorem dial_outcomes:
  "case DialContext P X ctx addr (Inr (w, closeErr)) (Some cfg) of
     Inr c \<Rightarrow> cn_handshakeOK c \<and> established c \<and> guarded (cn_layer c) \<and> cn_closes c = 0 \<and> (\<forall>e. ctx \<noteq> Some (Some e))
   | Inl (e, conn) \<Rightarrow> (\<exists>c. conn = Some c \<and> cn_closes c = (if panicked e then 0 else 1))"
proof (cases "DialContext P X ctx addr (Inr (w, closeErr)) (Some cfg)")
  case (Inl ec)
  obtain e c where h: "handshakeContext P X ctx (dialConn w closeErr addr cfg) = (Inl e, c)"
    "ec = (e, Some (if panicked e then c else snd (closeTransport c)))"
    using Inl by (auto simp: DialContext_eq split: prod.splits sum.splits)
  from h(1) obtain r where "Conn_Handshake P X (dialConn w closeErr addr cfg) = (r, c)" by (rule handshakeContext_cases)
  then have "cn_closes c = 0" by (cases rule: Conn_Handshake_cases) (simp_all add: dialConn_def newConn_def)
  then show ?thesis using Inl h(2) by (auto simp: closeTransport_def split: option.split)
next
  case (Inr c)
  from Inr show ?thesis by (rule DialContext_Inr) (simp add: Inr)
qed

section \<open>Every state of a connection\<close>

text \<open>C17 (type).  Whatever methods are called on a new connection, in whatever order, with whatever
  outcome, panics included, the connection value stays well-formed: before the handshake it holds no
  result and no data, a completed handshake has no error, at most one record's worth of bytes is
  buffered, the transport was closed at most once and only by \<open>Close\<close>, and no panic was stored
  as an error.\<close>

theorem conn_wellformed: "wf_Conn (snd (Conn_execs P X ops (newConn w closeErr config)))"
  using wf_Conn_execs [OF _ wf_newConn] by (metis prod.collapse)

text \<open>C6 (invariant).  In every state a new connection reaches without a panic: after the first handshake
  attempt the flag and the recorded error agree, and before it the record layer is untouched; once the
  handshake is complete the layer is protected in both directions; the transport was closed once
  if the connection is closed and not otherwise.  A \<open>Write\<close> then either fails without sending any
  application data, having done no more than the handshake, or sends its records from a protected
  layer, and a \<open>Read\<close> that returns data did so with a complete handshake and a protected
  layer.\<close>

theorem conn_protected:
  assumes "conn_reach P X (newConn w closeErr config) c"
  shows "(if cn_once c then cn_handshakeOK c \<longleftrightarrow> cn_handshakeErr c = None else cn_layer c = NewLayer w) \<and>
    (cn_handshakeOK c \<longrightarrow> guarded (cn_layer c)) \<and> cn_closes c = (if cn_closed c then 1 else 0) \<and>
    (\<forall>b res c'. Conn_Write P X b c = (res, c') \<longrightarrow>
       (\<exists>e. res = (0, Some e) \<and> snd (Conn_Handshake P X c) = c') \<or>
       (\<exists>c1. Conn_Handshake P X c = (Inr (), c1) \<and> guarded (cn_layer c1) \<and> Conn_Write_loop X 0 b c1 = (res, c'))) \<and>
    (\<forall>n bs c'. Conn_Read P X n c = (Inr bs, c') \<longrightarrow> cn_handshakeOK c' \<and> guarded (cn_layer c'))"
proof (intro conjI allI impI)
  have inv: "conn_inv w c" by (rule conn_reach_inv [OF assms])
  then show "if cn_once c then cn_handshakeOK c \<longleftrightarrow> cn_handshakeErr c = None else cn_layer c = NewLayer w"
    "cn_closes c = (if cn_closed c then 1 else 0)" and "cn_handshakeOK c \<Longrightarrow> guarded (cn_layer c)"
    by (auto simp: conn_inv_def split: if_splits)
  have shake: "cn_handshakeOK c1 \<and> guarded (cn_layer c1)" if "Conn_Handshake P X c = (Inr (), c1)" for c1
    using conn_inv_Handshake_Inr [OF that inv] by (simp add: conn_inv_def)
  show "(\<exists>e. res = (0, Some e) \<and> snd (Conn_Handshake P X c) = c') \<or>
      (\<exists>c1. Conn_Handshake P X c = (Inr (), c1) \<and> guarded (cn_layer c1) \<and> Conn_Write_loop X 0 b c1 = (res, c'))"
    if "Conn_Write P X b c = (res, c')" for b res c'
    using that by (cases rule: Conn_Write_cases) (auto dest: shake)
  show "cn_handshakeOK c'" "guarded (cn_layer c')" if "Conn_Read P X n c = (Inr bs, c')" for n bs c'
    using that
    by (cases rule: Conn_Read_cases; use Conn_Read_loop_eq in \<open>fastforce dest: shake simp: readOutcome_def\<close>)+
qed

theorem conn_protected_witness:
  "\<exists>c. conn_reach examplePEM exampleEnv (newConn (exampleNet exampleInput) None (Some (exampleConfig\<lparr>cfg_ServerName := [97]\<rparr>))) c \<and>
     cn_once c \<and> guarded (cn_layer c)"
proof -
  let ?c = "newConn (exampleNet exampleInput) None (Some (exampleConfig\<lparr>cfg_ServerName := [97]\<rparr>))"
  obtain c where c: "Conn_Handshake examplePEM exampleEnv ?c = (Inr (), c)"
    using exampleConn_Handshake [of ?c "[97]"] by (auto simp: newConn_def exampleLayer_def serverNameOf_def)
  have reach: "conn_reach examplePEM exampleEnv ?c c"
    by (rule conn_reach.step [OF conn_reach.start, where op = OpHandshake and r = None]) (simp_all add: c resErr_def)
  have "cn_handshakeErr c = None" using c by (cases rule: Conn_Handshake_cases) (simp_all add: newConn_def)
  then show ?thesis using conn_protected [OF reach] Conn_Handshake_once [OF c] reach by auto
qed

section \<open>After a failure or a close\<close>

text \<open>C10 (safety).  A connection that is closed, or whose handshake failed, stays silent: whatever methods are
  called then, the record layer and with it the transport are not touched any more, and every
  \<open>Read\<close> and \<open>Write\<close> returns the handshake error or, if there is none, \<open>errConnClosed\<close>.\<close>

theorem conn_dead_silent:
  assumes "Conn_execs P X ops (newConn w closeErr config) = (rs, c)" "cn_closed c \<or> cn_once c \<and> cn_handshakeErr c \<noteq> None"
    "Conn_execs P X ops' c = (rs', c')"
  shows "cn_layer c' = cn_layer c \<and> length rs' = length ops' \<and>
    (\<forall>i < length ops'. transfers (ops' ! i) \<longrightarrow>
       rs' ! i = Some (case cn_handshakeErr c of None \<Rightarrow> Sentinel ''errConnClosed'' | Some e \<Rightarrow> e))"
proof -
  have "dead c" using assms(2) by (simp add: dead_def)
  from dead_Conn_execs [OF this wf_Conn_execs [OF assms(1) wf_newConn] assms(3)] show ?thesis by (simp add: deadErr_def)
qed

theorem conn_dead_silent_witness:
  "\<exists>rs c. Conn_execs examplePEM exampleEnv [OpRead 5, OpClose False, OpWrite [1]] ((newConn (exampleNet []) None None)\<lparr>cn_closed := True, cn_closes := 1\<rparr>) = (rs, c) \<and>
     rs ! 0 = Some (Sentinel ''errConnClosed'') \<and> rs ! 2 = Some (Sentinel ''errConnClosed'') \<and> cn_layer c = NewLayer (exampleNet [])"
proof -
  let ?c = "(newConn (exampleNet []) None None)\<lparr>cn_closed := True, cn_closes := 1\<rparr>"
  let ?ops = "[OpRead 5, OpClose False, OpWrite [1]]"
  have "Conn_execs examplePEM exampleEnv [OpClose False] (newConn (exampleNet []) None None) = ([None], ?c)"
    by (simp add: Conn_Close_def closeTransport_def newConn_def resErr_def bindS_def)
  moreover obtain rs c where r: "Conn_execs examplePEM exampleEnv ?ops ?c = (rs, c)" by fastforce
  ultimately have "cn_layer c = cn_layer ?c \<and> length rs = length ?ops \<and> (\<forall>i < length ?ops. transfers (?ops ! i) \<longrightarrow>
       rs ! i = Some (case cn_handshakeErr ?c of None \<Rightarrow> Sentinel ''errConnClosed'' | Some e \<Rightarrow> e))"
    by (intro conn_dead_silent [where ops = "[OpClose False]"]) simp_all
  then have "cn_layer c = NewLayer (exampleNet [])" "rs ! 0 = Some (Sentinel ''errConnClosed'')" "rs ! 2 = Some (Sentinel ''errConnClosed'')"
    by (force simp: newConn_def)+
  with r show ?thesis by blast
qed

section \<open>The byte stream\<close>

text \<open>C5 (round trip).  Two connections whose layers share keys and position carry a byte stream: whatever
  buffers one end writes without an error, the other end reads back as one stream, in pieces of any
  sizes that add up to it, however \<open>Write\<close> cut the buffers into records and \<open>Read\<close> returned
  them; nothing is lost, duplicated or read beyond it.\<close>

theorem conn_stream_roundtrip:
  assumes "established s" "established r" "in_sync X (cn_layer s) (cn_layer r)" "cn_readBuf r = []" "cn_readErr r = None"
    and "Conn_Writes P X bs s = (Inr (), s')" "n_out (l_rw (cn_layer s')) = n_out (l_rw (cn_layer s)) @ wire"
    and "r_data (n_in (l_rw (cn_layer r))) = wire @ rest" "sum_list ns = length (concat bs)"
  shows "\<exists>cs r'. Conn_ReadFulls Q X ns r = (Inr cs, r') \<and> map length cs = ns \<and> concat cs = concat bs \<and>
    r_data (n_in (l_rw (cn_layer r'))) = rest"
proof -
  obtain rs where "WriteRecords X rs (cn_layer s) = (Inr (), cn_layer s')" "list_all appRecord rs" "concat (map snd rs) = concat bs"
    using Conn_Writes_records [OF assms(1,6)] by blast
  then have "carries X r (concat bs) rest"
    unfolding carries_def using assms by (intro conjI exI [of _ rs] exI [of _ "cn_layer s"] exI [of _ "cn_layer s'"] exI [of _ wire]) simp_all
  from Conn_ReadFulls_carries [OF this, of ns Q] assms(9) obtain cs r' where
    "Conn_ReadFulls Q X ns r = (Inr cs, r')" "map length cs = ns" "concat cs = concat bs" "carries X r' [] rest" by auto
  then show ?thesis using carries_done by blast
qed

theorem conn_stream_roundtrip_witness:
  "\<exists>r cs r'. Conn_ReadFulls examplePEM exampleEnv [1, 2] r = (Inr cs, r') \<and> map length cs = [1, 2] \<and> concat cs = [1, 2, 3]"
proof -
  let ?w = "record_bytes 23 ([0, 0, 0, 0, 0, 0, 0, 0, 1, 2, 3] @ replicate 16 0)"
  let ?l = "ChangeCipherSpec (Some (AEADProtector exampleAEAD)) None (NewLayer (exampleNet []))"
  let ?s = "(newConn (exampleNet []) None None)\<lparr>cn_once := True, cn_layer := ?l\<rparr>"
  let ?r = "(newConn (exampleNet []) None None)\<lparr>cn_once := True,
    cn_layer := ChangeCipherSpec None (Some (AEADProtector exampleAEAD)) (NewLayer (exampleNet (?w @ [9])))\<rparr>"
  have est: "established ?s" "established ?r" "cn_readBuf ?r = []" "cn_readErr ?r = None" by (simp_all add: established_def newConn_def)
  have sync: "in_sync exampleEnv (cn_layer ?s) (cn_layer ?r)"
    by (simp add: in_sync_def ChangeCipherSpec_def NewLayer_def NewLayerWithSeq_def exampleAEAD_def zeroTagAEAD_ok)
  have w: "WriteRecord exampleEnv ContentTypeApplicationData [1, 2, 3] ?l = (Inr (), ?l\<lparr>l_sendSeq := 1, l_rw := (exampleNet [])\<lparr>n_out := ?w\<rparr>\<rparr>)"
    using exampleEnv_writes by (simp add: ContentTypeApplicationData_def)
  let ?s' = "?s\<lparr>cn_layer := ?l\<lparr>l_sendSeq := 1, l_rw := (exampleNet [])\<lparr>n_out := ?w\<rparr>\<rparr>\<rparr>"
  have wr: "Conn_Writes examplePEM exampleEnv [[1, 2, 3]] ?s = (Inr (), ?s')"
    using est(1) w Conn_Write_loop_unroll [of exampleEnv "[1, 2, 3]" ?s "Inr ()" _ 3 0] Conn_Write_loop.simps [of exampleEnv 3 "[]"]
    by (simp add: established_Write maxChunk_def)
  have wire: "n_out (l_rw (cn_layer ?s')) = n_out (l_rw (cn_layer ?s)) @ ?w" "r_data (n_in (l_rw (cn_layer ?r))) = ?w @ [9]"
    "sum_list [1, 2] = length (concat [[1, 2, 3 :: byte]])"
    by (simp_all add: exampleNet_def ChangeCipherSpec_def NewLayer_def NewLayerWithSeq_def)
  from conn_stream_roundtrip [OF est(1,2) sync est(3,4) wr wire, of examplePEM]
  obtain cs r' where "Conn_ReadFulls examplePEM exampleEnv [1, 2] ?r = (Inr cs, r')" "map length cs = [1, 2]" "concat cs = concat [[1, 2, 3]]"
    by (elim exE conjE) (rule that)
  then show ?thesis by (intro exI [of _ ?r] exI [of _ cs] exI [of _ r']) (simp only: concat.simps append_Nil2 simp_thms)
qed

section \<open>A panic in the handshake\<close>

text \<open>C39 (error).  A panic in the handshake, which a caller may have recovered from, fails open: the
  \<open>sync.Once\<close> is done and no error is recorded, so the next \<open>Handshake\<close> reports success, and if
  the panic came before the keys were installed the next \<open>Write\<close> reports success, too, having sent
  its data in the clear.\<close>

theorem handshake_panic_fails_open:
  assumes "Conn_Handshake P X c = (Inl (Panic p), c')" "wf_Conn c" "\<not> cn_once c" "\<not> cn_closed c"
    and "l_sendProt (cn_layer c') = NullProtector" "l_sendSeq (cn_layer c') \<noteq> - 1" "n_plan (l_rw (cn_layer c')) = []"
    and "b \<noteq> []" "length b \<le> 16384"
  shows "Conn_Handshake P X c' = (Inr (), c') \<and>
    (\<exists>c2. Conn_Write P X b c' = ((length b, None), c2) \<and>
       n_out (l_rw (cn_layer c2)) = n_out (l_rw (cn_layer c')) @ record_bytes ContentTypeApplicationData b)"
proof -
  have est: "established c'"
    using assms(1) by (cases rule: Conn_Handshake_cases) (use assms(2-4) in \<open>auto simp: established_def wf_Conn_def\<close>)
  obtain l where w: "WriteRecord X ContentTypeApplicationData b (cn_layer c') = (Inr (), l)"
    "n_out (l_rw l) = n_out (l_rw (cn_layer c')) @ record_bytes ContentTypeApplicationData b"
    using assms(5-7,9)
    by (simp add: WriteRecord_def layer_Seal_def nullProtector_Seal_def layer_Write_def net_Write_def isKnownContentType_def
        record_const_defs record_bytes_def bindS_def modifyS_def Let_def)
  have "Conn_Write P X b c' = ((length b, None), c'\<lparr>cn_layer := l\<rparr>)"
    using est w(1) assms(8,9) Conn_Write_loop_unroll [of X b c' "Inr ()" l "length b" 0] Conn_Write_loop.simps [of X "length b" "[]"]
    by (simp add: established_Write maxChunk_def)
  then show ?thesis using established_Handshake [OF est] w(2) by auto
qed

text \<open>The configured random source panics.\<close>

theorem handshake_panic_fails_open_witness:
  "\<exists>c c' c2. Conn_Handshake examplePEM exampleEnv c = (Inl (Panic ''rand''), c') \<and> Conn_Handshake examplePEM exampleEnv c' = (Inr (), c') \<and>
     Conn_Write examplePEM exampleEnv [1, 2, 3] c' = ((3, None), c2) \<and>
     n_out (l_rw (cn_layer c2)) = n_out (l_rw (cn_layer c')) @ [23, 3, 3, 0, 3, 1, 2, 3]"
proof -
  let ?cfg = "exampleConfig\<lparr>cfg_ServerName := [97], cfg_Rand := Some \<lparr>r_data = [], r_err = Panic ''rand''\<rparr>\<rparr>"
  let ?c = "newConn (exampleNet []) None (Some ?cfg)"
  have p: "Conn_Handshake examplePEM exampleEnv ?c = (Inl (Panic ''rand''), ?c\<lparr>cn_once := True\<rparr>)"
    by (simp add: Conn_Handshake_def doHandshake_def runHandshake_def newConn_def rootCAPool_def clientCerts_def offeredSuitesOf_def
        serverNameOf_def exampleConfig_def zeroConfig_def clientParams_def Config_rand_def ClientState_Handshake_def sendClientHello_def
        NewClientState_def withParamsRand_def ReadFull_def bindS_def)
  from handshake_panic_fails_open [OF p wf_newConn, of "[1, 2, 3]"]
  obtain c2 where "Conn_Handshake examplePEM exampleEnv (?c\<lparr>cn_once := True\<rparr>) = (Inr (), ?c\<lparr>cn_once := True\<rparr>)"
    "Conn_Write examplePEM exampleEnv [1, 2, 3] (?c\<lparr>cn_once := True\<rparr>) = ((3, None), c2)"
    "n_out (l_rw (cn_layer c2)) = n_out (l_rw (cn_layer (?c\<lparr>cn_once := True\<rparr>))) @ [23, 3, 3, 0, 3, 1, 2, 3]"
    by (auto simp: newConn_def NewLayer_def NewLayerWithSeq_def exampleNet_def record_bytes_def put16_def ContentTypeApplicationData_def)
  with p show ?thesis by blast
qed

end
