(* ===== verification/ThreadProperties.thy ===== *)
theory ThreadProperties
  imports Duplex ConnProperties
begin

text \<open>
  Properties of goroutines that share a connection, over every schedule.
\<close>

section \<open>Who uses the layer\<close>

fun usesSend :: "place \<Rightarrow> bool" where
  "usesSend (HsRun k) = True"
| "usesSend (WrLoop b) = True"
| "usesSend ClAlert = True"
| "usesSend _ = False"

fun usesRecv :: "place \<Rightarrow> bool" where
  "usesRecv (HsRun k) = True"
| "usesRecv (RdLoop n k) = True"
| "usesRecv _ = False"

fun_cases usesSendE: "usesSend p"
fun_cases usesRecvE: "usesRecv p"

text \<open>The handshake excludes every other use of the layer; the locks do the rest.\<close>

lemma handshake_alone:
  assumes "conc_inv s" "cf_pc s t = HsRun k" "usesSend (cf_pc s u) \<or> usesRecv (cf_pc s u)"
  shows "t = u"
proof -
  have l: "runsOnce (cf_pc s v) \<longleftrightarrow> cf_running s = Some v" and ok: "place_ok s (cf_pc s v)" for v
    using assms(1) by (simp_all add: conc_inv_def locks_inv_def shake_inv_def)
  have r: "cf_running s = Some t" using l [of t] assms(2) by simp
  have n: "\<not> cn_handshakeOK (cf_conn s)" using ok [of t] assms(2) by (simp add: place_ok_def Let_def)
  have "cf_pc s u = p \<Longrightarrow> usesSend p \<or> usesRecv p \<Longrightarrow> t = u" for p
    using ok [of u] l [of u] r n by (cases p) (simp_all add: place_ok_def Let_def)
  then show ?thesis using assms(3) by blast
qed

lemma one_sender:
  assumes "conc_inv s" "usesSend (cf_pc s t)" "usesSend (cf_pc s u)"
  shows "t = u"
proof (cases "\<exists>v k. (v = t \<or> v = u) \<and> cf_pc s v = HsRun k")
  case True
  then show ?thesis using handshake_alone [OF assms(1)] assms(2,3) by blast
next
  case False
  then have "holdsOut (cf_pc s t)" "holdsOut (cf_pc s u)" using assms(2,3) by (auto elim!: usesSendE)
  then show ?thesis using assms(1) by (simp add: conc_inv_def locks_inv_def)
qed

lemma one_receiver:
  assumes "conc_inv s" "usesRecv (cf_pc s t)" "usesRecv (cf_pc s u)"
  shows "t = u"
proof (cases "\<exists>v k. (v = t \<or> v = u) \<and> cf_pc s v = HsRun k")
  case True
  then show ?thesis using handshake_alone [OF assms(1)] assms(2,3) by blast
next
  case False
  then have "holdsIn (cf_pc s t)" "holdsIn (cf_pc s u)" using assms(2,3) by (auto elim!: usesRecvE)
  then show ?thesis using assms(1) by (simp add: conc_inv_def locks_inv_def)
qed

section \<open>A panicking handshake, step by step\<close>

definition panicConfig :: Config where
  "panicConfig = exampleConfig\<lparr>cfg_ServerName := [97], cfg_Rand := Some \<lparr>r_data = [], r_err = Panic ''rand''\<rparr>\<rparr>"

definition panicConn :: Conn where
  "panicConn = newConn (exampleNet []) None (Some panicConfig)"

lemma panicConn_doHandshake:
  "doHandshake examplePEM exampleEnv (panicConn\<lparr>cn_once := True\<rparr>) = (Inl (Panic ''rand''), panicConn\<lparr>cn_once := True\<rparr>)"
  by (simp add: doHandshake_def runHandshake_def panicConn_def newConn_def rootCAPool_def clientCerts_def offeredSuitesOf_def
      serverNameOf_def panicConfig_def exampleConfig_def zeroConfig_def clientParams_def Config_rand_def ClientState_Handshake_def
      sendClientHello_def NewClientState_def withParamsRand_def ReadFull_def bindS_def)

lemma panicConn_fields:
  "\<not> cn_once panicConn" "\<not> cn_closed panicConn" "cn_handshakeErr panicConn = None" "l_sendProt (cn_layer panicConn) = NullProtector"
  by (simp_all add: panicConn_def newConn_def NewLayer_def NewLayerWithSeq_def)

text \<open>Goroutine 0 panics in the handshake; goroutine 1 then writes.\<close>

definition panicSchedule :: "act list" where
  "panicSchedule = [Invoke 0 CallHandshake, Invoke 1 (CallWrite [1, 2, 3]), Run 0, Run 1, Run 0, Run 0, Run 1, Run 1, Run 1, Run 1]"

lemma panicSchedule_log:
  "\<exists>out. Sent 23 [1, 2, 3] NullProtector out \<in> set (cf_log (execs examplePEM exampleEnv panicSchedule (newConf panicConn)))"
proof -
  let ?c = "panicConn\<lparr>cn_once := True\<rparr>"
  obtain r l where w: "WriteRecord exampleEnv 23 [1, 2, 3] (cn_layer panicConn) = (r, l)" by fastforce
  show ?thesis
    unfolding panicSchedule_def execs_def
    by (simp add: newConf_def goto_def hangs_def stepped_def thread_step_def handshake_step_def write_step_def panicConn_doHandshake panicConn_fields
        resume_def Let_def maxChunk_def ContentTypeApplicationData_def w writeReturns_def panicked_def split: sum.split)
qed

section \<open>Every schedule is safe\<close>

text \<open>C7 (safety).  Whatever calls goroutines make on a new connection and however their steps
  interleave: at most one goroutine uses the send side of the record layer and at most one its receive
  side, and the one that runs the handshake has both for itself; the history accounts for every byte
  written to the transport, as the output of the handshake or as a record of \<open>Write\<close> or
  \<open>Close\<close>; nothing, of the handshake or of the others, is written after the \<open>close_notify\<close> alert
  of \<open>Close\<close>; the transport is closed at most once; and no record of \<open>Write\<close> or \<open>Close\<close> is written
  in the clear unless some call panicked.  What the handshake itself writes before the keys are
  installed is in the clear, as TLS has it.\<close>

theorem interleaving_safe:
  assumes "s = execs P X acts (newConf (newConn w closeErr config))"
  shows "(\<forall>t u. usesSend (cf_pc s t) \<and> usesSend (cf_pc s u) \<longrightarrow> t = u) \<and>
    (\<forall>t u. usesRecv (cf_pc s t) \<and> usesRecv (cf_pc s u) \<longrightarrow> t = u) \<and>
    (\<forall>t u k. cf_pc s t = HsRun k \<and> (usesSend (cf_pc s u) \<or> usesRecv (cf_pc s u)) \<longrightarrow> t = u) \<and>
    n_out (l_rw (cn_layer (cf_conn s))) = n_out w @ concat (map wire (cf_log s)) \<and>
    silentAfter (cf_log s) \<and> length (filter (\<lambda>e. e = TransportClosed) (cf_log s)) \<le> 1 \<and>
    (\<forall>ct b out. Sent ct b NullProtector out \<in> set (cf_log s) \<longrightarrow> cf_panicked s)"
proof -
  have i: "conc_inv s" unfolding assms by (rule conc_inv_execs [OF conc_inv_newConf])
  then have "silentAfter (cf_log s)" "length (filter (\<lambda>e. e = TransportClosed) (cf_log s)) \<le> 1"
    "\<forall>ct b out. Sent ct b NullProtector out \<in> set (cf_log s) \<longrightarrow> cf_panicked s"
    unfolding conc_inv_def log_inv_def close_inv_def by auto
  moreover have "wire_inv (n_out w) s"
    unfolding assms by (rule wire_inv_execs) (simp add: wire_inv_def newConf_def newConn_def NewLayer_def NewLayerWithSeq_def)
  ultimately show ?thesis using one_sender [OF i] one_receiver [OF i] handshake_alone [OF i] unfolding wire_inv_def by blast
qed

theorem interleaving_safe_witness:
  "let s = execs examplePEM exampleEnv panicSchedule (newConf panicConn) in
   (\<exists>out. Sent 23 [1, 2, 3] NullProtector out \<in> set (cf_log s)) \<and> cf_panicked s \<and>
   n_out (l_rw (cn_layer (cf_conn s))) = concat (map wire (cf_log s))"
proof -
  have "n_out (exampleNet []) = []" by (simp add: exampleNet_def)
  then show ?thesis
    using interleaving_safe [OF refl, of examplePEM exampleEnv panicSchedule "exampleNet []" None "Some panicConfig", folded panicConn_def]
      panicSchedule_log by (auto simp: Let_def)
qed

section \<open>Close\<close>

definition closed_inv :: "Conf \<Rightarrow> bool" where
  "closed_inv s \<longleftrightarrow> (cn_closed (cf_conn s) \<longrightarrow> cn_closes (cf_conn s) = 1 \<or> (\<exists>u. closing (cf_pc s u)))"

lemma closed_inv_moves:
  assumes "moves P X t s s'" "closed_inv s" "close_inv s"
  shows "closed_inv s'"
proof (cases "closing (cf_pc s' t) \<or> cf_pc s t = ClTransport")
  case True
  have "closing ClTransport" by simp
  then show ?thesis using True moves_close(2) [OF assms(1)] assms(3) unfolding closed_inv_def close_inv_def by (metis One_nat_def)
next
  case False
  then have "cn_closed (cf_conn s') = cn_closed (cf_conn s)" "cn_closes (cf_conn s') = cn_closes (cf_conn s)" "\<not> closing (cf_pc s t)"
    using moves_close(1-3) [OF assms(1)] by (auto split: if_splits)
  moreover have "closing (cf_pc s' u)" if "closing (cf_pc s u)" for u
    using that \<open>\<not> closing (cf_pc s t)\<close> moves_pc [OF assms(1)] by (metis fun_upd_other)
  ultimately show ?thesis using assms(2) unfolding closed_inv_def by metis
qed

text \<open>The goroutine that set the flag is on its way to the transport, or has closed it.\<close>

definition won :: "nat \<Rightarrow> Conf \<Rightarrow> bool" where
  "won t s \<longleftrightarrow> closing (cf_pc s t) \<or> cf_pc s t = Idle \<and> cn_closes (cf_conn s) = 1"

lemma won_moves:
  assumes "moves P X u s s'" "won t s" "close_inv s"
  shows "won t s'"
proof (cases "u = t")
  case True
  have m: "moves P X t s s'" using assms(1) True by simp
  show ?thesis
  proof (cases "cf_pc s t = ClTransport")
    case True
    then have "cn_closes (cf_conn s) = 0" using assms(3) unfolding close_inv_def by (metis closing.simps(6))
    then show ?thesis using m True moves_close(2) [OF m] by (auto simp: won_def elim: moves.cases)
  next
    case False
    have "cf_pc s t \<noteq> Idle" using m by (auto elim: moves.cases)
    then have c: "closing (cf_pc s t)" using assms(2) by (simp add: won_def)
    then have "cf_pc s t \<noteq> ClSwap" by auto
    then show ?thesis using moves_close(3) [OF m] c False by (simp add: won_def)
  qed
next
  case False
  then have pc: "cf_pc s' t = cf_pc s t" by (subst moves_pc [OF assms(1)]) simp
  have "cn_closes (cf_conn s') = cn_closes (cf_conn s)" if "cn_closes (cf_conn s) = 1"
    using moves_close(2) [OF assms(1)] that assms(3) unfolding close_inv_def by (metis closing.simps(6) zero_neq_one)
  then show ?thesis using assms(2) pc by (auto simp: won_def)
qed

lemma closed_inv_exec:
  assumes "closed_inv s" "conc_inv s"
  shows "closed_inv (exec P X a s)"
proof (cases a)
  case (Invoke t k)
  have "closing (cf_pc (exec P X a s) u)" if "closing (cf_pc s u)" for u using that Invoke by auto
  moreover have "cf_conn (exec P X a s) = cf_conn s" using Invoke by simp
  ultimately show ?thesis using assms(1) unfolding closed_inv_def by metis
next
  case (Run t)
  then show ?thesis using assms closed_inv_moves thread_step_moves
    by (fastforce simp: conc_inv_def stepped_def split: option.split)
qed (use assms(1) in \<open>simp_all add: closed_inv_def\<close>)

lemma closed_inv_execs: "closed_inv s \<Longrightarrow> conc_inv s \<Longrightarrow> closed_inv (execs P X acts s)"
  unfolding execs_def by (induction acts arbitrary: s) (simp_all add: closed_inv_exec conc_inv_exec)

lemma won_exec:
  assumes "won t s" "conc_inv s" "\<And>k. a \<noteq> Invoke t k"
  shows "won t (exec P X a s)"
proof (cases a)
  case (Run u)
  then show ?thesis using assms won_moves [of P X u s _ t] thread_step_moves [of P X u s]
    by (cases "thread_step P X u s") (simp_all add: conc_inv_def stepped_def)
qed (use assms in \<open>auto simp: won_def\<close>)

lemma won_execs:
  assumes "won t s" "conc_inv s" "\<And>k. Invoke t k \<notin> set acts"
  shows "won t (execs P X acts s)"
  using assms
proof (induction acts arbitrary: s)
  case (Cons a acts)
  have "a \<noteq> Invoke t k" for k using Cons.prems(3) [of k] by auto
  then have "won t (exec P X a s)" using won_exec Cons.prems(1,2) by blast
  then show ?case using Cons.IH [of "exec P X a s"] conc_inv_exec [OF Cons.prems(2), of P X a] Cons.prems(3) by (simp add: execs_def)
qed (simp add: execs_def)

lemma execs_Cons: "execs P X (a # acts) s = execs P X acts (exec P X a s)"
  by (simp add: execs_def)

text \<open>C11 (liveness).  \<open>Close\<close> never waits: a goroutine that calls it on a connection in any
  reachable situation, with any other goroutine holding any lock or hanging in the handshake, in
  \<open>Read\<close> or in \<open>Write\<close>, and even if its own write of the alert hangs, is done with \<open>Close\<close>
  after seven of its own steps, and the connection is marked closed.  A \<open>Close\<close> that is the one to set
  the flag has then closed the transport, exactly once, unless the seal of the alert panicked.  One
  that finds the flag set returns at once, and its transport may still be open: the other
  \<open>Close\<close>, which set the flag, has closed it or is on its way to do so.\<close>

theorem close_never_blocks:
  assumes "s = execs P X before (newConf (newConn w closeErr config))" "cf_pc s t = ClSwap"
    and "\<forall>k. Invoke t k \<notin> set acts" "6 \<le> count_list acts (Run t)" "s' = execs P X (Run t # acts) s"
  shows "cn_closed (cf_conn s') \<and> (cf_pc s' t = Idle \<or> cf_pc s' t = ClPanicked \<and> cf_panicked s') \<and>
    (if \<not> cn_closed (cf_conn s) then cn_closes (cf_conn s') = 1 \<or> cf_pc s' t = ClPanicked
     else cf_pc s' t = Idle \<and> (cn_closes (cf_conn s') = 1 \<or> (\<exists>u. u \<noteq> t \<and> closing (cf_pc s' u))))"
proof -
  have i: "conc_inv s" unfolding assms(1) by (rule conc_inv_execs [OF conc_inv_newConf])
  have c: "closed_inv s'"
    unfolding assms(1,5) by (intro closed_inv_execs conc_inv_execs conc_inv_newConf) (simp add: closed_inv_def newConf_def newConn_def)
  have "inClose t s" using assms(2) by (simp add: inClose_def)
  from execs_inClose [OF this, of "Run t # acts" P X] assms(2-5)
  have d: "cn_closed (cf_conn s')" "cf_pc s' t = Idle \<or> cf_pc s' t = ClPanicked \<and> cf_panicked s'" by (auto simp: inClose_def)
  let ?s1 = "exec P X (Run t) s"
  have h: "\<not> hangs t s" using assms(2) by (simp add: hangs_def)
  have i1: "conc_inv ?s1" by (rule conc_inv_exec [OF i])
  show ?thesis
  proof (cases "cn_closed (cf_conn s)")
    case False
    then have "won t ?s1" using assms(2) h by (simp add: stepped_def thread_step_def close_step_def won_def)
    then have "won t s'" using won_execs [of t ?s1 acts P X] i1 assms(3,5) by (simp add: execs_Cons)
    then show ?thesis using d False by (auto simp: won_def)
  next
    case True
    then have "cf_pc ?s1 t = Idle" using assms(2) h by (simp add: stepped_def thread_step_def close_step_def)
    then have "cf_pc s' t = Idle" using execs_idle [of ?s1 t acts P X] assms(3,5) by (simp add: execs_Cons)
    then show ?thesis using d True c unfolding closed_inv_def by (metis closing.simps(8))
  qed
qed

text \<open>A handshake that hangs does not hold up \<open>Close\<close>.\<close>

theorem close_never_blocks_witness:
  "let s = execs examplePEM exampleEnv [Invoke 0 CallHandshake, Run 0, Run 0, Hang 0, Invoke 1 CallClose] (newConf panicConn);
       s' = execs examplePEM exampleEnv (replicate 7 (Run 1)) s
   in cf_pc s 0 = HsRun CallHandshake \<and> cf_pc s 1 = ClSwap \<and> cn_closed (cf_conn s') \<and>
      (cn_closes (cf_conn s') = 1 \<or> cf_pc s' 1 = ClPanicked)"
proof -
  let ?acts = "[Invoke 0 CallHandshake, Run 0, Run 0, Hang 0, Invoke 1 CallClose]"
  let ?s = "execs examplePEM exampleEnv ?acts (newConf panicConn)"
  have s: "cf_pc ?s 0 = HsRun CallHandshake" "cf_pc ?s 1 = ClSwap" "\<not> cn_closed (cf_conn ?s)"
    by (simp_all add: execs_def newConf_def goto_def hangs_def stepped_def thread_step_def handshake_step_def panicConn_fields Let_def)
  have r: "\<forall>k. Invoke 1 k \<notin> set (replicate 6 (Run 1))" "6 \<le> count_list (replicate 6 (Run 1)) (Run 1)"
    "replicate 7 (Run 1) = Run 1 # replicate 6 (Run 1)"
    by (simp_all add: numeral_eq_Suc)
  from close_never_blocks [OF refl s(2) [unfolded panicConn_def] r(1,2) refl, folded panicConn_def] s show ?thesis
    unfolding Let_def r(3) by simp
qed

section \<open>The atomic methods\<close>

text \<open>C13 (refinement).  The methods as atomic steps are what the interleaved steps amount to: a call
  made while no other is under way, on a well-formed connection, returns after finitely many steps of
  its goroutine, each call on the transport returning as its script says, with the locks released and the connection in the state the atomic method leaves.  Only a
  \<open>Close\<close> whose seal panics keeps the send lock.\<close>

theorem solo_call_refines:
  assumes "free s" "cf_pc s t = Idle" "wf_Conn (cf_conn s)"
  shows "\<exists>s'. (\<lambda>s s'. thread_step P X t s = Some s')\<^sup>*\<^sup>* (exec P X (Invoke t k) s) s' \<and>
    (cf_pc s' t = Idle \<and> free s' \<or> k = CallClose \<and> cf_pc s' t = ClPanicked) \<and>
    cf_conn s' = snd (Conn_do P X (opOf k) (cf_conn s))"
  using runs_call [of "exec P X (Invoke t k) s" t k P X] assms by (simp add: free_def)

theorem solo_call_refines_witness:
  "\<exists>s'. (\<lambda>s s'. thread_step examplePEM exampleEnv 0 s = Some s')\<^sup>*\<^sup>*
      (exec examplePEM exampleEnv (Invoke 0 CallClose) (newConf panicConn)) s' \<and>
    cn_closes (cf_conn s') = 1"
proof -
  have "free (newConf panicConn)" "cf_pc (newConf panicConn) 0 = Idle" "wf_Conn (cf_conn (newConf panicConn))"
    by (simp_all add: newConf_def free_def panicConn_def wf_newConn)
  from solo_call_refines [OF this, of examplePEM exampleEnv CallClose] show ?thesis
    by (auto simp: newConf_def panicConn_def newConn_def Conn_Close_def closeTransport_def)
qed

section \<open>Reading while writing\<close>

text \<open>C16 (equivalence).  A goroutine that reads a record and one that writes a record, or sends the
  \<open>close_notify\<close> alert, do not disturb each other: the two steps commute, in every configuration
  and whatever the records are.\<close>

theorem duplex_commutes:
  assumes "t \<noteq> u" "cf_pc s t = RdLoop n k" "sends (cf_pc s u)"
  shows "exec P X (Run t) (exec P X (Run u) s) = exec P X (Run u) (exec P X (Run t) s)"
  using assms by (rule read_commutes)

theorem duplex_commutes_witness:
  "let s = (newConf panicConn)\<lparr>cf_pc := (\<lambda>_. Idle)(0 := RdLoop 4 0, 1 := WrLoop [1, 2, 3])\<rparr> in
   exec examplePEM exampleEnv (Run 0) (exec examplePEM exampleEnv (Run 1) s) = exec examplePEM exampleEnv (Run 1) (exec examplePEM exampleEnv (Run 0) s)"
  unfolding Let_def by (rule duplex_commutes [of _ _ _ 4 0]) simp_all

end
