(* ===== verification/Spec2Isabelle.thy ===== *)
theory Spec2Isabelle
  imports WireProperties RecordProperties KeyProperties HandshakeProperties ThreadProperties
begin

text \<open>
  A verification development of \<open>gostls\<close>, a TLS 1.2 client in Go with the GOST cipher suites.

  \<^bold>\<open>The program.\<close>  A user calls \<open>Dialer.DialContext\<close> or \<open>NewConn\<close> and reads and writes a
  \<open>Conn\<close> (\<open>src/conn.go\<close>).  The first use runs the handshake client
  (\<open>src/internal/handshake\<close>), which exchanges messages over the record layer
  (\<open>src/internal/record\<close>), takes the cipher suite, the PRF and the key schedule from
  \<open>src/internal/suites\<close> and the premaster secret from a key exchange of
  \<open>src/internal/ke\<close>, and installs the resulting protectors in the layer.  From then on
  \<open>Read\<close> and \<open>Write\<close> move application data through that layer.

  \<^bold>\<open>Conventions.\<close>  Bytes are 8-bit words and slices are lists; \<open>uint16\<close> and
  \<open>uint64\<close> are words that wrap as Go's do, \<open>int\<close> lengths are natural numbers.  A
  fallible function returns a sum with the error on the left; a method that changes its receiver is
  a function from the old record to a result and the new record, composed with the state monad of
  theory \<open>Prelude\<close>, so an error keeps what was changed before it.  Sentinel errors are
  values named after the Go variable; wrapped error texts are left out.  A run-time panic is the
  error \<open>Panic\<close>.  Field names carry a prefix for their record (\<open>cs\_\<close> for
  \<open>ClientState\<close>, \<open>l\_\<close> for \<open>Layer\<close>, \<open>cn\_\<close> for \<open>Conn\<close>);
  functions keep their Go names, methods with the receiver in front.  The transport and
  the system randomness are the record \<open>net\<close>: the bytes that will arrive and the error
  that ends them, the outcome of each coming write, the bytes written.

  \<^bold>\<open>Code outside the repository.\<close>  Hashes, block ciphers, AEADs, curves, RSA, \<open>bigmod\<close>,
  \<open>gostcrypto\<close>, \<open>x509\<close> and \<open>x509gost\<close> are fields of an environment record that
  grows along the theories (\<open>rcrypto\<close>, \<open>kcrypto\<close>, \<open>xcrypto\<close>, \<open>gcrypto\<close>,
  \<open>ccrypto\<close>) and is an argument of every definition that uses it; the PEM decoder is the record
  \<open>pemlib\<close>.  What a theorem needs of them is a named hypothesis (a block cipher decrypts what
  it encrypted, both ends of a key agreement compute the same point).  Theory
  \<open>Instances\<close> has an environment that satisfies all of them, with ciphers that do nothing
  and real modular arithmetic, and \<open>ExampleRun\<close> evaluates a whole handshake in it; the
  witnesses rest on these two.  What is standard library and used by value is modelled:
  \<open>encoding/binary\<close>, \<open>io.ReadFull\<close>, \<open>encoding/asn1\<close> as far as it is called (theory
  \<open>Asn1\<close>), CBC chaining, HMAC, \<open>net.SplitHostPort\<close>, \<open>sync.Once\<close>, mutexes and atomics.

  \<^bold>\<open>Theories and sources.\<close>
  \<^item> \<open>Wire\<close>, \<open>Extensions\<close>, \<open>Messages\<close>: \<open>wire.go\<close>, \<open>extensions.go\<close>,
    \<open>messages.go\<close> and \<open>types.go\<close> of \<open>internal/handshake\<close>.  Properties in
    \<open>WireProperties\<close>: a marshalled message parses back, \<open>ParseMessage\<close>, the Certificate
    parser and the extension parser accept exactly the framed input, and the DER envelope of the
    GOST key transport decodes to what went in.
  \<^item> \<open>Crypto\<close>, \<open>Protection\<close>, \<open>ProtectionGost\<close>, \<open>RecordLayer\<close>:
    \<open>alerts.go\<close>, \<open>protection.go\<close>, \<open>protection_chacha20.go\<close>,
    \<open>protection_gost.go\<close>, \<open>protection_ctromac_gost.go\<close> and \<open>record.go\<close> of
    \<open>internal/record\<close>.  The locale \<open>protector\<close> states what sealing and opening promise
    each other; it is interpreted for each of the protectors and for their sum, the Go
    interface value, and the record layer is proved once on it.  Properties in \<open>RecordProperties\<close>: records written under a suite's
    keys are read back in order, the constant-time CBC check accepts exactly the layout of RFC 5246
    and one further shape that is spelt out, the buffered GOST MAC and the counter mode with key meshing refine plain
    descriptions, sequence numbers never wrap, how far a nonce determines the sequence number,
    and what \<open>ReadRecord\<close> can return.
  \<^item> \<open>Suites\<close>, \<open>Keys\<close>, \<open>Transcript\<close>: \<open>internal/suites\<close>, \<open>src/suites.go\<close>,
    and \<open>crypto.go\<close>, \<open>protector_gost.go\<close> and \<open>transcript.go\<close> of the handshake package.
    \<open>Kex\<close>, \<open>Asn1\<close>, \<open>KexGost\<close>: \<open>internal/ke\<close>.  The locale
    \<open>key_agreement\<close> says that a server computes the client's premaster secret; it is interpreted
    for ECDHE, DHE, RSA, VKO 2001, VKO 2012 and GOST 2018.  Properties in \<open>KeyProperties\<close>:
    agreement on the keys for each, the closed form of the PRF and that it returns, the partition
    of the key block, the registry, the bound of the transcript.  The DHE server of the agreement pads
    the shared value to the length of the modulus, as the client does.
  \<^item> \<open>ClientState\<close>, \<open>Client\<close>, \<open>Handshake\<close>: \<open>client.go\<close>,
    \<open>cert_gost.go\<close> and \<open>kex_gost.go\<close>.  \<open>ServerFlight\<close>, \<open>HandshakeSteps\<close>,
    \<open>HandshakeErrors\<close> and \<open>Reassembly\<close> hold the lemmas on a run: what each step
    has established, the receive loop against an inductive transition system, the error paths, and
    messages cut into records.  Properties in \<open>HandshakeProperties\<close>: a completed handshake has
    authenticated the server, verified both Finished messages, negotiated only what was offered,
    kept the order of RFC 5246 and installed the keys of the negotiated secret; a failed one is
    never marked complete and ends with a fatal alert, which is on the wire if the transport takes
    it; reassembly does not depend on the fragmentation.
  \<^item> \<open>Config\<close>, \<open>Conn\<close>: \<open>config.go\<close>, \<open>conn.go\<close>, \<open>dialer.go\<close>,
    \<open>dialer_default.go\<close>, with each method of \<open>Conn\<close> one atomic step.  \<open>ConnSteps\<close> has
    the runs of a connection as sequences of calls and \<open>ConnStream\<close> the byte stream.  Properties
    in \<open>ConnProperties\<close>: a successful dial has authenticated the server for the right name, a
    failed dial has closed the transport, data moves only under protection, a closed or failed
    connection never touches the transport again, and the bytes one end writes are the bytes the
    other end reads, however both cut them.
  \<^item> \<open>ConnThreads\<close>, \<open>Duplex\<close>: the same methods cut at \<open>sync.Once\<close>, the mutexes, the
    atomic flags, the write deadline and each record, for any number of goroutines and every schedule;
    a schedule may let any call on the transport hang until the transport is closed or, for a write, a
    deadline is set.  A history records all that is written, the output of the handshake included.
    Invariants are proved by cases over one transition relation.  Properties in
    \<open>ThreadProperties\<close>: each side of the layer has one user at a time, the history accounts for
    every byte on the transport, nothing follows the \<open>close_notify\<close> of \<open>Close\<close>, which never
    waits, reading and writing commute, and a call made alone ends in the state of the atomic method,
    which ties the two models of \<open>Conn\<close> together.

  \<^bold>\<open>Loops and bounds.\<close>  Loops over data are functions that terminate because the data shrinks:
  the loops of \<open>Read\<close>, of record reassembly and of the server flight consume input the
  transport still holds, which is finite, and end with its error.  The loops of
  \<open>P\_hash\<close> and of the GOST counter mode are partial functions into \<open>option\<close>, and that
  they return is proved.  The scan for PEM blocks has one more than the length of the input as fuel; every
  block takes at least one byte (a hypothesis on the decoder), and a lemma shows that more
  fuel changes nothing.  The bounds of the code (\<open>2^14\<close> bytes of plaintext, 2048 of
  expansion, 256 KiB of transcript, 32 empty records) are the code's constants.  A length that does
  not fit its 8-, 16- or 24-bit field is truncated in the model as in the code, so the round
  trips have the fitting lengths as hypotheses.

  \<^bold>\<open>What the proofs showed.\<close>  A panic in the handshake that a caller recovers from leaves a
  connection that reports success and writes in the clear; any odd modulus padded with zero
  bytes passes the size floor of DHE, however few values it leaves for the secret; a failed transport write leaves the sequence number, and so
  the nonce, to be used again.  Padding of a CBC record that reaches into the MAC of an empty content
  is not refused as such.  Each is a theorem or part of one.

  \<^bold>\<open>Not modelled.\<close>  Error texts and their wrapping, \<open>Type.String\<close>, and the sentinel
  declarations of \<open>errors.go\<close>, which occur as values.  The trace of \<open>wire_debug.go\<close>,
  which writes to a file and returns nothing.  The address and deadline methods of \<open>Conn\<close>, which only
  forward to the transport; in the atomic model a deadline is seen as the error it makes the transport
  report, in the interleaved one as what releases a hanging write.
  \<open>hash_helpers.go\<close> and \<open>sha1_helper.go\<close>, one-line constructors that are
  fields of the environment, and the two constant functions on build tags.  Timing: that the CBC
  check takes constant time is not expressible over values; what is shown is that its
  arithmetic selects the right bytes.  In the interleaved model \<open>doHandshake\<close> is one step, which
  its exclusive use of the layer justifies, and the Go memory model is sequential consistency, as
  the language grants programs without data races; the fields the steps share are guarded by the
  locks, the \<open>sync.Once\<close> or atomics.  The goroutine that \<open>handshakeContext\<close> starts to watch
  its context is represented by its outcome.  For the GOST suites the properties of a completed
  handshake fix the kind of the exchange but do not tie it to the key of the leaf certificate; the
  agreement properties of the GOST exchanges start from that key.
\<close>

end
